(* ===== verification/Prelude.thy ===== *)
theory Prelude
  imports Main "HOL-Library.Word" "HOL-Library.AList" "HOL-Library.Monad_Syntax"
begin

text \<open>
  Shared ground of the development: the machine types of the Go code (bytes and unsigned
  words), the big-endian integer layout of Go's \<^verbatim>\<open>encoding/binary\<close>, Go maps as
  association lists, and three interfaces stated as locales that the components
  interpret:

  \<^item> \<open>codec\<close> and \<open>fixed_codec\<close>: a byte format that reads back what it wrote;
  \<^item> \<open>expiring\<close>: a store whose periodic sweep removes exactly the expired entries;
  \<^item> \<open>inductive_invariant\<close>: a state machine together with an invariant of its steps.
\<close>

section \<open>Machine types\<close>

type_synonym byte = "8 word"
type_synonym bytes = "byte list"
type_synonym u16 = "16 word"
type_synonym u32 = "32 word"
type_synonym u64 = "64 word"

text \<open>
  A point in time and a duration are integers (nanoseconds). \<^verbatim>\<open>t.Sub(u)\<close> saturates at the
  ends of \<^verbatim>\<open>int64\<close>; the code only compares the result with constants well inside that range,
  so the plain difference gives the same answers.
\<close>

type_synonym time = int
type_synonym duration = int

abbreviation second :: duration where
  "second \<equiv> 1000000000"

abbreviation minute :: duration where
  "minute \<equiv> 60 * second"

abbreviation hour :: duration where
  "hour \<equiv> 60 * minute"

named_theorems wire_simps \<open>lengths and round trips of the wire formats\<close>
named_theorems go_map \<open>lookup and domain laws of Go maps\<close>

text \<open>The bytes of an ASCII string literal of the source.\<close>

definition ascii :: "string \<Rightarrow> bytes" where
  "ascii s = map (\<lambda>c. of_char c) s"

section \<open>Big-endian integers\<close>

fun be_put :: "nat \<Rightarrow> nat \<Rightarrow> bytes" where
  "be_put 0 x = []"
| "be_put (Suc n) x = be_put n (x div 256) @ [of_nat (x mod 256)]"

definition be_get :: "bytes \<Rightarrow> nat" where
  "be_get bs = foldl (\<lambda>acc b. acc * 256 + unat b) 0 bs"

definition put_u16 :: "u16 \<Rightarrow> bytes" where
  "put_u16 w = be_put 2 (unat w)"

definition put_u32 :: "u32 \<Rightarrow> bytes" where
  "put_u32 w = be_put 4 (unat w)"

definition put_u64 :: "u64 \<Rightarrow> bytes" where
  "put_u64 w = be_put 8 (unat w)"

text \<open>
  Reading from the front of a byte string, with the rest: \<^verbatim>\<open>None\<close> where the string is too
  short (Go's slicing would panic, or \<^verbatim>\<open>binary.Read\<close> would report an end of file).
\<close>

definition take_exact :: "nat \<Rightarrow> bytes \<Rightarrow> (bytes \<times> bytes) option" where
  "take_exact n bs = (if length bs < n then None else Some (take n bs, drop n bs))"

definition get_u16 :: "bytes \<Rightarrow> (u16 \<times> bytes) option" where
  "get_u16 bs = map_option (\<lambda>(h, t). (of_nat (be_get h), t)) (take_exact 2 bs)"

definition get_u32 :: "bytes \<Rightarrow> (u32 \<times> bytes) option" where
  "get_u32 bs = map_option (\<lambda>(h, t). (of_nat (be_get h), t)) (take_exact 4 bs)"

definition get_u64 :: "bytes \<Rightarrow> (u64 \<times> bytes) option" where
  "get_u64 bs = map_option (\<lambda>(h, t). (of_nat (be_get h), t)) (take_exact 8 bs)"

lemma length_be_put [simp, wire_simps]: "length (be_put n x) = n"
  by (induction n arbitrary: x) auto

lemma be_get_Nil [simp]: "be_get [] = 0"
  by (simp add: be_get_def)

lemma be_get_snoc [simp]: "be_get (bs @ [b]) = be_get bs * 256 + unat b"
  by (simp add: be_get_def)

lemma unat_byte_mod [simp]: "unat (of_nat (x mod 256) :: byte) = x mod 256"
  by (simp add: unat_of_nat)

lemma be_get_put: "be_get (be_put n x) = x mod 256 ^ n"
proof (induction n arbitrary: x)
  case 0
  then show ?case by simp
next
  case (Suc n)
  have "x mod (256 * 256 ^ n) = 256 * (x div 256 mod 256 ^ n) + x mod 256"
    by (simp add: mod_mult2_eq)
  with Suc show ?case by simp
qed

lemma be_get_bound: "be_get bs < 256 ^ length bs"
proof (induction bs rule: rev_induct)
  case Nil
  then show ?case by simp
next
  case (snoc b bs)
  have "unat b < 256"
    using unsigned_less [of b] by simp
  with snoc show ?case by simp
qed

lemma be_put_get: "be_put (length bs) (be_get bs) = bs"
proof (induction bs rule: rev_induct)
  case Nil
  then show ?case by simp
next
  case (snoc b bs)
  have b: "unat b < 256"
    using unsigned_less [of b] by simp
  then have "(be_get bs * 256 + unat b) div 256 = be_get bs"
    and "(be_get bs * 256 + unat b) mod 256 = unat b"
    by simp_all
  with snoc show ?case by simp
qed

lemma take_exact_append [simp, wire_simps]:
  "length xs = n \<Longrightarrow> take_exact n (xs @ ys) = Some (xs, ys)"
  by (simp add: take_exact_def)

lemma take_exact_SomeD: "take_exact n bs = Some (h, t) \<Longrightarrow> bs = h @ t \<and> length h = n"
  by (auto simp: take_exact_def split: if_splits)

lemma take_exact_None_iff [simp]: "take_exact n bs = None \<longleftrightarrow> length bs < n"
  by (simp add: take_exact_def)

lemma length_put [simp, wire_simps]:
  "length (put_u16 a) = 2" "length (put_u32 b) = 4" "length (put_u64 c) = 8"
  by (simp_all add: put_u16_def put_u32_def put_u64_def)

lemma of_nat_unat_mod:
  "256 ^ n = (2::nat) ^ LENGTH('a::len) \<Longrightarrow> (of_nat (unat (w :: 'a word) mod 256 ^ n) :: 'a word) = w"
  by (simp add: mod_less unsigned_less)

lemma get_put_u16 [simp, wire_simps]: "get_u16 (put_u16 w @ rest) = Some (w, rest)"
  using of_nat_unat_mod [of 2 w] by (simp add: get_u16_def put_u16_def be_get_put)

lemma get_put_u32 [simp, wire_simps]: "get_u32 (put_u32 w @ rest) = Some (w, rest)"
  using of_nat_unat_mod [of 4 w] by (simp add: get_u32_def put_u32_def be_get_put)

lemma get_put_u64 [simp, wire_simps]: "get_u64 (put_u64 w @ rest) = Some (w, rest)"
  using of_nat_unat_mod [of 8 w] by (simp add: get_u64_def put_u64_def be_get_put)

section \<open>Byte formats\<close>

text \<open>
  A codec writes a value as bytes and reads it back from the front of any byte string,
  returning what follows. \<open>valid\<close> says which values the writer can represent.
\<close>

locale codec =
  fixes enc :: "'a \<Rightarrow> bytes"
    and dec :: "bytes \<Rightarrow> ('a \<times> bytes) option"
    and valid :: "'a \<Rightarrow> bool"
  assumes dec_enc: "valid x \<Longrightarrow> dec (enc x @ rest) = Some (x, rest)"
begin

lemma enc_prefix_free:
  assumes "valid x" "valid y" "enc x @ r = enc y @ s"
  shows "x = y \<and> r = s"
proof -
  have "Some (x, r) = dec (enc x @ r)"
    by (simp only: dec_enc [OF assms(1)])
  also have "\<dots> = Some (y, s)"
    by (simp only: assms(3) dec_enc [OF assms(2)])
  finally show ?thesis by simp
qed

lemma enc_inj: "valid x \<Longrightarrow> valid y \<Longrightarrow> enc x = enc y \<Longrightarrow> x = y"
  by (rule enc_prefix_free [of x y "[]" "[]", THEN conjunct1]) simp_all

lemma enc_concat_inj:
  "\<forall>x \<in> set xs. valid x \<Longrightarrow> \<forall>y \<in> set ys. valid y \<Longrightarrow> length xs = length ys \<Longrightarrow>
   concat (map enc xs) = concat (map enc ys) \<Longrightarrow> xs = ys"
proof (induction xs arbitrary: ys)
  case Nil
  then show ?case by simp
next
  case (Cons x xs)
  then obtain y ys' where ys: "ys = y # ys'"
    by (cases ys) auto
  have xy: "x = y \<and> concat (map enc xs) = concat (map enc ys')"
    by (rule enc_prefix_free) (use Cons.prems ys in simp_all)
  have "xs = ys'"
    by (rule Cons.IH) (use Cons.prems ys xy in simp_all)
  with xy ys show ?case by simp
qed

end

text \<open>
  Where every encoding has the same width, a sequence of values is the concatenation of
  their encodings, and a loop over slices of that width reads it back. The loop of the
  Go code is \<^verbatim>\<open>for i := 0; i < len(b); i += width\<close> on a length that is a multiple of the
  width; \<open>chunks\<close> gives the slices.
\<close>

function chunks :: "nat \<Rightarrow> bytes \<Rightarrow> bytes list" where
  "chunks w bs = (if w = 0 \<or> length bs < w then [] else take w bs # chunks w (drop w bs))"
  by pat_completeness auto
termination
  by (relation "measure (\<lambda>(w, bs). length bs)") auto

declare chunks.simps [simp del]

lemma chunks_short [simp]: "length bs < w \<Longrightarrow> chunks w bs = []"
  by (simp add: chunks.simps)

lemma chunks_append [simp]: "0 < w \<Longrightarrow> length h = w \<Longrightarrow> chunks w (h @ t) = h # chunks w t"
  by (subst chunks.simps) simp

lemma length_chunks: "0 < w \<Longrightarrow> length (chunks w bs) = length bs div w"
proof (induction w bs rule: chunks.induct)
  case (1 w bs)
  show ?case
  proof (cases "length bs < w")
    case False
    with 1 have "length (chunks w (drop w bs)) = (length bs - w) div w"
      by simp
    with False 1 show ?thesis
      by (subst chunks.simps) (simp add: le_div_geq)
  qed simp
qed

lemma in_chunks_length: "c \<in> set (chunks w bs) \<Longrightarrow> length c = w"
proof (induction w bs rule: chunks.induct)
  case (1 w bs)
  then show ?case
    by (cases "w = 0 \<or> length bs < w") (auto simp: chunks.simps [of w bs])
qed

lemma concat_chunks: "0 < w \<Longrightarrow> length bs mod w = 0 \<Longrightarrow> concat (chunks w bs) = bs"
proof (induction w bs rule: chunks.induct)
  case (1 w bs)
  show ?case
  proof (cases "length bs < w")
    case True
    with 1 show ?thesis by simp
  next
    case False
    with 1 show ?thesis
      by (subst chunks.simps) (simp add: le_mod_geq)
  qed
qed

text \<open>The loop that decodes each slice and returns the first error.\<close>

fun map_result :: "('a \<Rightarrow> 'e + 'b) \<Rightarrow> 'a list \<Rightarrow> 'e + 'b list" where
  "map_result f [] = Inr []"
| "map_result f (x # xs) =
     (case f x of
        Inl e \<Rightarrow> Inl e
      | Inr y \<Rightarrow> (case map_result f xs of Inl e \<Rightarrow> Inl e | Inr ys \<Rightarrow> Inr (y # ys)))"

lemma map_result_all: "\<forall>x \<in> set xs. f (g x) = Inr x \<Longrightarrow> map_result f (map g xs) = Inr xs"
  by (induction xs) auto

lemma map_result_ex:
  "\<forall>x \<in> set xs. \<exists>y. f x = Inr y \<and> P x y \<Longrightarrow> \<exists>ys. map_result f xs = Inr ys \<and> list_all2 P xs ys"
  by (induction xs) auto

locale fixed_codec =
  fixes enc :: "'a \<Rightarrow> bytes"
    and dec :: "bytes \<Rightarrow> 'e + 'a"
    and valid :: "'a \<Rightarrow> bool"
    and width :: nat
  assumes width_pos: "0 < width"
    and length_enc: "valid x \<Longrightarrow> length (enc x) = width"
    and dec_enc: "valid x \<Longrightarrow> dec (enc x) = Inr x"
    and enc_dec: "length bs = width \<Longrightarrow> \<exists>x. dec bs = Inr x \<and> valid x \<and> enc x = bs"
begin

lemma length_enc_list: "\<forall>x \<in> set xs. valid x \<Longrightarrow> length (concat (map enc xs)) = width * length xs"
  by (induction xs) (auto simp: length_enc)

lemma chunks_enc_list: "\<forall>x \<in> set xs. valid x \<Longrightarrow> chunks width (concat (map enc xs)) = map enc xs"
proof (induction xs)
  case Nil
  then show ?case using width_pos by simp
next
  case (Cons x xs)
  then show ?case using width_pos by (simp add: length_enc)
qed

lemma dec_enc_list:
  assumes "\<forall>x \<in> set xs. valid x"
  shows "map_result dec (chunks width (concat (map enc xs))) = Inr xs"
  using assms by (simp add: chunks_enc_list map_result_all dec_enc)

lemma enc_dec_list:
  assumes "length bs mod width = 0"
  obtains xs where "map_result dec (chunks width bs) = Inr xs" "\<forall>x \<in> set xs. valid x"
    "concat (map enc xs) = bs" "length xs = length bs div width"
proof -
  have "\<forall>c \<in> set (chunks width bs). \<exists>x. dec c = Inr x \<and> (valid x \<and> enc x = c)"
    using enc_dec in_chunks_length by blast
  from map_result_ex [OF this] obtain xs where
    xs: "map_result dec (chunks width bs) = Inr xs"
    "list_all2 (\<lambda>c x. valid x \<and> enc x = c) (chunks width bs) xs" by blast
  then have "map enc xs = chunks width bs"
    by (auto simp: list_all2_conv_all_nth intro: nth_equalityI)
  then have "concat (map enc xs) = bs" using concat_chunks [OF width_pos assms] by simp
  moreover have "\<forall>x \<in> set xs. valid x" using xs(2) by (auto simp: list_all2_conv_all_nth in_set_conv_nth)
  moreover have "length xs = length bs div width"
    using list_all2_lengthD [OF xs(2)] length_chunks [OF width_pos] by simp
  ultimately show thesis using xs(1) by (intro that)
qed

end

section \<open>Go maps and stores that expire\<close>

text \<open>
  A Go map is an association list with distinct keys; the order of the list stands for one
  order in which the runtime may range over it, and statements hold for every order.
\<close>

type_synonym ('k, 'v) gomap = "('k \<times> 'v) list"

abbreviation wf_map :: "('k, 'v) gomap \<Rightarrow> bool" where
  "wf_map m \<equiv> distinct (map fst m)"

definition mput :: "('k, 'v) gomap \<Rightarrow> 'k \<Rightarrow> 'v \<Rightarrow> ('k, 'v) gomap" where
  "mput m k v = AList.update k v m"

definition mdel :: "('k, 'v) gomap \<Rightarrow> 'k \<Rightarrow> ('k, 'v) gomap" where
  "mdel m k = AList.delete k m"

definition mfilter :: "('v \<Rightarrow> bool) \<Rightarrow> ('k, 'v) gomap \<Rightarrow> ('k, 'v) gomap" where
  "mfilter P m = filter (\<lambda>(k, v). P v) m"

lemma map_of_mput [simp, go_map]: "map_of (mput m k v) k' = (if k' = k then Some v else map_of m k')"
  by (simp add: mput_def update_conv')

lemma map_of_mdel [simp, go_map]: "map_of (mdel m k) k' = (if k' = k then None else map_of m k')"
  by (simp add: mdel_def delete_conv')

lemma wf_mput [simp]: "wf_map m \<Longrightarrow> wf_map (mput m k v)"
  by (simp add: mput_def distinct_update)

lemma wf_mdel [simp]: "wf_map m \<Longrightarrow> wf_map (mdel m k)"
  by (simp add: mdel_def distinct_delete)

lemma wf_mfilter [simp]: "wf_map m \<Longrightarrow> wf_map (mfilter P m)"
  by (induction m) (auto simp: mfilter_def)

lemma map_of_mfilter [go_map]:
  "wf_map m \<Longrightarrow>
   map_of (mfilter P m) k = (case map_of m k of None \<Rightarrow> None | Some v \<Rightarrow> if P v then Some v else None)"
proof (induction m)
  case Nil
  then show ?case by (simp add: mfilter_def)
next
  case (Cons kv m)
  obtain k' v' where kv: "kv = (k', v')" by force
  have "k' \<notin> fst ` set m" using Cons.prems kv by simp
  then have "map_of m k' = None" by (simp add: map_of_eq_None_iff)
  with Cons kv show ?case
    by (auto simp: mfilter_def split: option.splits)
qed

lemma length_mput:
  "length (mput m k v) = (if map_of m k = None then Suc (length m) else length m)"
  by (induction m) (auto simp: mput_def)

lemma length_mdel_le: "length (mdel m k) \<le> length m"
  by (simp add: mdel_def AList.delete_eq)

lemma set_mput_subset: "snd ` set (mput m k v) \<subseteq> insert v (snd ` set m)"
  by (induction m) (auto simp: mput_def)

text \<open>
  The contract of the periodic clean-ups: after a sweep at \<open>now\<close> an entry is there exactly
  when it was there and had not expired.
\<close>

locale expiring =
  fixes sweep :: "time \<Rightarrow> 's \<Rightarrow> 's"
    and entry :: "'s \<Rightarrow> 'k \<Rightarrow> 'v option"
    and dead :: "time \<Rightarrow> 'v \<Rightarrow> bool"
    and invar :: "'s \<Rightarrow> bool"
  assumes entry_sweep: "invar s \<Longrightarrow>
      entry (sweep now s) k =
        (case entry s k of None \<Rightarrow> None | Some v \<Rightarrow> if dead now v then None else Some v)"
    and invar_sweep: "invar s \<Longrightarrow> invar (sweep now s)"
    and dead_mono: "now \<le> later \<Longrightarrow> dead now v \<Longrightarrow> dead later v"
begin

lemma sweep_keeps: "invar s \<Longrightarrow> entry s k = Some v \<Longrightarrow> \<not> dead now v \<Longrightarrow> entry (sweep now s) k = Some v"
  by (simp add: entry_sweep)

lemma sweep_removes: "invar s \<Longrightarrow> entry s k = Some v \<Longrightarrow> dead now v \<Longrightarrow> entry (sweep now s) k = None"
  by (simp add: entry_sweep)

lemma sweep_alive: "invar s \<Longrightarrow> entry (sweep now s) k = Some v \<Longrightarrow> entry s k = Some v \<and> \<not> dead now v"
  by (auto simp: entry_sweep split: option.splits if_splits)

lemma sweep_exact:
  "invar s \<Longrightarrow> entry (sweep now s) k = Some v \<longleftrightarrow> entry s k = Some v \<and> \<not> dead now v"
  using sweep_alive sweep_keeps by blast

lemma sweep_absorb:
  assumes "invar s" "now \<le> later"
  shows "entry (sweep later (sweep now s)) k = entry (sweep later s) k"
  using assms dead_mono by (auto simp: entry_sweep invar_sweep split: option.splits)

end

section \<open>State machines\<close>

inductive reach :: "('s \<Rightarrow> bool) \<Rightarrow> ('s \<Rightarrow> 's \<Rightarrow> bool) \<Rightarrow> 's \<Rightarrow> bool"
  for init step where
  reach_init: "init s \<Longrightarrow> reach init step s"
| reach_step: "reach init step s \<Longrightarrow> step s t \<Longrightarrow> reach init step t"

locale inductive_invariant =
  fixes init :: "'s \<Rightarrow> bool"
    and step :: "'s \<Rightarrow> 's \<Rightarrow> bool"
    and inv :: "'s \<Rightarrow> bool"
  assumes inv_init: "init s \<Longrightarrow> inv s"
    and inv_step: "inv s \<Longrightarrow> step s t \<Longrightarrow> inv t"
begin

lemma reach_inv: "reach init step s \<Longrightarrow> inv s"
  by (induction rule: reach.induct) (auto intro: inv_init inv_step)

end

end
