(* ===== verification/Infohash.thy ===== *)
theory Infohash
  imports Prelude
begin

text \<open>
  \<^verbatim>\<open>metainfo/infohash.go\<close>: the 20-byte hash that names torrents, nodes and peers, its
  textual forms and the XOR metric on it. A Go \<^verbatim>\<open>Hash\<close> is an array of 20 bytes; here it is a
  byte list, \<open>wf_hash\<close> being the length. Operations that panic or return an error are sums.
\<close>

unbundle bit_operations_syntax

type_synonym hash = bytes

definition HashSize :: nat where
  "HashSize = 20"

definition wf_hash :: "hash \<Rightarrow> bool" where
  "wf_hash h \<longleftrightarrow> length h = HashSize"

datatype hash_error =
    SliceOutOfRange        \<comment> \<open>the panic of \<^verbatim>\<open>b[:HashSize]\<close> on a shorter slice\<close>
  | TooFewBytes
  | BadHexLength nat
  | InvalidHexByte byte
  | BadBase32
  | BadHashLength nat

definition zeroHash :: hash where
  "zeroHash = replicate HashSize 0"

definition NewHash :: "bytes \<Rightarrow> hash_error + hash" where
  "NewHash b = (if length b < HashSize then Inl SliceOutOfRange else Inr (take HashSize b))"

definition Hash_IsZero :: "hash \<Rightarrow> bool" where
  "Hash_IsZero h \<longleftrightarrow> h = zeroHash"

definition Hash_UnmarshalBinary :: "bytes \<Rightarrow> hash_error + hash" where
  "Hash_UnmarshalBinary b = (if length b < HashSize then Inl TooFewBytes else Inr (take HashSize b))"

subsection \<open>Hexadecimal text (Go's encoding/hex)\<close>

definition hexdigit :: "nat \<Rightarrow> byte" where
  "hexdigit n = (if n < 10 then 48 + of_nat n else 87 + of_nat n)"

definition hex_encode :: "bytes \<Rightarrow> bytes" where
  "hex_encode bs = concat (map (\<lambda>b. [hexdigit (unat b div 16), hexdigit (unat b mod 16)]) bs)"

definition fromHexChar :: "byte \<Rightarrow> nat option" where
  "fromHexChar c =
     (if 48 \<le> c \<and> c \<le> 57 then Some (unat c - 48)
      else if 97 \<le> c \<and> c \<le> 102 then Some (unat c - 97 + 10)
      else if 65 \<le> c \<and> c \<le> 70 then Some (unat c - 65 + 10)
      else None)"

text \<open>
  \<^verbatim>\<open>hex.Decode\<close> reads pairs of digits; \<^verbatim>\<open>FromHexString\<close> calls it on an even number of
  characters only, so the odd-length error of the library does not occur.
\<close>

fun hex_decode :: "bytes \<Rightarrow> hash_error + bytes" where
  "hex_decode (p # q # rest) =
     (case fromHexChar p of
        None \<Rightarrow> Inl (InvalidHexByte p)
      | Some a \<Rightarrow>
          (case fromHexChar q of
             None \<Rightarrow> Inl (InvalidHexByte q)
           | Some b \<Rightarrow>
               (case hex_decode rest of
                  Inl e \<Rightarrow> Inl e
                | Inr bs \<Rightarrow> Inr (of_nat (a * 16 + b) # bs))))"
| "hex_decode _ = Inr []"

definition Hash_HexString :: "hash \<Rightarrow> bytes" where
  "Hash_HexString h = hex_encode h"

definition Hash_FromHexString :: "bytes \<Rightarrow> hash_error + hash" where
  "Hash_FromHexString s =
     (if length s \<noteq> 2 * HashSize then Inl (BadHexLength (length s)) else hex_decode s)"

subsection \<open>Base32 text (Go's encoding/base32, standard alphabet)\<close>

definition base32_digit :: "byte \<Rightarrow> nat option" where
  "base32_digit c =
     (if 65 \<le> c \<and> c \<le> 90 then Some (unat c - 65)
      else if 50 \<le> c \<and> c \<le> 55 then Some (unat c - 50 + 26)
      else None)"

text \<open>
  Decoding of a 32-character string. A string with a character outside the alphabet
  (padding and line breaks included) is rejected by the library or decodes to fewer than
  20 bytes, which \<^verbatim>\<open>FromString\<close> rejects in turn: both are the error \<open>BadBase32\<close>. Eight
  characters give five bytes.
\<close>

definition base32_group :: "nat list \<Rightarrow> bytes" where
  "base32_group ds = be_put 5 (foldl (\<lambda>acc d. acc * 32 + d) 0 ds)"

fun base32_groups :: "nat list \<Rightarrow> bytes" where
  "base32_groups (a # b # c # d # e # f # g # h # rest) =
     base32_group [a, b, c, d, e, f, g, h] @ base32_groups rest"
| "base32_groups _ = []"

definition base32_decode :: "bytes \<Rightarrow> hash_error + bytes" where
  "base32_decode s =
     (if list_all (\<lambda>c. base32_digit c \<noteq> None) s
      then Inr (base32_groups (map (\<lambda>c. the (base32_digit c)) s))
      else Inl BadBase32)"

definition Hash_FromString :: "bytes \<Rightarrow> hash_error + hash" where
  "Hash_FromString s =
     (if length s = HashSize then Inr s
      else if length s = 2 * HashSize then Hash_FromHexString s
      else if length s = 32 then base32_decode s
      else Inl (BadHashLength (length s)))"

subsection \<open>The XOR metric and sets of hashes\<close>

definition Hash_Xor :: "hash \<Rightarrow> hash \<Rightarrow> hash" where
  "Hash_Xor h o' = map2 (\<lambda>a b. a XOR b) h o'"

fun Hash_Compare :: "hash \<Rightarrow> hash \<Rightarrow> int" where
  "Hash_Compare [] [] = 0"
| "Hash_Compare [] (b # bs) = -1"
| "Hash_Compare (a # as) [] = 1"
| "Hash_Compare (a # as) (b # bs) = (if a < b then -1 else if a > b then 1 else Hash_Compare as bs)"

definition Hashes_Contains :: "hash list \<Rightarrow> hash \<Rightarrow> bool" where
  "Hashes_Contains hs h \<longleftrightarrow> list_ex (\<lambda>h'. h = h') hs"

subsection \<open>Lemmas\<close>

lemma wf_zeroHash [simp]: "wf_hash zeroHash"
  by (simp add: wf_hash_def zeroHash_def)

lemma Hashes_Contains_iff [simp]: "Hashes_Contains hs h \<longleftrightarrow> h \<in> set hs"
  by (auto simp: Hashes_Contains_def list_ex_iff)

lemma fromHexChar_hexdigit: "n < 16 \<Longrightarrow> fromHexChar (hexdigit n) = Some n"
proof -
  assume "n < 16"
  then have "n \<in> {0, 1, 2, 3, 4, 5, 6, 7, 8, 9, 10, 11, 12, 13, 14, 15}"
    by (simp, presburger)
  then show ?thesis
    by (elim insertE) (simp_all add: hexdigit_def fromHexChar_def)
qed

lemma hex_decode_encode: "hex_decode (hex_encode bs) = Inr bs"
proof (induction bs)
  case Nil
  then show ?case by (simp add: hex_encode_def)
next
  case (Cons b bs)
  have "unat b < 256"
    using unsigned_less [of b] by simp
  then have "unat b div 16 < 16" "unat b mod 16 < 16"
    by (simp_all add: less_mult_imp_div_less)
  then have "fromHexChar (hexdigit (unat b div 16)) = Some (unat b div 16)"
    and "fromHexChar (hexdigit (unat b mod 16)) = Some (unat b mod 16)"
    by (simp_all add: fromHexChar_hexdigit)
  moreover have "unat b div 16 * 16 + unat b mod 16 = unat b"
    by simp
  ultimately show ?case
    using Cons by (simp add: hex_encode_def del: of_nat_add of_nat_mult)
qed

lemma length_hex_encode [simp]: "length (hex_encode bs) = 2 * length bs"
  by (induction bs) (simp_all add: hex_encode_def)

lemma length_hex_decode: "hex_decode s = Inr bs \<Longrightarrow> length bs = length s div 2"
  by (induction s arbitrary: bs rule: hex_decode.induct) (auto split: option.splits sum.splits)

lemma length_base32_groups: "length (base32_groups ds) = 5 * (length ds div 8)"
proof (induction ds rule: base32_groups.induct)
  case (1 a b c d e f g h rest)
  have "(8 + length rest) div 8 = Suc (length rest div 8)"
    by simp
  with 1 show ?case by (simp add: base32_group_def)
qed simp_all

lemma length_base32_decode: "base32_decode s = Inr bs \<Longrightarrow> length bs = 5 * (length s div 8)"
  by (auto simp: base32_decode_def length_base32_groups split: if_splits)

lemma Hash_Xor_nth: "i < length a \<Longrightarrow> length a = length b \<Longrightarrow> Hash_Xor a b ! i = a ! i XOR b ! i"
  by (simp add: Hash_Xor_def)

lemma length_Hash_Xor [simp]: "length a = length b \<Longrightarrow> length (Hash_Xor a b) = length b"
  by (simp add: Hash_Xor_def)

lemma Hash_Compare_swap: "length a = length b \<Longrightarrow> Hash_Compare a b = - Hash_Compare b a"
  by (induction a b rule: Hash_Compare.induct) auto

lemma Hash_Compare_eq_0: "Hash_Compare a b = 0 \<longleftrightarrow> a = b"
  by (induction a b rule: Hash_Compare.induct) auto

subsection \<open>Properties\<close>

text \<open>The hexadecimal text of a 20-byte hash parses back to the same hash, both with
  \<^verbatim>\<open>FromHexString\<close> and with \<^verbatim>\<open>FromString\<close>, which recognises it by its length.\<close>

theorem hash_text_roundtrip:
  assumes "wf_hash h"
  shows "Hash_FromHexString (Hash_HexString h) = Inr h \<and> Hash_FromString (Hash_HexString h) = Inr h"
proof -
  have "length (Hash_HexString h) = 2 * HashSize"
    using assms by (simp add: Hash_HexString_def wf_hash_def)
  moreover have "hex_decode (Hash_HexString h) = Inr h"
    by (simp add: Hash_HexString_def hex_decode_encode)
  ultimately show ?thesis
    by (simp add: Hash_FromHexString_def Hash_FromString_def HashSize_def)
qed

theorem hash_text_roundtrip_witness:
  "wf_hash (map of_nat [0..<20]) \<and>
   Hash_FromString (Hash_HexString (map of_nat [0..<20])) = Inr (map of_nat [0..<20])"
proof -
  have h: "wf_hash (map of_nat [0..<20])"
    by (simp add: wf_hash_def HashSize_def)
  show ?thesis using h hash_text_roundtrip [OF h] by simp
qed

end
