(* ===== verification/Bencode.thy ===== *)
theory Bencode
  imports Infohash "HOL-Library.List_Lexorder"
begin

text \<open>
  The package \<^verbatim>\<open>bencode\<close>: the encoder (\<^verbatim>\<open>encode.go\<close>, \<^verbatim>\<open>tag.go\<close>) over a datatype of reflected
  Go values, and the decoder (\<^verbatim>\<open>decode.go\<close>) into an \<^verbatim>\<open>interface{}\<close>, into the scalar kinds and
  into a \<^verbatim>\<open>RawMessage\<close>. Streams are byte lists; every reading operation returns what is
  left. Recursion over the input takes fuel, which \<open>Decode\<close> chooses from the length of the
  input; \<open>decodeInto_fuel\<close> shows that this is always enough.
\<close>

section \<open>Numbers as text (fmt and strconv)\<close>

fun dec_nat :: "nat \<Rightarrow> bytes" where
  "dec_nat n = (if n < 10 then [48 + of_nat n] else dec_nat (n div 10) @ [48 + of_nat (n mod 10)])"

declare dec_nat.simps [simp del]

definition dec_int :: "int \<Rightarrow> bytes" where
  "dec_int i = (if i < 0 then 45 # dec_nat (nat (- i)) else dec_nat (nat i))"

datatype bencode_error =
    EOF
  | UnexpectedEOF
  | ErrSyntax
  | ErrRange
  | NegativeLength int
  | InvalidInput
  | Unordered bytes bytes
  | CannotStore
  | CantEncode
  | MarshalError string
  | OutOfFuel

text \<open>
  \<^verbatim>\<open>strconv.ParseUint(s, 10, bits)\<close> and \<^verbatim>\<open>strconv.ParseInt(s, 10, bits)\<close>: an empty string or a
  foreign character is a syntax error, a value that does not fit is a range error, and the
  first of them in reading order is reported. \<^verbatim>\<open>ParseInt\<close> takes a leading sign.
\<close>

fun parse_digits :: "nat \<Rightarrow> nat \<Rightarrow> bytes \<Rightarrow> bencode_error + nat" where
  "parse_digits bits n [] = Inr n"
| "parse_digits bits n (c # cs) =
     (if c < 48 \<or> 57 < c then Inl ErrSyntax
      else if 2 ^ bits \<le> n * 10 + (unat c - 48) then Inl ErrRange
      else parse_digits bits (n * 10 + (unat c - 48)) cs)"

definition ParseUint :: "nat \<Rightarrow> bytes \<Rightarrow> bencode_error + nat" where
  "ParseUint bits s = (if s = [] then Inl ErrSyntax else parse_digits bits 0 s)"

definition ParseInt :: "nat \<Rightarrow> bytes \<Rightarrow> bencode_error + int" where
  "ParseInt bits s =
     (case s of
        [] \<Rightarrow> Inl ErrSyntax
      | c # cs \<Rightarrow>
          (case ParseUint bits (if c = 43 \<or> c = 45 then cs else s) of
             Inl e \<Rightarrow> Inl e
           | Inr un \<Rightarrow>
               if c \<noteq> 45 \<and> 2 ^ (bits - 1) \<le> un then Inl ErrRange
               else if c = 45 \<and> 2 ^ (bits - 1) < un then Inl ErrRange
               else Inr (if c = 45 then - int un else int un)))"

section \<open>Encoding\<close>

text \<open>
  What the encoder sees of a Go value through \<^verbatim>\<open>reflect\<close>. \<open>GSlice\<close> stands for slices and arrays
  other than \<^verbatim>\<open>[]byte\<close>; \<open>GMap\<close> for maps with string keys; a nil pointer or interface is
  \<open>GPtr None\<close>, \<open>GIface None\<close>. A value with a \<^verbatim>\<open>MarshalBencode\<close> or \<^verbatim>\<open>MarshalText\<close> method carries
  the method's result, and a flag for what \<^verbatim>\<open>isEmptyValue\<close> answers on its kind; the flag of
  \<open>GStruct\<close> is what \<^verbatim>\<open>reflect.Value.IsZero\<close> answers. \<open>GOther\<close> is a value of a kind that has no
  encoding (a float, a channel, a function), with the same flag.
\<close>

datatype gval =
    GInt int
  | GUint nat
  | GBool bool
  | GString bytes
  | GBytes bytes
  | GRaw bytes
  | GSlice "gval list"
  | GMap "(bytes \<times> gval) list"
  | GStruct bool "gfield list"
  | GPtr "gval option"
  | GIface "gval option"
  | GMarshaler bool "bencode_error + bytes"
  | GTextMarshaler bool "bencode_error + bytes"
  | GOther bool
and gfield = GField (fname: bytes) (ftag: bytes) (fexported: bool) (fanonymous: bool) (fvalue: gval)

definition isNilValue :: "gval \<Rightarrow> bool" where
  "isNilValue v \<longleftrightarrow> v = GPtr None \<or> v = GIface None"

subsection \<open>Struct tags\<close>

text \<open>Splitting at the first comma, \<^verbatim>\<open>strings.Index(tag, ",")\<close>.\<close>

fun split_comma :: "bytes \<Rightarrow> (bytes \<times> bytes) option" where
  "split_comma [] = None"
| "split_comma (c # cs) =
     (if c = 44 then Some ([], cs)
      else case split_comma cs of None \<Rightarrow> None | Some (a, b) \<Rightarrow> Some (c # a, b))"

lemma split_comma_length: "split_comma s = Some (a, b) \<Longrightarrow> length b < length s"
  by (induction s arbitrary: a) (auto split: if_splits option.splits)

definition parseTag :: "bytes \<Rightarrow> bytes \<times> bytes" where
  "parseTag tag = (case split_comma tag of Some (a, b) \<Rightarrow> (a, b) | None \<Rightarrow> (tag, []))"

function tagOptions_Contains :: "bytes \<Rightarrow> bytes \<Rightarrow> bool" where
  "tagOptions_Contains s optionName =
     (if s = [] then False
      else case split_comma s of
             Some (a, rest) \<Rightarrow> a = optionName \<or> tagOptions_Contains rest optionName
           | None \<Rightarrow> s = optionName)"
  by pat_completeness auto
termination
  by (relation "measure (\<lambda>(s, _). length s)") (auto dest: split_comma_length)

declare tagOptions_Contains.simps [simp del]

text \<open>
  The characters allowed in a name: space, \<^verbatim>\<open>$ - _ .\<close>, letters and digits. The tags of the
  repository are ASCII; a byte outside ASCII counts as neither letter nor digit here.
\<close>

definition isValidTag :: "bytes \<Rightarrow> bool" where
  "isValidTag key \<longleftrightarrow> key \<noteq> [] \<and>
     list_all (\<lambda>c. c = 32 \<or> c = 36 \<or> c = 45 \<or> c = 95 \<or> c = 46 \<or>
       (65 \<le> c \<and> c \<le> 90) \<or> (97 \<le> c \<and> c \<le> 122) \<or> (48 \<le> c \<and> c \<le> 57)) key"

definition isEmptyValue :: "gval \<Rightarrow> bool" where
  "isEmptyValue v =
     (case v of
        GInt i \<Rightarrow> i = 0
      | GUint n \<Rightarrow> n = 0
      | GBool b \<Rightarrow> \<not> b
      | GString s \<Rightarrow> s = []
      | GBytes s \<Rightarrow> s = []
      | GRaw s \<Rightarrow> s = []
      | GSlice vs \<Rightarrow> vs = []
      | GMap kvs \<Rightarrow> kvs = []
      | GStruct z fs \<Rightarrow> z
      | GPtr p \<Rightarrow> p = None
      | GIface p \<Rightarrow> p = None
      | GMarshaler e r \<Rightarrow> e
      | GTextMarshaler e r \<Rightarrow> e
      | GOther e \<Rightarrow> e)"

definition shouldProcessField :: "gfield \<Rightarrow> bool" where
  "shouldProcessField f \<longleftrightarrow> fexported f \<and> \<not> isNilValue (fvalue f)"

text \<open>\<open>None\<close>: the field is skipped; \<open>Some k\<close>: it is written under the key \<open>k\<close>.\<close>

definition processFieldTag :: "gfield \<Rightarrow> bytes option" where
  "processFieldTag f =
     (if ftag f = [] then Some (fname f)
      else if ftag f = ascii ''-'' then None
      else let (name, options) = parseTag (ftag f)
           in if tagOptions_Contains options (ascii ''omitempty'') \<and> isEmptyValue (fvalue f)
              then None
              else Some (if isValidTag name then name else fname f))"

definition shouldEmbedAnonymousStruct :: "gfield \<Rightarrow> bool" where
  "shouldEmbedAnonymousStruct f \<longleftrightarrow>
     fanonymous f \<and> (case fvalue f of GStruct _ _ \<Rightarrow> True | _ \<Rightarrow> False) \<and> ftag f = []"

lemma size_fvalue [termination_simp]:
  "fvalue f = GStruct z gs \<Longrightarrow> size_list size gs < Suc (size f + n)"
  by (cases f) simp

fun readStruct :: "gfield list \<Rightarrow> (bytes \<times> gval) list" where
  "readStruct [] = []"
| "readStruct (f # fs) =
     (if \<not> shouldProcessField f then []
      else case processFieldTag f of
             None \<Rightarrow> []
           | Some rkey \<Rightarrow>
               if shouldEmbedAnonymousStruct f
               then (case fvalue f of GStruct _ gs \<Rightarrow> readStruct gs | _ \<Rightarrow> [])
               else [(rkey, fvalue f)])
     @ readStruct fs"

lemma in_readStruct_Cons:
  "(k, v) \<in> set (readStruct (f # fs)) \<Longrightarrow>
     v = fvalue f \<or> (\<exists>z gs. fvalue f = GStruct z gs \<and> shouldProcessField f \<and>
        processFieldTag f \<noteq> None \<and> shouldEmbedAnonymousStruct f \<and> (k, v) \<in> set (readStruct gs)) \<or>
     (k, v) \<in> set (readStruct fs)"
  by (cases "processFieldTag f"; cases "fvalue f") (auto split: if_splits)

lemma readStruct_size:
  "(k, v) \<in> set (readStruct fs) \<Longrightarrow> size v < Suc (size_list size fs)"
proof (induction fs rule: readStruct.induct)
  case (2 f fs)
  have f: "size (fvalue f) < size f" by (cases f) simp
  from in_readStruct_Cons [OF 2(3)] show ?case
  proof (elim disjE exE conjE)
    fix z gs
    assume *: "fvalue f = GStruct z gs" "shouldProcessField f" "processFieldTag f \<noteq> None"
      "shouldEmbedAnonymousStruct f" "(k, v) \<in> set (readStruct gs)"
    then have "size v < Suc (size_list size gs)" using 2(1) by (metis option.exhaust)
    then show ?thesis using f *(1) by simp
  qed (use f 2(2) in auto)
qed simp

subsection \<open>Values\<close>

definition encodeIntegerType :: "int \<Rightarrow> bytes" where
  "encodeIntegerType i = 105 # dec_int i @ [101]"

definition encodeStringType :: "bytes \<Rightarrow> bytes" where
  "encodeStringType s = dec_nat (length s) @ 58 # s"

text \<open>
  \<^verbatim>\<open>indirectEncodeValue\<close>: pointers and interfaces are followed until a marshaler or a value
  that is neither; a nil on the way gives the invalid value, \<open>None\<close>, which encodes as nothing. The loop
  of the code leaves an interface that holds a pointer to a pointer to a marshaler to \<^verbatim>\<open>indirect\<close>, which does
  not look for marshalers: no type of the library has such a value.
\<close>

fun indirectEncodeValue :: "gval \<Rightarrow> gval option" where
  "indirectEncodeValue (GPtr None) = None"
| "indirectEncodeValue (GIface None) = None"
| "indirectEncodeValue (GPtr (Some v)) = indirectEncodeValue v"
| "indirectEncodeValue (GIface (Some v)) = indirectEncodeValue v"
| "indirectEncodeValue v = Some v"

text \<open>
  \<^verbatim>\<open>encodeSliceType\<close> asks whether the value before indirection is a \<^verbatim>\<open>[]byte\<close>; behind a pointer
  it is not, and then it is written as a list of integers.
\<close>

definition is_byte_slice :: "gval \<Rightarrow> bool" where
  "is_byte_slice val =
     (case val of GBytes _ \<Rightarrow> True | GIface (Some (GBytes _)) \<Rightarrow> True | _ \<Rightarrow> False)"

lemma indirect_size: "indirectEncodeValue val = Some v \<Longrightarrow> size v \<le> size val"
  by (induction val rule: indirectEncodeValue.induct) auto

lemma indirect_simple:
  "indirectEncodeValue val = Some v \<Longrightarrow> v \<noteq> GPtr p \<and> v \<noteq> GIface p"
  by (induction val rule: indirectEncodeValue.induct) auto

text \<open>Concatenation of what the elements encode to, up to the first error.\<close>

fun cat_results :: "(bencode_error + bytes) list \<Rightarrow> bencode_error + bytes" where
  "cat_results [] = Inr []"
| "cat_results (r # rs) =
     (case r of Inl e \<Rightarrow> Inl e
      | Inr b \<Rightarrow> (case cat_results rs of Inl e \<Rightarrow> Inl e | Inr bs \<Rightarrow> Inr (b @ bs)))"

definition wrap :: "byte \<Rightarrow> bencode_error + bytes \<Rightarrow> bencode_error + bytes" where
  "wrap c r = (case r of Inl e \<Rightarrow> Inl e | Inr b \<Rightarrow> Inr (c # b @ [101]))"

definition keyed :: "bytes \<Rightarrow> bencode_error + bytes \<Rightarrow> bencode_error + bytes" where
  "keyed k r = (case r of Inl e \<Rightarrow> Inl e | Inr b \<Rightarrow> Inr (encodeStringType k @ b))"

lemma wrap_cong [fundef_cong]: "c = c' \<Longrightarrow> r = r' \<Longrightarrow> wrap c r = wrap c' r'"
  by simp

text \<open>The entries of a dictionary are sorted by key. \<^verbatim>\<open>sort.Sort\<close> is not stable, which only matters for two fields
  of a struct with the same key; such fields keep their order here.\<close>

function encodeValue :: "gval \<Rightarrow> bencode_error + bytes" where
  "encodeValue val =
     (case indirectEncodeValue val of
        None \<Rightarrow> Inr []
      | Some v \<Rightarrow>
          (case v of
             GMarshaler _ r \<Rightarrow> r
           | GTextMarshaler _ r \<Rightarrow> (case r of Inl e \<Rightarrow> Inl e | Inr b \<Rightarrow> Inr (encodeStringType b))
           | GRaw b \<Rightarrow> Inr b
           | GBool b \<Rightarrow> Inr (encodeIntegerType (if b then 1 else 0))
           | GInt i \<Rightarrow> Inr (encodeIntegerType i)
           | GUint n \<Rightarrow> Inr (encodeIntegerType (int n))
           | GString s \<Rightarrow> Inr (encodeStringType s)
           | GBytes s \<Rightarrow>
               if is_byte_slice val then Inr (encodeStringType s)
               else Inr (108 # concat (map (\<lambda>b. encodeIntegerType (uint b)) s) @ [101])
           | GSlice vs \<Rightarrow> wrap 108 (cat_results (map encodeValue vs))
           | GMap kvs \<Rightarrow>
               wrap 100 (cat_results (map (\<lambda>(k, v). keyed k (encodeValue v))
                 (filter (\<lambda>(k, v). \<not> isNilValue v) (sort_key fst kvs))))
           | GStruct _ fs \<Rightarrow>
               wrap 100 (cat_results (map (\<lambda>(k, v). keyed k (encodeValue v))
                 (sort_key fst (readStruct fs))))
           | _ \<Rightarrow> Inl CantEncode))"
  by pat_completeness auto
termination
proof (relation "measure size", goal_cases)
  case 1 then show ?case by simp
next
  case (2 val v vs z)
  then show ?case using indirect_size [of val v] by (auto dest: size_list_estimation' [of _ _ _ size])
next
  case (3 val v kvs z k w)
  then have "(k, w) \<in> set kvs" by auto
  then have "size w \<le> size_list (size_prod (\<lambda>x. 0) size) kvs"
    by (rule size_list_estimation') simp
  then show ?case using 3 indirect_size [of val v] by auto
next
  case (4 val v z fs y k w)
  then have "(k, w) \<in> set (readStruct fs)" by auto
  from readStruct_size [OF this] show ?case using 4 indirect_size [of val v] by auto
qed

declare encodeValue.simps [simp del]

section \<open>Decoding\<close>

text \<open>What decoding into an \<^verbatim>\<open>interface{}\<close> produces: int64, string, \<^verbatim>\<open>[]interface{}\<close> or a map.\<close>

datatype bval =
    BInt int
  | BStr bytes
  | BList "bval list"
  | BDict "(bytes, bval) gomap"

text \<open>\<^verbatim>\<open>bufio.Reader.ReadBytes\<close> up to and without the delimiter; \<open>None\<close> is the end of the input.\<close>

fun readBytes :: "byte \<Rightarrow> bytes \<Rightarrow> (bytes \<times> bytes) option" where
  "readBytes delim [] = None"
| "readBytes delim (c # cs) =
     (if c = delim then Some ([], cs)
      else case readBytes delim cs of None \<Rightarrow> None | Some (a, b) \<Rightarrow> Some (c # a, b))"

text \<open>\<^verbatim>\<open>io.ReadFull\<close>: nothing at all is EOF, too little is an unexpected EOF.\<close>

definition readFull :: "nat \<Rightarrow> bytes \<Rightarrow> bencode_error + bytes \<times> bytes" where
  "readFull n bs =
     (if n \<le> length bs then Inr (take n bs, drop n bs)
      else if bs = [] then Inl EOF else Inl UnexpectedEOF)"

definition readIntegerDigits :: "bytes \<Rightarrow> bencode_error + bytes \<times> bytes" where
  "readIntegerDigits bs = (case readBytes 101 bs of None \<Rightarrow> Inl EOF | Some p \<Rightarrow> Inr p)"

text \<open>
  The scalar targets: a signed or unsigned integer of a width, a bool, or an interface.
  Storing into a narrow integer keeps the low bits, as \<^verbatim>\<open>reflect.Value.SetInt\<close> does.
\<close>

datatype int_target = ToInterface | ToInt nat | ToUint nat | ToBool | ToOther

definition wrap_signed :: "nat \<Rightarrow> int \<Rightarrow> int" where
  "wrap_signed w i = (i + 2 ^ (w - 1)) mod 2 ^ w - 2 ^ (w - 1)"

definition assignIntegerValue :: "int_target \<Rightarrow> bytes \<Rightarrow> bencode_error + gval" where
  "assignIntegerValue t digits =
     (case t of
        ToInterface \<Rightarrow> (case ParseInt 64 digits of Inl e \<Rightarrow> Inl e | Inr n \<Rightarrow> Inr (GInt n))
      | ToInt w \<Rightarrow> (case ParseInt 64 digits of Inl e \<Rightarrow> Inl e | Inr n \<Rightarrow> Inr (GInt (wrap_signed w n)))
      | ToUint w \<Rightarrow> (case ParseUint 64 digits of Inl e \<Rightarrow> Inl e | Inr n \<Rightarrow> Inr (GUint (n mod 2 ^ w)))
      | ToBool \<Rightarrow> (case ParseUint 64 digits of Inl e \<Rightarrow> Inl e | Inr n \<Rightarrow> Inr (GBool (n \<noteq> 0)))
      | ToOther \<Rightarrow> Inl CannotStore)"

definition decodeInt :: "int_target \<Rightarrow> bytes \<Rightarrow> bencode_error + gval \<times> bytes" where
  "decodeInt t bs =
     (case readIntegerDigits bs of Inl e \<Rightarrow> Inl e
      | Inr (digits, rest) \<Rightarrow>
          (case assignIntegerValue t digits of Inl e \<Rightarrow> Inl e | Inr v \<Rightarrow> Inr (v, rest)))"

text \<open>The bytes of a string: a decimal length of at most 32 bits, a colon, that many bytes.\<close>

definition decodeString :: "bytes \<Rightarrow> bencode_error + bytes \<times> bytes" where
  "decodeString bs =
     (case readBytes 58 bs of
        None \<Rightarrow> Inl EOF
      | Some (line, rest) \<Rightarrow>
          (case ParseInt 32 line of
             Inl e \<Rightarrow> Inl e
           | Inr l \<Rightarrow> if l < 0 then Inl (NegativeLength l) else readFull (nat l) rest))"

definition validateKeyOrder :: "bool \<Rightarrow> bytes option \<Rightarrow> bytes \<Rightarrow> bool" where
  "validateKeyOrder failUnordered lastKey key \<longleftrightarrow>
     \<not> (failUnordered \<and> (case lastKey of None \<Rightarrow> False | Some l \<Rightarrow> key < l))"

fun decodeInto :: "nat \<Rightarrow> bool \<Rightarrow> bytes \<Rightarrow> bencode_error + bval \<times> bytes"
  and processListElements :: "nat \<Rightarrow> bool \<Rightarrow> bytes \<Rightarrow> bencode_error + bval list \<times> bytes"
  and processDictKeyValuePairs ::
    "nat \<Rightarrow> bool \<Rightarrow> bytes option \<Rightarrow> (bytes, bval) gomap \<Rightarrow> bytes \<Rightarrow>
     bencode_error + (bytes, bval) gomap \<times> bytes"
where
  "decodeInto 0 fu bs = Inl OutOfFuel"
| "decodeInto (Suc f) fu bs =
     (case bs of
        [] \<Rightarrow> Inl EOF
      | c # r \<Rightarrow>
          if c = 105 then
            (case decodeInt ToInterface r of
               Inr (GInt i, r') \<Rightarrow> Inr (BInt i, r')
             | Inr _ \<Rightarrow> Inl CannotStore
             | Inl e \<Rightarrow> Inl e)
          else if 48 \<le> c \<and> c \<le> 57 then
            (case decodeString bs of Inl e \<Rightarrow> Inl e | Inr (s, r') \<Rightarrow> Inr (BStr s, r'))
          else if c = 108 then
            (case processListElements f fu r of Inl e \<Rightarrow> Inl e | Inr (vs, r') \<Rightarrow> Inr (BList vs, r'))
          else if c = 100 then
            (case processDictKeyValuePairs f fu None [] r of
               Inl e \<Rightarrow> Inl e | Inr (m, r') \<Rightarrow> Inr (BDict m, r'))
          else Inl InvalidInput)"
| "processListElements 0 fu bs = Inl OutOfFuel"
| "processListElements (Suc f) fu bs =
     (case bs of
        [] \<Rightarrow> Inl EOF
      | c # r \<Rightarrow>
          if c = 101 then Inr ([], r)
          else (case decodeInto f fu bs of
                  Inl e \<Rightarrow> Inl e
                | Inr (v, r1) \<Rightarrow>
                    (case processListElements f fu r1 of
                       Inl e \<Rightarrow> Inl e | Inr (vs, r2) \<Rightarrow> Inr (v # vs, r2))))"
| "processDictKeyValuePairs 0 fu lastKey m bs = Inl OutOfFuel"
| "processDictKeyValuePairs (Suc f) fu lastKey m bs =
     (case bs of
        [] \<Rightarrow> Inl EOF
      | c # r \<Rightarrow>
          if c = 101 then Inr (m, r)
          else (case decodeString bs of
                  Inl e \<Rightarrow> Inl e
                | Inr (key, r1) \<Rightarrow>
                    if \<not> validateKeyOrder fu lastKey key then Inl (Unordered (the lastKey) key)
                    else (case decodeInto f fu r1 of
                            Inl e \<Rightarrow> Inl e
                          | Inr (v, r2) \<Rightarrow>
                              processDictKeyValuePairs f fu (Some key) (mput m key v) r2)))"

definition fuel_for :: "bytes \<Rightarrow> nat" where
  "fuel_for bs = 2 * length bs + 2"

definition Decode :: "bool \<Rightarrow> bytes \<Rightarrow> bencode_error + bval \<times> bytes" where
  "Decode failUnordered bs = decodeInto (fuel_for bs) failUnordered bs"

text \<open>
  Raw mode, which \<^verbatim>\<open>decodeInto\<close> enters for a \<^verbatim>\<open>RawMessage\<close> and for every type with an
  \<^verbatim>\<open>UnmarshalBencode\<close> method: values are walked over without being stored, every byte read is
  appended to the buffer (the first component of the result), integers are not parsed and
  keys are not ordered.
\<close>

definition raw_string :: "bytes \<Rightarrow> bencode_error + bytes \<times> bytes" where
  "raw_string bs =
     (case readBytes 58 bs of
        None \<Rightarrow> Inl EOF
      | Some (line, rest) \<Rightarrow>
          (case ParseInt 32 line of
             Inl e \<Rightarrow> Inl e
           | Inr l \<Rightarrow>
               if l < 0 then Inl (NegativeLength l)
               else (case readFull (nat l) rest of
                       Inl e \<Rightarrow> Inl e | Inr (s, r) \<Rightarrow> Inr (line @ 58 # s, r))))"

fun raw_into :: "nat \<Rightarrow> bytes \<Rightarrow> bencode_error + bytes \<times> bytes"
  and processListInRawMode :: "nat \<Rightarrow> bytes \<Rightarrow> bencode_error + bytes \<times> bytes"
  and processDictInRawMode :: "nat \<Rightarrow> bytes \<Rightarrow> bencode_error + bytes \<times> bytes"
where
  "raw_into 0 bs = Inl OutOfFuel"
| "raw_into (Suc f) bs =
     (case bs of
        [] \<Rightarrow> Inl EOF
      | c # r \<Rightarrow>
          if c = 105 then
            (case readBytes 101 r of None \<Rightarrow> Inl EOF | Some (a, r') \<Rightarrow> Inr (c # a @ [101], r'))
          else if 48 \<le> c \<and> c \<le> 57 then raw_string bs
          else if c = 108 then
            (case processListInRawMode f r of Inl e \<Rightarrow> Inl e | Inr (b, r') \<Rightarrow> Inr (c # b, r'))
          else if c = 100 then
            (case processDictInRawMode f r of Inl e \<Rightarrow> Inl e | Inr (b, r') \<Rightarrow> Inr (c # b, r'))
          else Inl InvalidInput)"
| "processListInRawMode 0 bs = Inl OutOfFuel"
| "processListInRawMode (Suc f) bs =
     (case bs of
        [] \<Rightarrow> Inl EOF
      | c # r \<Rightarrow>
          if c = 101 then Inr ([c], r)
          else (case raw_into f bs of
                  Inl e \<Rightarrow> Inl e
                | Inr (b, r1) \<Rightarrow>
                    (case processListInRawMode f r1 of
                       Inl e \<Rightarrow> Inl e | Inr (b', r2) \<Rightarrow> Inr (b @ b', r2))))"
| "processDictInRawMode 0 bs = Inl OutOfFuel"
| "processDictInRawMode (Suc f) bs =
     (case bs of
        [] \<Rightarrow> Inl EOF
      | c # r \<Rightarrow>
          if c = 101 then Inr ([c], r)
          else (case raw_string bs of
                  Inl e \<Rightarrow> Inl e
                | Inr (k, r1) \<Rightarrow>
                    (case raw_into f r1 of
                       Inl e \<Rightarrow> Inl e
                     | Inr (b, r2) \<Rightarrow>
                         (case processDictInRawMode f r2 of
                            Inl e \<Rightarrow> Inl e | Inr (b', r3) \<Rightarrow> Inr (k @ b @ b', r3)))))"

definition DecodeRaw :: "bytes \<Rightarrow> bencode_error + bytes \<times> bytes" where
  "DecodeRaw bs = raw_into (fuel_for bs) bs"

text \<open>
  Decoding into a type with an \<^verbatim>\<open>UnmarshalBencode\<close> or \<^verbatim>\<open>UnmarshalText\<close> method \<open>u\<close>: the first is
  given the raw bytes of the next value, the second the contents of the next string.
\<close>

definition handleUnmarshalerInterface ::
  "(bytes \<Rightarrow> bencode_error + 'a) \<Rightarrow> bytes \<Rightarrow> bencode_error + 'a \<times> bytes" where
  "handleUnmarshalerInterface u bs =
     (case DecodeRaw bs of
        Inl e \<Rightarrow> Inl e
      | Inr (x, rest) \<Rightarrow> (case u x of Inl e \<Rightarrow> Inl e | Inr v \<Rightarrow> Inr (v, rest)))"

definition handleTextUnmarshalerInterface ::
  "(bytes \<Rightarrow> bencode_error + 'a) \<Rightarrow> bytes \<Rightarrow> bencode_error + 'a \<times> bytes" where
  "handleTextUnmarshalerInterface u bs =
     (case decodeString bs of
        Inl e \<Rightarrow> Inl e
      | Inr (b, rest) \<Rightarrow> (case u b of Inl e \<Rightarrow> Inl e | Inr v \<Rightarrow> Inr (v, rest)))"

section \<open>Reading\<close>

lemma dec_nat_nonempty [simp]: "dec_nat n \<noteq> []"
  by (subst dec_nat.simps) simp

lemma digit_val: "d < 10 \<Longrightarrow> unat (48 + of_nat d :: byte) = 48 + d"
  by (simp add: unat_word_ariths unat_of_nat)

lemma digit_range: "d < 10 \<Longrightarrow> \<not> (48 + of_nat d :: byte) < 48 \<and> \<not> 57 < (48 + of_nat d :: byte)"
  using digit_val [of d] by (simp add: word_less_nat_alt)

lemma set_dec_nat: "c \<in> set (dec_nat n) \<Longrightarrow> 48 \<le> c \<and> c \<le> 57"
proof (induction n rule: dec_nat.induct)
  case (1 n)
  then show ?case
    using digit_range [of n] digit_range [of "n mod 10"]
    by (subst (asm) (2) dec_nat.simps) (auto split: if_splits simp: not_less)
qed

lemma parse_digits_dec_nat:
  "n + k * 10 ^ length (dec_nat n) < 2 ^ bits \<Longrightarrow>
   parse_digits bits k (dec_nat n @ cs) =
     parse_digits bits (n + k * 10 ^ length (dec_nat n)) cs"
proof (induction n arbitrary: cs rule: dec_nat.induct)
  case (1 n)
  show ?case
  proof (cases "n < 10")
    case True
    then have d: "dec_nat n = [48 + of_nat n]" by (subst dec_nat.simps) simp
    show ?thesis using 1(2) digit_range [OF True] digit_val [OF True] by (simp add: d ac_simps)
  next
    case False
    then have d: "dec_nat n = dec_nat (n div 10) @ [48 + of_nat (n mod 10)]"
      by (subst dec_nat.simps) simp
    let ?m = "n div 10 + k * 10 ^ length (dec_nat (n div 10))"
    have e: "?m * 10 + n mod 10 = n + k * 10 ^ length (dec_nat n)"
      by (simp add: d algebra_simps)
    moreover have "x * 10 + y = z \<Longrightarrow> z < w \<Longrightarrow> x < w" for x y z w :: nat by simp
    ultimately have "?m < 2 ^ bits" using 1(2) by blast
    from 1(1) [OF False this, of "(48 + of_nat (n mod 10)) # cs"] show ?thesis
      using 1(2) e digit_range [of "n mod 10"] digit_val [of "n mod 10"]
      by (simp add: d mult.assoc mult.commute mult.left_commute)
  qed
qed

lemma ParseUint_dec_nat: "n < 2 ^ bits \<Longrightarrow> ParseUint bits (dec_nat n) = Inr n"
  using parse_digits_dec_nat [of n 0 bits "[]"] by (simp add: ParseUint_def)

lemma dec_nat_head: "\<exists>c cs. dec_nat n = c # cs \<and> 48 \<le> c \<and> c \<le> 57"
  using set_dec_nat [of "hd (dec_nat n)" n] by (cases "dec_nat n") auto

lemma ParseInt_dec_int:
  assumes "- (2 ^ (bits - 1)) \<le> i" "i < 2 ^ (bits - 1)" "0 < bits"
  shows "ParseInt bits (dec_int i) = Inr i"
proof -
  have p: "2 ^ (bits - 1) < (2 :: nat) ^ bits" using assms(3) by simp
  have *: "nat x \<le> 2 ^ k" if "x \<le> 2 ^ k" for x :: int and k
    using that by (simp add: nat_le_iff)
  have **: "nat x < 2 ^ k \<longleftrightarrow> x < 2 ^ k" for x :: int and k
    by (simp add: nat_less_iff)
  show ?thesis
  proof (cases "i < 0")
    case True
    have "nat (- i) \<le> 2 ^ (bits - 1)" using assms(1) by (intro *) simp
    moreover from this p have "ParseUint bits (dec_nat (nat (- i))) = Inr (nat (- i))"
      by (intro ParseUint_dec_nat) linarith
    ultimately show ?thesis using True by (simp add: ParseInt_def dec_int_def)
  next
    case False
    obtain c cs where c: "dec_nat (nat i) = c # cs" "48 \<le> c" "c \<le> 57"
      using dec_nat_head by blast
    then have "c \<noteq> 43" "c \<noteq> 45" by (auto simp: word_le_nat_alt)
    moreover have "nat i < 2 ^ (bits - 1)" using assms(2) ** by blast
    moreover from this p have "ParseUint bits (dec_nat (nat i)) = Inr (nat i)"
      by (intro ParseUint_dec_nat) linarith
    ultimately show ?thesis using False c by (simp add: ParseInt_def dec_int_def)
  qed
qed

lemma parse_digits_bound: "parse_digits bits n s = Inr m \<Longrightarrow> n < 2 ^ bits \<Longrightarrow> m < 2 ^ bits"
  by (induction s arbitrary: n) (auto split: if_splits)

lemma ParseInt_range:
  assumes "ParseInt bits s = Inr i"
  shows "- (2 ^ (bits - 1)) \<le> i" "i < 2 ^ (bits - 1)"
proof -
  obtain un where "i = int un \<and> un < 2 ^ (bits - 1) \<or> i = - int un \<and> un \<le> 2 ^ (bits - 1)"
    using assms by (auto simp: ParseInt_def not_le not_less split: list.splits sum.splits if_splits)
  moreover have "un < 2 ^ (bits - 1) \<longleftrightarrow> int un < 2 ^ (bits - 1)"
    and "un \<le> 2 ^ (bits - 1) \<longleftrightarrow> int un \<le> 2 ^ (bits - 1)"
    by simp_all
  moreover have "(0 :: int) < 2 ^ (bits - 1)" by simp
  ultimately show "- (2 ^ (bits - 1)) \<le> i" "i < 2 ^ (bits - 1)" by linarith+
qed

lemma readBytes_append: "delim \<notin> set a \<Longrightarrow> readBytes delim (a @ delim # b) = Some (a, b)"
  by (induction a) auto

lemma readBytes_SomeD: "readBytes delim bs = Some (a, b) \<Longrightarrow> bs = a @ delim # b \<and> delim \<notin> set a"
  by (induction bs arbitrary: a) (auto split: if_splits option.splits)

lemma readFull_InrD: "readFull n bs = Inr (a, b) \<Longrightarrow> bs = a @ b \<and> length a = n"
  by (auto simp: readFull_def split: if_splits)

lemma readFull_append: "length a = n \<Longrightarrow> readFull n (a @ b) = Inr (a, b)"
  by (simp add: readFull_def)

lemma dec_int_no_e: "101 \<notin> set (dec_int i)"
  by (auto simp: dec_int_def dest: set_dec_nat)

lemma decodeInt_encode:
  assumes "- (2 ^ 63) \<le> i" "i < 2 ^ 63"
  shows "decodeInt ToInterface (dec_int i @ 101 # s) = Inr (GInt i, s)"
  using ParseInt_dec_int [of 64 i] assms readBytes_append [OF dec_int_no_e, of i s]
  by (simp add: decodeInt_def readIntegerDigits_def assignIntegerValue_def)

lemma decodeString_encode:
  assumes "length b < 2 ^ 31"
  shows "decodeString (encodeStringType b @ s) = Inr (b, s)"
proof -
  have "58 \<notin> set (dec_nat (length b))" by (auto dest: set_dec_nat)
  from readBytes_append [OF this, of "b @ s"] show ?thesis
    using ParseInt_dec_int [of 32 "int (length b)"] assms
    by (simp add: decodeString_def encodeStringType_def dec_int_def readFull_append)
qed

lemma decodeString_InrD:
  assumes "decodeString bs = Inr (b, r)"
  obtains p where "bs = p @ r" "p \<noteq> []" "raw_string bs = Inr (p, r)" "length b < 2 ^ 31"
proof -
  obtain line rest l where *: "readBytes 58 bs = Some (line, rest)" "ParseInt 32 line = Inr l"
    "\<not> l < 0" "readFull (nat l) rest = Inr (b, r)"
    using assms by (auto simp: decodeString_def split: option.splits sum.splits if_splits)
  moreover have "bs = line @ 58 # b @ r" "length b = nat l"
    using readBytes_SomeD [OF *(1)] readFull_InrD [OF *(4)] by auto
  moreover have "nat l < 2 ^ 31" using ParseInt_range(2) [OF *(2)] by simp
  ultimately show thesis by (intro that [of "line @ 58 # b"]) (auto simp: raw_string_def)
qed

lemma decodeString_prefix:
  assumes "decodeString bs = Inr (b, r)"
  shows "\<exists>p. p \<noteq> [] \<and> bs = p @ r \<and> (\<forall>s. decodeString (p @ s) = Inr (b, s))"
proof -
  obtain line rest l where *: "readBytes 58 bs = Some (line, rest)" "ParseInt 32 line = Inr l"
    "\<not> l < 0" "readFull (nat l) rest = Inr (b, r)"
    using assms by (auto simp: decodeString_def split: option.splits sum.splits if_splits)
  have "decodeString ((line @ 58 # b) @ s) = Inr (b, s)" for s
    using readBytes_append [of 58 line "b @ s"] readBytes_SomeD [OF *(1)] *(2,3)
      readFull_append [of b "nat l" s] readFull_InrD [OF *(4)]
    by (simp add: decodeString_def)
  moreover have "bs = (line @ 58 # b) @ r"
    using readBytes_SomeD [OF *(1)] readFull_InrD [OF *(4)] by simp
  ultimately show ?thesis by blast
qed

lemma decodeInt_InrD:
  assumes "decodeInt ToInterface r = Inr (v, r')"
  obtains a i where "r = a @ 101 # r'" "readBytes 101 r = Some (a, r')" "v = GInt i"
    "- (2 ^ 63) \<le> i" "i < 2 ^ 63"
proof -
  obtain a i where *: "readBytes 101 r = Some (a, r')" "ParseInt 64 a = Inr i" "v = GInt i"
    using assms by (auto simp: decodeInt_def readIntegerDigits_def assignIntegerValue_def
        split: option.splits sum.splits)
  then show thesis using readBytes_SomeD [OF *(1)] ParseInt_range [OF *(2)]
    by (intro that) auto
qed

lemma decodeInt_prefix:
  assumes "decodeInt ToInterface r = Inr (v, r')"
  shows "\<exists>p. r = p @ r' \<and> (\<forall>s. decodeInt ToInterface (p @ s) = Inr (v, s))"
proof -
  obtain a where *: "readBytes 101 r = Some (a, r')" using assms by (rule decodeInt_InrD)
  have "decodeInt ToInterface ((a @ [101]) @ s) = Inr (v, s)" for s
    using assms * readBytes_append [of 101 a s] readBytes_SomeD [OF *]
    by (auto simp: decodeInt_def readIntegerDigits_def split: sum.splits)
  moreover have "r = (a @ [101]) @ r'" using readBytes_SomeD [OF *] by simp
  ultimately show ?thesis by blast
qed

section \<open>Fuel\<close>

lemma decodeInto_InrE:
  assumes "decodeInto (Suc f) fu bs = Inr (v, r)"
  obtains (int) r0 i where "bs = 105 # r0" "decodeInt ToInterface r0 = Inr (GInt i, r)" "v = BInt i"
  | (str) c r0 b where "bs = c # r0" "48 \<le> c" "c \<le> 57" "decodeString bs = Inr (b, r)" "v = BStr b"
  | (lst) r0 vs where "bs = 108 # r0" "processListElements f fu r0 = Inr (vs, r)" "v = BList vs"
  | (dct) r0 m where "bs = 100 # r0" "processDictKeyValuePairs f fu None [] r0 = Inr (m, r)" "v = BDict m"
  using assms
  by (cases bs) (fastforce split: if_splits sum.splits gval.splits prod.splits)+

lemma processListElements_InrE:
  assumes "processListElements (Suc f) fu bs = Inr (vs, r)"
  obtains (stop) "bs = 101 # r" "vs = []"
  | (elem) c r0 v r1 vs' where "bs = c # r0" "c \<noteq> 101" "decodeInto f fu bs = Inr (v, r1)"
      "processListElements f fu r1 = Inr (vs', r)" "vs = v # vs'"
  using assms by (cases bs) (auto split: if_splits sum.splits)

lemma processDictKeyValuePairs_InrE:
  assumes "processDictKeyValuePairs (Suc f) fu lastKey m bs = Inr (m', r)"
  obtains (stop) "bs = 101 # r" "m' = m"
  | (pair) c r0 key r1 v r2 where "bs = c # r0" "c \<noteq> 101" "decodeString bs = Inr (key, r1)"
      "validateKeyOrder fu lastKey key" "decodeInto f fu r1 = Inr (v, r2)"
      "processDictKeyValuePairs f fu (Some key) (mput m key v) r2 = Inr (m', r)"
  using assms by (cases bs) (auto split: if_splits sum.splits)

text \<open>A value is decoded from a prefix of the input, and what follows has no influence.\<close>

lemma decode_prefix:
  "(\<forall>bs v r. decodeInto f fu bs = Inr (v, r) \<longrightarrow>
      (\<exists>p. p \<noteq> [] \<and> bs = p @ r \<and> (\<forall>s. decodeInto f fu (p @ s) = Inr (v, s)))) \<and>
   (\<forall>bs vs r. processListElements f fu bs = Inr (vs, r) \<longrightarrow>
      (\<exists>p. p \<noteq> [] \<and> bs = p @ r \<and> (\<forall>s. processListElements f fu (p @ s) = Inr (vs, s)))) \<and>
   (\<forall>lk m bs m' r. processDictKeyValuePairs f fu lk m bs = Inr (m', r) \<longrightarrow>
      (\<exists>p. p \<noteq> [] \<and> bs = p @ r \<and> (\<forall>s. processDictKeyValuePairs f fu lk m (p @ s) = Inr (m', s))))"
proof (induction f)
  case (Suc f)
  then have D: "\<And>bs v r. decodeInto f fu bs = Inr (v, r) \<Longrightarrow>
      \<exists>p. p \<noteq> [] \<and> bs = p @ r \<and> (\<forall>s. decodeInto f fu (p @ s) = Inr (v, s))"
    and L: "\<And>bs vs r. processListElements f fu bs = Inr (vs, r) \<Longrightarrow>
      \<exists>p. p \<noteq> [] \<and> bs = p @ r \<and> (\<forall>s. processListElements f fu (p @ s) = Inr (vs, s))"
    and P: "\<And>lk m bs m' r. processDictKeyValuePairs f fu lk m bs = Inr (m', r) \<Longrightarrow>
      \<exists>p. p \<noteq> [] \<and> bs = p @ r \<and> (\<forall>s. processDictKeyValuePairs f fu lk m (p @ s) = Inr (m', s))"
    by blast+
  show ?case
  proof (intro conjI allI impI)
    fix bs v r assume "decodeInto (Suc f) fu bs = Inr (v, r)"
    then show "\<exists>p. p \<noteq> [] \<and> bs = p @ r \<and> (\<forall>s. decodeInto (Suc f) fu (p @ s) = Inr (v, s))"
    proof (cases rule: decodeInto_InrE)
      case (int r0 i)
      from decodeInt_prefix [OF int(2)] obtain p where
        "r0 = p @ r" "\<And>s. decodeInt ToInterface (p @ s) = Inr (GInt i, s)" by blast
      then show ?thesis using int by (intro exI [of _ "105 # p"]) auto
    next
      case (str c r0 b)
      from decodeString_prefix [OF str(4)] obtain p where
        p: "p \<noteq> []" "bs = p @ r" "\<And>s. decodeString (p @ s) = Inr (b, s)" by blast
      then obtain p' where "p = c # p'" using str(1) by (cases p) auto
      then show ?thesis using p str(2,3,5) by (auto intro!: exI [of _ p])
    next
      case (lst r0 vs)
      from L [OF lst(2)] obtain p where
        "r0 = p @ r" "\<And>s. processListElements f fu (p @ s) = Inr (vs, s)" by blast
      then show ?thesis using lst by (intro exI [of _ "108 # p"]) auto
    next
      case (dct r0 m)
      from P [OF dct(2)] obtain p where
        "r0 = p @ r" "\<And>s. processDictKeyValuePairs f fu None [] (p @ s) = Inr (m, s)" by blast
      then show ?thesis using dct by (intro exI [of _ "100 # p"]) auto
    qed
  next
    fix bs vs r assume "processListElements (Suc f) fu bs = Inr (vs, r)"
    then show "\<exists>p. p \<noteq> [] \<and> bs = p @ r \<and> (\<forall>s. processListElements (Suc f) fu (p @ s) = Inr (vs, s))"
    proof (cases rule: processListElements_InrE)
      case stop
      then show ?thesis by (auto intro!: exI [of _ "[101]"])
    next
      case (elem c r0 v r1 vs')
      from D [OF elem(3)] obtain p where
        p: "p \<noteq> []" "bs = p @ r1" "\<And>s. decodeInto f fu (p @ s) = Inr (v, s)" by blast
      from L [OF elem(4)] obtain q where
        q: "r1 = q @ r" "\<And>s. processListElements f fu (q @ s) = Inr (vs', s)" by blast
      obtain p' where "p = c # p'" using p elem(1) by (cases p) auto
      then have "processListElements (Suc f) fu ((p @ q) @ s) = Inr (vs, s)" for s
        using p(3) [of "q @ s"] q(2) elem(2,5) by simp
      then show ?thesis using p(1,2) q(1) by (metis append_assoc append_is_Nil_conv)
    qed
  next
    fix lk m bs m' r assume "processDictKeyValuePairs (Suc f) fu lk m bs = Inr (m', r)"
    then show "\<exists>p. p \<noteq> [] \<and> bs = p @ r \<and>
      (\<forall>s. processDictKeyValuePairs (Suc f) fu lk m (p @ s) = Inr (m', s))"
    proof (cases rule: processDictKeyValuePairs_InrE)
      case stop
      then show ?thesis by (auto intro!: exI [of _ "[101]"])
    next
      case (pair c r0 key r1 v r2)
      from decodeString_prefix [OF pair(3)] obtain k where
        k: "k \<noteq> []" "bs = k @ r1" "\<And>s. decodeString (k @ s) = Inr (key, s)" by blast
      from D [OF pair(5)] obtain p where
        p: "r1 = p @ r2" "\<And>s. decodeInto f fu (p @ s) = Inr (v, s)" by blast
      from P [OF pair(6)] obtain q where q: "r2 = q @ r"
        "\<And>s. processDictKeyValuePairs f fu (Some key) (mput m key v) (q @ s) = Inr (m', s)" by blast
      obtain k' where "k = c # k'" using k pair(1) by (cases k) auto
      then have "processDictKeyValuePairs (Suc f) fu lk m ((k @ p @ q) @ s) = Inr (m', s)" for s
        using k(3) [of "p @ q @ s"] p(2) [of "q @ s"] q(2) pair(2,4) by simp
      then show ?thesis using k(1,2) p(1) q(1) by (metis append_assoc append_is_Nil_conv)
    qed
  qed
qed simp

lemmas decodeInto_prefix = decode_prefix [THEN conjunct1, rule_format]

lemma decodeInto_shorter: "decodeInto f fu bs = Inr (v, r) \<Longrightarrow> length r < length bs"
  using decodeInto_prefix [of f fu bs v r] by force

lemma decodeString_shorter: "decodeString bs = Inr (b, r) \<Longrightarrow> length r < length bs"
  by (auto elim!: decodeString_InrD)

text \<open>A result, other than running out of fuel, is the result for all larger amounts.\<close>

lemma fuel_mono:
  "(\<forall>f' bs. f \<le> f' \<longrightarrow> decodeInto f fu bs = Inl OutOfFuel \<or> decodeInto f' fu bs = decodeInto f fu bs) \<and>
   (\<forall>f' bs. f \<le> f' \<longrightarrow> processListElements f fu bs = Inl OutOfFuel \<or>
      processListElements f' fu bs = processListElements f fu bs) \<and>
   (\<forall>f' lk m bs. f \<le> f' \<longrightarrow> processDictKeyValuePairs f fu lk m bs = Inl OutOfFuel \<or>
      processDictKeyValuePairs f' fu lk m bs = processDictKeyValuePairs f fu lk m bs)"
proof (induction f)
  case (Suc f)
  then have D: "\<And>f' bs. f \<le> f' \<Longrightarrow> decodeInto f fu bs = Inl OutOfFuel \<or> decodeInto f' fu bs = decodeInto f fu bs"
    and L: "\<And>f' bs. f \<le> f' \<Longrightarrow> processListElements f fu bs = Inl OutOfFuel \<or>
      processListElements f' fu bs = processListElements f fu bs"
    and P: "\<And>f' lk m bs. f \<le> f' \<Longrightarrow> processDictKeyValuePairs f fu lk m bs = Inl OutOfFuel \<or>
      processDictKeyValuePairs f' fu lk m bs = processDictKeyValuePairs f fu lk m bs"
    by blast+
  show ?case
  proof (intro conjI allI impI)
    fix f' bs assume "Suc f \<le> f'"
    then obtain g where g: "f' = Suc g" "f \<le> g" by (cases f') auto
    show "decodeInto (Suc f) fu bs = Inl OutOfFuel \<or> decodeInto f' fu bs = decodeInto (Suc f) fu bs"
      using L [OF g(2), of "tl bs"] P [OF g(2), of None "[]" "tl bs"]
      by (cases bs) (auto simp: g(1))
  next
    fix f' bs assume "Suc f \<le> f'"
    then obtain g where g: "f' = Suc g" "f \<le> g" by (cases f') auto
    show "processListElements (Suc f) fu bs = Inl OutOfFuel \<or>
      processListElements f' fu bs = processListElements (Suc f) fu bs"
      using D [OF g(2), of bs] L [OF g(2), of "snd (projr (decodeInto f fu bs))"]
      by (cases bs; cases "decodeInto f fu bs") (auto simp: g(1) split: sum.split)
  next
    fix f' lk m bs assume "Suc f \<le> f'"
    then obtain g where g: "f' = Suc g" "f \<le> g" by (cases f') auto
    show "processDictKeyValuePairs (Suc f) fu lk m bs = Inl OutOfFuel \<or>
      processDictKeyValuePairs f' fu lk m bs = processDictKeyValuePairs (Suc f) fu lk m bs"
    proof (cases "decodeString bs")
      case (Inr p)
      then obtain key r1 where k: "decodeString bs = Inr (key, r1)" by (cases p) auto
      show ?thesis using D [OF g(2), of r1] P [OF g(2)] k
        by (cases bs; cases "decodeInto f fu r1") (auto simp: g(1) split: sum.split)
    qed (cases bs; auto simp: g(1))
  qed
qed simp


text \<open>Twice the length of the input is always enough.\<close>

lemma numbers_need_no_fuel [simp]:
  "parse_digits bits n s \<noteq> Inl OutOfFuel" "ParseUint bits s \<noteq> Inl OutOfFuel"
  "ParseInt bits s \<noteq> Inl OutOfFuel" "readFull k s \<noteq> Inl OutOfFuel"
  "decodeString s \<noteq> Inl OutOfFuel" "decodeInt t s \<noteq> Inl OutOfFuel"
  "raw_string s \<noteq> Inl OutOfFuel"
proof -
  show d [simp]: "parse_digits bits n s \<noteq> Inl OutOfFuel" for bits n s
    by (induction bits n s rule: parse_digits.induct) auto
  show u [simp]: "ParseUint bits s \<noteq> Inl OutOfFuel" for bits s by (simp add: ParseUint_def)
  have i [simp]: "ParseInt bits s \<noteq> Inl OutOfFuel" for bits s
    by (auto simp: ParseInt_def split: list.split sum.split dest: u [THEN notE, rotated])
  have f [simp]: "readFull k s \<noteq> Inl OutOfFuel" for k s by (simp add: readFull_def)
  show "ParseInt bits s \<noteq> Inl OutOfFuel" "readFull k s \<noteq> Inl OutOfFuel" by simp_all
  show "decodeString s \<noteq> Inl OutOfFuel"
    by (auto simp: decodeString_def split: option.split sum.split dest: i [THEN notE, rotated])
  show "decodeInt t s \<noteq> Inl OutOfFuel"
    by (auto simp: decodeInt_def readIntegerDigits_def assignIntegerValue_def
        split: option.split sum.split int_target.split dest: i [THEN notE, rotated] u [THEN notE, rotated])
  show "raw_string s \<noteq> Inl OutOfFuel"
    by (auto simp: raw_string_def split: option.split sum.split
        dest: i [THEN notE, rotated] f [THEN notE, rotated])
qed

lemma fuel_enough:
  "(\<forall>bs. 2 * length bs \<le> f \<and> 0 < f \<longrightarrow> decodeInto f fu bs \<noteq> Inl OutOfFuel) \<and>
   (\<forall>bs. 2 * length bs < f \<longrightarrow> processListElements f fu bs \<noteq> Inl OutOfFuel) \<and>
   (\<forall>lk m bs. 2 * length bs < f \<longrightarrow> processDictKeyValuePairs f fu lk m bs \<noteq> Inl OutOfFuel)"
proof (induction f)
  case (Suc f)
  then have D: "\<And>bs. 2 * length bs \<le> f \<Longrightarrow> 0 < f \<Longrightarrow> decodeInto f fu bs \<noteq> Inl OutOfFuel"
    and L: "\<And>bs. 2 * length bs < f \<Longrightarrow> processListElements f fu bs \<noteq> Inl OutOfFuel"
    and P: "\<And>lk m bs. 2 * length bs < f \<Longrightarrow> processDictKeyValuePairs f fu lk m bs \<noteq> Inl OutOfFuel"
    by blast+
  show ?case
  proof (intro conjI allI impI)
    fix bs :: bytes assume "2 * length bs \<le> Suc f \<and> 0 < Suc f"
    then show "decodeInto (Suc f) fu bs \<noteq> Inl OutOfFuel"
      using L [of "tl bs"] P [of "tl bs" None "[]"] numbers_need_no_fuel(5) [of bs]
        numbers_need_no_fuel(6) [of ToInterface "tl bs"]
      by (cases bs) (auto split: sum.splits gval.splits)
  next
    fix bs :: bytes assume len: "2 * length bs < Suc f"
    show "processListElements (Suc f) fu bs \<noteq> Inl OutOfFuel"
    proof (cases bs)
      case (Cons c r)
      then have d: "decodeInto f fu bs \<noteq> Inl OutOfFuel" using len by (intro D) auto
      have "processListElements f fu r1 \<noteq> Inl OutOfFuel" if "decodeInto f fu bs = Inr (v, r1)" for v r1
        using decodeInto_shorter [OF that] len by (intro L) simp
      then show ?thesis using Cons d by (auto split: sum.split)
    qed simp
  next
    fix lk m and bs :: bytes assume len: "2 * length bs < Suc f"
    show "processDictKeyValuePairs (Suc f) fu lk m bs \<noteq> Inl OutOfFuel"
    proof (cases bs)
      case (Cons c r)
      have d: "decodeInto f fu r1 \<noteq> Inl OutOfFuel" if "decodeString bs = Inr (k, r1)" for k r1
        using decodeString_shorter [OF that] len Cons by (intro D) auto
      have "processDictKeyValuePairs f fu lk' m' r2 \<noteq> Inl OutOfFuel"
        if "decodeString bs = Inr (k, r1)" "decodeInto f fu r1 = Inr (v, r2)" for k v r1 r2 lk' m'
        using decodeString_shorter [OF that(1)] decodeInto_shorter [OF that(2)] len
        by (intro P) simp
      then show ?thesis using Cons d numbers_need_no_fuel(5) [of bs] by (auto split: sum.split)
    qed simp
  qed
qed simp

lemmas decodeInto_fuel = fuel_enough [THEN conjunct1, rule_format, OF conjI]
lemmas processListElements_fuel = fuel_enough [THEN conjunct2, THEN conjunct1, rule_format]
lemmas processDict_fuel = fuel_enough [THEN conjunct2, THEN conjunct2, rule_format]

definition DecodeList :: "bool \<Rightarrow> bytes \<Rightarrow> bencode_error + bval list \<times> bytes" where
  "DecodeList fu bs = processListElements (fuel_for bs) fu bs"

definition DecodeDict :: "bool \<Rightarrow> bytes option \<Rightarrow> (bytes, bval) gomap \<Rightarrow> bytes \<Rightarrow>
    bencode_error + (bytes, bval) gomap \<times> bytes" where
  "DecodeDict fu lk m bs = processDictKeyValuePairs (fuel_for bs) fu lk m bs"

text \<open>With enough fuel the amount does not matter, and the decoder satisfies the equations of
  the recursion without fuel.\<close>

lemma decodeInto_Decode:
  assumes "2 * length bs \<le> f" "0 < f"
  shows "decodeInto f fu bs = Decode fu bs"
proof (cases "f \<le> fuel_for bs")
  case True
  then show ?thesis using fuel_mono [of f fu] decodeInto_fuel [OF assms, of fu]
    unfolding Decode_def by metis
next
  case False
  have "decodeInto (fuel_for bs) fu bs \<noteq> Inl OutOfFuel"
    by (rule decodeInto_fuel) (simp_all add: fuel_for_def)
  then show ?thesis using False fuel_mono [of "fuel_for bs" fu] unfolding Decode_def
    by (metis nat_le_linear)
qed

lemma processListElements_DecodeList:
  assumes "2 * length bs < f"
  shows "processListElements f fu bs = DecodeList fu bs"
proof (cases "f \<le> fuel_for bs")
  case True
  then show ?thesis using fuel_mono [of f fu] processListElements_fuel [OF assms, of fu]
    unfolding DecodeList_def by metis
next
  case False
  have "processListElements (fuel_for bs) fu bs \<noteq> Inl OutOfFuel"
    by (rule processListElements_fuel) (simp add: fuel_for_def)
  then show ?thesis using False fuel_mono [of "fuel_for bs" fu] unfolding DecodeList_def
    by (metis nat_le_linear)
qed

lemma processDict_DecodeDict:
  assumes "2 * length bs < f"
  shows "processDictKeyValuePairs f fu lk m bs = DecodeDict fu lk m bs"
proof (cases "f \<le> fuel_for bs")
  case True
  then show ?thesis using fuel_mono [of f fu] processDict_fuel [OF assms, of fu lk m]
    unfolding DecodeDict_def by metis
next
  case False
  have "processDictKeyValuePairs (fuel_for bs) fu lk m bs \<noteq> Inl OutOfFuel"
    by (rule processDict_fuel) (simp add: fuel_for_def)
  then show ?thesis using False fuel_mono [of "fuel_for bs" fu] unfolding DecodeDict_def
    by (metis nat_le_linear)
qed


lemma Decode_code [code]:
  "Decode fu bs =
     (case bs of
        [] \<Rightarrow> Inl EOF
      | c # r \<Rightarrow>
          if c = 105 then
            (case decodeInt ToInterface r of
               Inr (GInt i, r') \<Rightarrow> Inr (BInt i, r')
             | Inr _ \<Rightarrow> Inl CannotStore
             | Inl e \<Rightarrow> Inl e)
          else if 48 \<le> c \<and> c \<le> 57 then
            (case decodeString bs of Inl e \<Rightarrow> Inl e | Inr (s, r') \<Rightarrow> Inr (BStr s, r'))
          else if c = 108 then
            (case DecodeList fu r of Inl e \<Rightarrow> Inl e | Inr (vs, r') \<Rightarrow> Inr (BList vs, r'))
          else if c = 100 then
            (case DecodeDict fu None [] r of Inl e \<Rightarrow> Inl e | Inr (m, r') \<Rightarrow> Inr (BDict m, r'))
          else Inl InvalidInput)"
proof (cases bs)
  case (Cons c r)
  define f where "f = 2 * length bs"
  have "Decode fu bs = decodeInto (Suc f) fu bs"
    by (rule decodeInto_Decode [symmetric]) (simp_all add: f_def)
  moreover have "processListElements f fu r = DecodeList fu r"
    "processDictKeyValuePairs f fu lk m r = DecodeDict fu lk m r" for lk m
    using Cons by (simp_all add: processListElements_DecodeList processDict_DecodeDict f_def del:
      processListElements.simps processDictKeyValuePairs.simps)
  ultimately show ?thesis using Cons by simp
qed (simp add: Decode_def fuel_for_def)

lemma DecodeList_code [code]:
  "DecodeList fu bs =
     (case bs of
        [] \<Rightarrow> Inl EOF
      | c # r \<Rightarrow>
          if c = 101 then Inr ([], r)
          else (case Decode fu bs of
                  Inl e \<Rightarrow> Inl e
                | Inr (v, r1) \<Rightarrow>
                    (case DecodeList fu r1 of
                       Inl e \<Rightarrow> Inl e | Inr (vs, r2) \<Rightarrow> Inr (v # vs, r2))))"
proof (cases bs)
  case (Cons c r)
  define f where "f = 2 * length bs + 1"
  have "DecodeList fu bs = processListElements (Suc f) fu bs"
    by (rule processListElements_DecodeList [symmetric]) (simp add: f_def)
  moreover have d: "decodeInto f fu bs = Decode fu bs"
    by (rule decodeInto_Decode) (simp_all add: f_def)
  moreover have "processListElements f fu r1 = DecodeList fu r1" if "Decode fu bs = Inr (v, r1)" for v r1
    using decodeInto_shorter [of f fu bs v r1] that d
    by (intro processListElements_DecodeList) (simp add: f_def)
  ultimately show ?thesis using Cons by (simp split: sum.split)
qed (simp add: DecodeList_def fuel_for_def)

lemma DecodeDict_code [code]:
  "DecodeDict fu lk m bs =
     (case bs of
        [] \<Rightarrow> Inl EOF
      | c # r \<Rightarrow>
          if c = 101 then Inr (m, r)
          else (case decodeString bs of
                  Inl e \<Rightarrow> Inl e
                | Inr (key, r1) \<Rightarrow>
                    if \<not> validateKeyOrder fu lk key then Inl (Unordered (the lk) key)
                    else (case Decode fu r1 of
                            Inl e \<Rightarrow> Inl e
                          | Inr (v, r2) \<Rightarrow> DecodeDict fu (Some key) (mput m key v) r2)))"
proof (cases bs)
  case (Cons c r)
  define f where "f = 2 * length bs + 1"
  have "DecodeDict fu lk m bs = processDictKeyValuePairs (Suc f) fu lk m bs"
    by (rule processDict_DecodeDict [symmetric]) (simp add: f_def)
  moreover have d: "decodeInto f fu r1 = Decode fu r1" if "decodeString bs = Inr (k, r1)" for k r1
    using decodeString_shorter [OF that] by (intro decodeInto_Decode) (simp_all add: f_def)
  moreover have "processDictKeyValuePairs f fu lk' m' r2 = DecodeDict fu lk' m' r2"
    if "decodeString bs = Inr (k, r1)" "Decode fu r1 = Inr (v, r2)" for k r1 v r2 lk' m'
    using decodeString_shorter [OF that(1)] decodeInto_shorter [of f fu r1 v r2] d [OF that(1)] that(2)
    by (intro processDict_DecodeDict) (simp add: f_def)
  ultimately show ?thesis using Cons by (simp split: sum.split)
qed (simp add: DecodeDict_def fuel_for_def)

lemma Decode_int: "Decode fu (105 # r) =
    (case decodeInt ToInterface r of Inr (GInt i, r') \<Rightarrow> Inr (BInt i, r')
     | Inr _ \<Rightarrow> Inl CannotStore | Inl e \<Rightarrow> Inl e)"
  by (subst Decode_code) simp

lemma Decode_string: "48 \<le> c \<Longrightarrow> c \<le> 57 \<Longrightarrow> Decode fu (c # r) =
    (case decodeString (c # r) of Inl e \<Rightarrow> Inl e | Inr (s, r') \<Rightarrow> Inr (BStr s, r'))"
  by (subst Decode_code) auto

lemma Decode_list: "Decode fu (108 # r) =
    (case DecodeList fu r of Inl e \<Rightarrow> Inl e | Inr (vs, r') \<Rightarrow> Inr (BList vs, r'))"
  by (subst Decode_code) simp

lemma Decode_dict: "Decode fu (100 # r) =
    (case DecodeDict fu None [] r of Inl e \<Rightarrow> Inl e | Inr (m, r') \<Rightarrow> Inr (BDict m, r'))"
  by (subst Decode_code) simp

lemma DecodeList_stop: "DecodeList fu (101 # r) = Inr ([], r)"
  by (subst DecodeList_code) simp

lemma DecodeList_elem:
  assumes "Decode fu bs = Inr (v, r1)" "hd bs \<noteq> 101"
  shows "DecodeList fu bs =
    (case DecodeList fu r1 of Inl e \<Rightarrow> Inl e | Inr (vs, r2) \<Rightarrow> Inr (v # vs, r2))"
  using assms by (subst DecodeList_code) (auto simp: Decode_code [of fu "[]"] split: list.split)

lemma DecodeDict_stop: "DecodeDict fu lk m (101 # r) = Inr (m, r)"
  by (subst DecodeDict_code) simp

lemma DecodeDict_pair:
  assumes "decodeString bs = Inr (key, r1)" "validateKeyOrder fu lk key"
    "Decode fu r1 = Inr (v, r2)" "hd bs \<noteq> 101"
  shows "DecodeDict fu lk m bs = DecodeDict fu (Some key) (mput m key v) r2"
  using assms decodeString_shorter [OF assms(1)] by (subst DecodeDict_code) (auto split: list.split)

lemma DecodeList_Cons:
  "c \<noteq> 101 \<Longrightarrow> DecodeList fu (c # r) =
     (case Decode fu (c # r) of
        Inl e \<Rightarrow> Inl e
      | Inr (v, r1) \<Rightarrow>
          (case DecodeList fu r1 of Inl e \<Rightarrow> Inl e | Inr (vs, r2) \<Rightarrow> Inr (v # vs, r2)))"
  by (subst DecodeList_code) simp

lemma DecodeDict_Cons:
  "c \<noteq> 101 \<Longrightarrow> DecodeDict fu lk m (c # r) =
     (case decodeString (c # r) of
        Inl e \<Rightarrow> Inl e
      | Inr (key, r1) \<Rightarrow>
          if \<not> validateKeyOrder fu lk key then Inl (Unordered (the lk) key)
          else (case Decode fu r1 of
                  Inl e \<Rightarrow> Inl e
                | Inr (v, r2) \<Rightarrow> DecodeDict fu (Some key) (mput m key v) r2))"
  by (subst DecodeDict_code) simp

text \<open>Rules that evaluate the decoder on a concrete input.\<close>

lemmas decode_eval =
  Decode_int Decode_string Decode_list Decode_dict DecodeList_stop DecodeDict_stop
  DecodeList_Cons DecodeDict_Cons decodeInt_def readIntegerDigits_def assignIntegerValue_def
  decodeString_def readFull_def ParseInt_def ParseUint_def validateKeyOrder_def mput_def

lemma Decode_prefix:
  assumes "Decode fu bs = Inr (v, r)"
  shows "\<exists>p. p \<noteq> [] \<and> bs = p @ r \<and> (\<forall>s. Decode fu (p @ s) = Inr (v, s))"
proof -
  obtain p where p: "p \<noteq> []" "bs = p @ r"
    using decodeInto_prefix assms unfolding Decode_def by blast
  have "Decode fu (p @ s) = Inr (v, s)" for s
  proof -
    let ?f = "fuel_for bs + fuel_for (p @ s)"
    have "decodeInto ?f fu bs = Inr (v, r)"
      using assms decodeInto_Decode [of bs ?f fu] by (simp add: fuel_for_def)
    from decodeInto_prefix [OF this] have "decodeInto ?f fu (p @ s) = Inr (v, s)" using p by auto
    then show ?thesis using decodeInto_Decode [of "p @ s" ?f fu] by (simp add: fuel_for_def)
  qed
  then show ?thesis using p by blast
qed

lemma Decode_fuel: "Decode fu bs \<noteq> Inl OutOfFuel"
  unfolding Decode_def by (rule decodeInto_fuel) (simp_all add: fuel_for_def)

lemma Decode_extend: "Decode fu bs = Inr (v, []) \<Longrightarrow> Decode fu (bs @ s) = Inr (v, s)"
  using Decode_prefix [of fu bs v "[]"] by simp

section \<open>Round trip\<close>

definition mk_dict :: "(bytes \<times> bval) list \<Rightarrow> (bytes, bval) gomap" where
  "mk_dict kvs = foldl (\<lambda>m (k, v). mput m k v) [] kvs"

text \<open>
  Which value a Go value stands for on the wire: \<open>denotes g v\<close>. Integers fit int64 and strings
  and keys are shorter than \<open>2 ^ 31\<close> bytes, what the decoder accepts; nil pointers and interfaces
  occur only where the encoder leaves them out, as map values and struct fields; a marshaler
  writes one strictly ordered bencoded value.
\<close>

inductive denotes :: "gval \<Rightarrow> bval \<Rightarrow> bool" where
  d_int: "- (2 ^ 63) \<le> i \<Longrightarrow> i < 2 ^ 63 \<Longrightarrow> denotes (GInt i) (BInt i)"
| d_uint: "n < 2 ^ 63 \<Longrightarrow> denotes (GUint n) (BInt (int n))"
| d_bool: "denotes (GBool b) (BInt (if b then 1 else 0))"
| d_string: "length s < 2 ^ 31 \<Longrightarrow> denotes (GString s) (BStr s)"
| d_bytes: "length s < 2 ^ 31 \<Longrightarrow> is_byte_slice g \<Longrightarrow> indirectEncodeValue g = Some (GBytes s) \<Longrightarrow>
    denotes g (BStr s)"
| d_byte_list: "\<not> is_byte_slice g \<Longrightarrow> indirectEncodeValue g = Some (GBytes s) \<Longrightarrow>
    denotes g (BList (map (\<lambda>b. BInt (uint b)) s))"
| d_ptr: "denotes g v \<Longrightarrow> \<forall>s. indirectEncodeValue g \<noteq> Some (GBytes s) \<Longrightarrow> denotes (GPtr (Some g)) v"
| d_iface: "denotes g v \<Longrightarrow> \<forall>s. indirectEncodeValue g \<noteq> Some (GBytes s) \<Longrightarrow> denotes (GIface (Some g)) v"
| d_slice: "list_all2 denotes gs vs \<Longrightarrow> denotes (GSlice gs) (BList vs)"
| d_map: "list_all2 (rel_prod (=) denotes) (filter (\<lambda>(k, g). \<not> isNilValue g) (sort_key fst kgs)) kvs \<Longrightarrow>
    list_all (\<lambda>(k, g). length k < 2 ^ 31) kgs \<Longrightarrow> denotes (GMap kgs) (BDict (mk_dict kvs))"
| d_struct: "list_all2 (rel_prod (=) denotes) (sort_key fst (readStruct fs)) kvs \<Longrightarrow>
    list_all (\<lambda>(k, g). length k < 2 ^ 31) (readStruct fs) \<Longrightarrow> denotes (GStruct z fs) (BDict (mk_dict kvs))"
| d_raw: "Decode True b = Inr (v, []) \<Longrightarrow> denotes (GRaw b) v"
| d_marshaler: "Decode True b = Inr (v, []) \<Longrightarrow> denotes (GMarshaler z (Inr b)) v"
| d_text: "length b < 2 ^ 31 \<Longrightarrow> denotes (GTextMarshaler z (Inr b)) (BStr b)"
  monos list.rel_mono prod.rel_mono

definition transmits :: "gval \<Rightarrow> bval \<Rightarrow> bool" where
  "transmits g v \<longleftrightarrow> (\<exists>b. encodeValue g = Inr b \<and> (\<forall>s. Decode True (b @ s) = Inr (v, s)))"


lemma transmitsI: "encodeValue g = Inr b \<Longrightarrow> (\<And>s. Decode True (b @ s) = Inr (v, s)) \<Longrightarrow> transmits g v"
  by (auto simp: transmits_def)

lemma Decode_head: "Decode fu bs = Inr (v, r) \<Longrightarrow> bs \<noteq> [] \<and> hd bs \<noteq> 101"
  using decodeInto_Decode [of bs "Suc (2 * length bs)" fu]
  by (auto simp del: decodeInto.simps elim!: decodeInto_InrE)

lemma list_transmits:
  assumes "list_all2 transmits gs vs"
  shows "\<exists>b. cat_results (map encodeValue gs) = Inr b \<and> (\<forall>s. DecodeList True (b @ 101 # s) = Inr (vs, s))"
  using assms
proof (induction rule: list_all2_induct)
  case Nil
  then show ?case by (simp add: DecodeList_stop)
next
  case (Cons g gs v vs)
  then obtain b bs where b: "encodeValue g = Inr b" "\<And>s. Decode True (b @ s) = Inr (v, s)"
    and bs: "cat_results (map encodeValue gs) = Inr bs" "\<And>s. DecodeList True (bs @ 101 # s) = Inr (vs, s)"
    by (auto simp: transmits_def)
  have "DecodeList True (b @ bs @ 101 # s) = Inr (v # vs, s)" for s
    using DecodeList_elem [OF b(2)] Decode_head [OF b(2)] bs(2) by simp
  then show ?case using b bs by simp
qed

lemma encodeStringType_head: "\<exists>c r. encodeStringType k @ s = c # r \<and> 48 \<le> c \<and> c \<le> 57"
  using dec_nat_head [of "length k"] by (auto simp: encodeStringType_def)

lemma Decode_encodeString:
  "length b < 2 ^ 31 \<Longrightarrow> Decode fu (encodeStringType b @ s) = Inr (BStr b, s)"
  using encodeStringType_head [of b s] decodeString_encode [of b s] by (auto simp: Decode_string)

lemma dict_transmits:
  assumes "list_all2 (rel_prod (=) transmits) kgs kvs" "sorted (map fst kgs)"
    "list_all (\<lambda>(k, g). length k < 2 ^ 31) kgs" "\<forall>l. lk = Some l \<longrightarrow> list_all (\<lambda>(k, g). l \<le> k) kgs"
  shows "\<exists>b. cat_results (map (\<lambda>(k, g). keyed k (encodeValue g)) kgs) = Inr b \<and>
     (\<forall>s. DecodeDict True lk m (b @ 101 # s) = Inr (foldl (\<lambda>m (k, v). mput m k v) m kvs, s))"
  using assms
proof (induction kgs kvs arbitrary: lk m rule: list_all2_induct)
  case Nil
  then show ?case by (simp add: DecodeDict_stop)
next
  case (Cons kg kgs kv kvs)
  obtain k g v where kg: "kg = (k, g)" "kv = (k, v)" "transmits g v"
    using Cons(1) by (cases kg; cases kv) auto
  obtain b where b: "encodeValue g = Inr b" "\<And>s. Decode True (b @ s) = Inr (v, s)"
    using kg(3) by (auto simp: transmits_def)
  have lek: "list_all (\<lambda>(k', g). k \<le> k') kgs" using Cons(4) kg by (auto simp: list_all_iff)
  obtain bs where bs: "cat_results (map (\<lambda>(k, g). keyed k (encodeValue g)) kgs) = Inr bs"
    "\<And>s. DecodeDict True (Some k) (mput m k v) (bs @ 101 # s) =
      Inr (foldl (\<lambda>m (k, v). mput m k v) (mput m k v) kvs, s)"
    using Cons(3) [of "Some k" "mput m k v"] Cons(4,5) kg lek by auto
  have k: "length k < 2 ^ 31" using Cons(5) kg by simp
  have o: "validateKeyOrder True lk k"
    using Cons(6) kg by (auto simp: validateKeyOrder_def not_less split: option.split)
  have "hd (encodeStringType k @ t) \<noteq> 101" for t
    using encodeStringType_head [of k t] by (elim exE conjE) (auto simp del: append_eq_Cons_conv)
  then have "DecodeDict True lk m (encodeStringType k @ b @ bs @ 101 # s) =
      Inr (foldl (\<lambda>m (k, v). mput m k v) (mput m k v) kvs, s)" for s
    using DecodeDict_pair [OF decodeString_encode [OF k] o b(2)] bs(2) by simp
  then show ?case using b bs kg by (simp add: keyed_def)
qed

lemma bytes_transmit:
  "DecodeList True (concat (map (\<lambda>b. encodeIntegerType (uint b)) xs) @ 101 # s) =
     Inr (map (\<lambda>b. BInt (uint b)) xs, s)" for xs :: bytes
proof (induction xs)
  case (Cons x xs)
  have "uint x < 256" using uint_lt2p [of x] by simp
  then have "Decode True (encodeIntegerType (uint x) @ t) = Inr (BInt (uint x), t)" for t
    using decodeInt_encode [OF order_trans [OF _ uint_ge_0], of x t] by (simp add: encodeIntegerType_def Decode_int)
  from DecodeList_elem [OF this] Decode_head [OF this] Cons show ?case by simp
qed (simp add: DecodeList_stop)


lemma encodeValue_indirect:
  "indirectEncodeValue g = indirectEncodeValue h \<Longrightarrow>
   \<forall>s. indirectEncodeValue h \<noteq> Some (GBytes s) \<Longrightarrow> encodeValue g = encodeValue h"
  by (subst (1 2) encodeValue.simps) (auto split: option.split gval.split)

lemma sort_filter_keys:
  "sorted (map fst (filter P (sort_key fst kgs)))"
  by (rule sorted_filter) simp

theorem denotes_transmits: "denotes g v \<Longrightarrow> transmits g v"
proof (induction rule: denotes.induct)
  case (d_int i)
  then show ?case using decodeInt_encode [of i]
    by (intro transmitsI [of _ "encodeIntegerType i"])
       (simp_all add: encodeValue.simps encodeIntegerType_def Decode_int)
next
  case (d_uint n)
  then show ?case using decodeInt_encode [of "int n"]
    by (intro transmitsI [of _ "encodeIntegerType (int n)"])
       (simp_all add: encodeValue.simps encodeIntegerType_def Decode_int)
next
  case (d_bool b)
  then show ?case using decodeInt_encode [of "if b then 1 else 0"]
    by (intro transmitsI [of _ "encodeIntegerType (if b then 1 else 0)"])
       (simp_all add: encodeValue.simps encodeIntegerType_def Decode_int)
next
  case (d_string s)
  then show ?case using Decode_encodeString [of s]
    by (intro transmitsI [of _ "encodeStringType s"]) (simp_all add: encodeValue.simps)
next
  case (d_bytes s g)
  then show ?case using Decode_encodeString [of s]
    by (intro transmitsI [of _ "encodeStringType s"]) (simp_all add: encodeValue.simps)
next
  case (d_byte_list g s)
  then show ?case using bytes_transmit [of s]
    by (intro transmitsI [of _ "108 # concat (map (\<lambda>b. encodeIntegerType (uint b)) s) @ [101]"])
       (simp_all add: encodeValue.simps Decode_list)
next
  case (d_ptr g v)
  then show ?case using encodeValue_indirect [of "GPtr (Some g)" g] by (simp add: transmits_def)
next
  case (d_iface g v)
  then show ?case using encodeValue_indirect [of "GIface (Some g)" g] by (simp add: transmits_def)
next
  case (d_slice gs vs)
  then have "list_all2 transmits gs vs" by (auto elim: list_all2_mono)
  then show ?case using list_transmits [of gs vs]
    by (auto simp: transmits_def encodeValue.simps wrap_def Decode_list)
next
  case (d_map kgs kvs)
  then have "list_all2 (rel_prod (=) transmits) (filter (\<lambda>(k, g). \<not> isNilValue g) (sort_key fst kgs)) kvs"
    by (auto elim!: list_all2_mono)
  moreover have "list_all (\<lambda>(k, g). length k < 2 ^ 31) (filter (\<lambda>(k, g). \<not> isNilValue g) (sort_key fst kgs))"
    using d_map by (auto simp: list_all_iff)
  ultimately show ?case using dict_transmits [where lk = None and m = "[]", OF _ sort_filter_keys]
    by (fastforce simp: transmits_def encodeValue.simps wrap_def Decode_dict mk_dict_def)
next
  case (d_struct fs kvs z)
  then have "list_all2 (rel_prod (=) transmits) (sort_key fst (readStruct fs)) kvs"
    by (auto elim!: list_all2_mono)
  moreover have "list_all (\<lambda>(k, g). length k < 2 ^ 31) (sort_key fst (readStruct fs))"
    using d_struct by (auto simp: list_all_iff)
  ultimately show ?case using dict_transmits [where lk = None and m = "[]"]
    by (fastforce simp: transmits_def encodeValue.simps wrap_def Decode_dict mk_dict_def)
next
  case (d_raw b v)
  then show ?case using Decode_extend [of True b v]
    by (intro transmitsI [of _ b]) (simp_all add: encodeValue.simps)
next
  case (d_marshaler b v z)
  then show ?case using Decode_extend [of True b v]
    by (intro transmitsI [of _ b]) (simp_all add: encodeValue.simps)
next
  case (d_text b z)
  then show ?case using Decode_encodeString [of b]
    by (intro transmitsI [of _ "encodeStringType b"]) (simp_all add: encodeValue.simps)
qed


text \<open>Strict decoding agrees with lenient decoding where it succeeds.\<close>

lemma decode_lenient:
  "(\<forall>bs v r. decodeInto f True bs = Inr (v, r) \<longrightarrow> decodeInto f False bs = Inr (v, r)) \<and>
   (\<forall>bs vs r. processListElements f True bs = Inr (vs, r) \<longrightarrow>
      processListElements f False bs = Inr (vs, r)) \<and>
   (\<forall>lk m bs m' r. processDictKeyValuePairs f True lk m bs = Inr (m', r) \<longrightarrow>
      processDictKeyValuePairs f False lk m bs = Inr (m', r))"
proof (induction f)
  case (Suc f)
  then have D: "\<And>bs v r. decodeInto f True bs = Inr (v, r) \<Longrightarrow> decodeInto f False bs = Inr (v, r)"
    and L: "\<And>bs vs r. processListElements f True bs = Inr (vs, r) \<Longrightarrow>
      processListElements f False bs = Inr (vs, r)"
    and P: "\<And>lk m bs m' r. processDictKeyValuePairs f True lk m bs = Inr (m', r) \<Longrightarrow>
      processDictKeyValuePairs f False lk m bs = Inr (m', r)"
    by blast+
  show ?case
  proof (intro conjI allI impI)
    fix bs v r assume "decodeInto (Suc f) True bs = Inr (v, r)"
    then show "decodeInto (Suc f) False bs = Inr (v, r)"
      by (cases rule: decodeInto_InrE) (auto simp: L P)
  next
    fix bs vs r assume "processListElements (Suc f) True bs = Inr (vs, r)"
    then show "processListElements (Suc f) False bs = Inr (vs, r)"
      by (cases rule: processListElements_InrE) (auto simp: D L)
  next
    fix lk m bs m' r assume "processDictKeyValuePairs (Suc f) True lk m bs = Inr (m', r)"
    then show "processDictKeyValuePairs (Suc f) False lk m bs = Inr (m', r)"
      by (cases rule: processDictKeyValuePairs_InrE) (auto simp: D P validateKeyOrder_def)
  qed
qed simp

lemma Decode_lenient: "Decode True bs = Inr (v, r) \<Longrightarrow> Decode fu bs = Inr (v, r)"
  using decode_lenient [of "fuel_for bs"] by (cases fu) (simp_all add: Decode_def)

text \<open>A decoded value as the \<^verbatim>\<open>interface{}\<close> the caller holds, and what strict decoding guarantees.\<close>

fun as_interface :: "bval \<Rightarrow> gval" where
  "as_interface (BInt i) = GIface (Some (GInt i))"
| "as_interface (BStr b) = GIface (Some (GString b))"
| "as_interface (BList vs) = GIface (Some (GSlice (map as_interface vs)))"
| "as_interface (BDict m) = GIface (Some (GMap (map (\<lambda>(k, v). (k, as_interface v)) m)))"

fun canonical :: "bval \<Rightarrow> bool" where
  "canonical (BInt i) \<longleftrightarrow> - (2 ^ 63) \<le> i \<and> i < 2 ^ 63"
| "canonical (BStr b) \<longleftrightarrow> length b < 2 ^ 31"
| "canonical (BList vs) \<longleftrightarrow> list_all canonical vs"
| "canonical (BDict m) \<longleftrightarrow> sorted_wrt (<) (map fst m) \<and>
     list_all (\<lambda>(k, v). length k < 2 ^ 31 \<and> canonical v) m"

lemma foldl_mput_append:
  "distinct (map fst (m @ kvs)) \<Longrightarrow> foldl (\<lambda>m (k, v). mput m k v) m kvs = m @ kvs"
proof (induction kvs arbitrary: m)
  case (Cons kv kvs)
  obtain k v where kv: "kv = (k, v)" by (cases kv)
  have "k \<notin> fst ` set m" using Cons(2) kv by auto
  then have "mput m k v = m @ [(k, v)]"
    unfolding mput_def by (induction m) auto
  then show ?case using Cons kv by simp
qed simp

lemma canonical_denotes: "canonical v \<Longrightarrow> denotes (as_interface v) v"
proof (induction v rule: canonical.induct)
  case (4 m)
  let ?g = "map (\<lambda>(k, v). (k, as_interface v)) m"
  have keys: "map fst ?g = map fst m" by auto
  have "sorted (map fst ?g)" unfolding keys using 4 by (simp add: strict_sorted_imp_sorted)
  then have srt: "sort_key fst ?g = ?g" by (rule sort_key_id_if_sorted)
  have "\<not> isNilValue (as_interface v)" for v by (cases v) (auto simp: isNilValue_def)
  then have "filter (\<lambda>(k, g). \<not> isNilValue g) (sort_key fst ?g) = ?g"
    by (auto simp: srt filter_id_conv)
  moreover have "list_all2 (rel_prod (=) denotes) ?g m"
    using 4 by (auto simp: list_all2_conv_all_nth list_all_iff rel_prod_conv split: prod.splits)
       (metis nth_mem snd_conv)
  moreover have "mk_dict m = m"
    using foldl_mput_append [of "[]" m] 4 by (simp add: mk_dict_def strict_sorted_iff)
  moreover have "list_all (\<lambda>(k, g). length k < 2 ^ 31) ?g" using 4 by (auto simp: list_all_iff)
  ultimately have "denotes (GMap ?g) (BDict m)"
    using denotes.d_map [of ?g m] by simp
  then show ?case by (auto intro: d_iface)
next
  case (3 vs)
  then show ?case
    by (auto intro!: d_iface d_slice simp: list_all2_conv_all_nth list_all_length)
qed (auto intro!: d_iface d_int [simplified] d_string [simplified])


lemma set_mput: "set (mput m k v) \<subseteq> insert (k, v) (set m)"
  unfolding mput_def by (induction m) auto

lemma strict_mput:
  fixes m :: "('k :: linorder, 'v) gomap"
  assumes "sorted_wrt (<) (map fst m)" "\<forall>k \<in> fst ` set m. k \<le> key"
  shows "sorted_wrt (<) (map fst (mput m key v))" "fst ` set (mput m key v) = insert key (fst ` set m)"
proof -
  show "sorted_wrt (<) (map fst (mput m key v))"
  proof (cases "key \<in> fst ` set m")
    case False
    then have "\<forall>k \<in> fst ` set m. k < key" using assms(2) by (metis le_neq_trans)
    then show ?thesis using assms(1) False by (simp add: mput_def update_keys sorted_wrt_append)
  qed (use assms in \<open>simp add: mput_def update_keys\<close>)
  show "fst ` set (mput m key v) = insert key (fst ` set m)"
    unfolding mput_def by (induction m) auto
qed

lemma decode_canonical:
  "(\<forall>bs v r. decodeInto f True bs = Inr (v, r) \<longrightarrow> canonical v) \<and>
   (\<forall>bs vs r. processListElements f True bs = Inr (vs, r) \<longrightarrow> list_all canonical vs) \<and>
   (\<forall>lk m bs m' r. processDictKeyValuePairs f True lk m bs = Inr (m', r) \<longrightarrow> canonical (BDict m) \<longrightarrow>
      (\<forall>k \<in> fst ` set m. \<exists>l. lk = Some l \<and> k \<le> l) \<longrightarrow> canonical (BDict m'))"
proof (induction f)
  case (Suc f)
  then have D: "\<And>bs v r. decodeInto f True bs = Inr (v, r) \<Longrightarrow> canonical v"
    and L: "\<And>bs vs r. processListElements f True bs = Inr (vs, r) \<Longrightarrow> list_all canonical vs"
    and P: "\<And>lk m bs m' r. processDictKeyValuePairs f True lk m bs = Inr (m', r) \<Longrightarrow> canonical (BDict m) \<Longrightarrow>
      \<forall>k \<in> fst ` set m. \<exists>l. lk = Some l \<and> k \<le> l \<Longrightarrow> canonical (BDict m')"
    by blast+
  show ?case
  proof (intro conjI allI impI)
    fix bs v r assume "decodeInto (Suc f) True bs = Inr (v, r)"
    then show "canonical v"
    proof (cases rule: decodeInto_InrE)
      case (dct r0 m)
      then show ?thesis using P [OF dct(2)] by simp
    qed (auto dest: L elim!: decodeInt_InrD decodeString_InrD)
  next
    fix bs vs r assume "processListElements (Suc f) True bs = Inr (vs, r)"
    then show "list_all canonical vs"
      by (cases rule: processListElements_InrE) (auto dest: D L)
  next
    fix lk m bs m' r
    assume m: "canonical (BDict m)" "\<forall>k \<in> fst ` set m. \<exists>l. lk = Some l \<and> k \<le> l"
    assume "processDictKeyValuePairs (Suc f) True lk m bs = Inr (m', r)"
    then show "canonical (BDict m')"
    proof (cases rule: processDictKeyValuePairs_InrE)
      case (pair c r0 key r1 v r2)
      have "length key < 2 ^ 31" using pair(3) by (rule decodeString_InrD)
      moreover have le: "\<forall>k \<in> fst ` set m. k \<le> key"
        using m(2) pair(4) by (force simp: validateKeyOrder_def not_less)
      moreover have "set (mput m key v) \<subseteq> insert (key, v) (set m)"
        by (rule set_mput)
      ultimately have "canonical (BDict (mput m key v))"
        using m(1) D [OF pair(5)] strict_mput(1) [of m key v] by (auto simp: list_all_iff)
      moreover have "\<forall>k \<in> fst ` set (mput m key v). \<exists>l. Some key = Some l \<and> k \<le> l"
        using strict_mput(2) [of m key v] m(1) le by auto
      ultimately show ?thesis by (rule P [OF pair(6)])
    qed (use m in simp)
  qed
qed simp

lemma Decode_canonical: "Decode True bs = Inr (v, r) \<Longrightarrow> canonical v"
  using decode_canonical [of "fuel_for bs"] unfolding Decode_def by blast

text \<open>Raw mode walks over every value that decodes, and keeps exactly its bytes.\<close>

lemma raw_follows:
  "(\<forall>bs v r. decodeInto f fu bs = Inr (v, r) \<longrightarrow> (\<exists>p. bs = p @ r \<and> raw_into f bs = Inr (p, r))) \<and>
   (\<forall>bs vs r. processListElements f fu bs = Inr (vs, r) \<longrightarrow>
      (\<exists>p. bs = p @ r \<and> processListInRawMode f bs = Inr (p, r))) \<and>
   (\<forall>lk m bs m' r. processDictKeyValuePairs f fu lk m bs = Inr (m', r) \<longrightarrow>
      (\<exists>p. bs = p @ r \<and> processDictInRawMode f bs = Inr (p, r)))"
proof (induction f)
  case (Suc f)
  then have D: "\<And>bs v r. decodeInto f fu bs = Inr (v, r) \<Longrightarrow> \<exists>p. bs = p @ r \<and> raw_into f bs = Inr (p, r)"
    and L: "\<And>bs vs r. processListElements f fu bs = Inr (vs, r) \<Longrightarrow>
      \<exists>p. bs = p @ r \<and> processListInRawMode f bs = Inr (p, r)"
    and P: "\<And>lk m bs m' r. processDictKeyValuePairs f fu lk m bs = Inr (m', r) \<Longrightarrow>
      \<exists>p. bs = p @ r \<and> processDictInRawMode f bs = Inr (p, r)"
    by blast+
  show ?case
  proof (intro conjI allI impI)
    fix bs v r assume "decodeInto (Suc f) fu bs = Inr (v, r)"
    then show "\<exists>p. bs = p @ r \<and> raw_into (Suc f) bs = Inr (p, r)"
    proof (cases rule: decodeInto_InrE)
      case (str c r0 b)
      from str(4) show ?thesis using str by (elim decodeString_InrD) auto
    qed (auto dest: L P elim!: decodeInt_InrD)
  next
    fix bs vs r assume "processListElements (Suc f) fu bs = Inr (vs, r)"
    then show "\<exists>p. bs = p @ r \<and> processListInRawMode (Suc f) bs = Inr (p, r)"
    proof (cases rule: processListElements_InrE)
      case (elem c r0 v r1 vs')
      then show ?thesis using D [OF elem(3)] L [OF elem(4)] by auto
    qed simp
  next
    fix lk m bs m' r assume "processDictKeyValuePairs (Suc f) fu lk m bs = Inr (m', r)"
    then show "\<exists>p. bs = p @ r \<and> processDictInRawMode (Suc f) bs = Inr (p, r)"
    proof (cases rule: processDictKeyValuePairs_InrE)
      case (pair c r0 key r1 v r2)
      from pair(3) obtain p where p: "bs = p @ r1" "raw_string bs = Inr (p, r1)"
        by (rule decodeString_InrD)
      obtain q where q: "r1 = q @ r2" "raw_into f r1 = Inr (q, r2)" using D [OF pair(5)] by blast
      obtain t where t: "r2 = t @ r" "processDictInRawMode f r2 = Inr (t, r)"
        using P [OF pair(6)] by blast
      have "processDictInRawMode (Suc f) bs = Inr (p @ q @ t, r)"
        using pair(1,2) p(2) q(2) t(2) by simp
      then show ?thesis using p(1) q(1) t(1) by auto
    qed simp
  qed
qed simp

lemma DecodeRaw_follows: "Decode fu bs = Inr (v, r) \<Longrightarrow> \<exists>p. bs = p @ r \<and> DecodeRaw bs = Inr (p, r)"
  using raw_follows [of "fuel_for bs" fu] by (simp add: Decode_def DecodeRaw_def)


lemma list_all2_insort:
  "list_all2 (rel_prod (=) R) xs ys \<Longrightarrow> rel_prod (=) R x y \<Longrightarrow>
   list_all2 (rel_prod (=) R) (insort_key fst x xs) (insort_key fst y ys)"
  by (induction rule: list_all2_induct) (auto simp: rel_prod_conv split: prod.splits)

lemma list_all2_sort:
  "list_all2 (rel_prod (=) R) xs ys \<Longrightarrow>
   list_all2 (rel_prod (=) R) (sort_key fst xs) (sort_key fst ys)"
  by (induction rule: list_all2_induct) (auto intro: list_all2_insort)

lemma mk_dict_distinct: "distinct (map fst kvs) \<Longrightarrow> mk_dict kvs = kvs"
  using foldl_mput_append [of "[]" kvs] by (simp add: mk_dict_def)

text \<open>A struct denotes the dictionary of its fields, in sorted order.\<close>

lemma struct_denotes:
  assumes "list_all2 (rel_prod (=) denotes) (readStruct fs) kvs" "distinct (map fst kvs)"
    "list_all (\<lambda>(k, v). length k < 2 ^ 31) kvs"
  shows "denotes (GStruct z fs) (BDict (sort_key fst kvs))" "map_of (sort_key fst kvs) = map_of kvs"
proof -
  have d: "distinct (map fst (sort_key fst kvs))"
    using assms(2) by (simp add: distinct_map)
  have "list_all (\<lambda>(k, g). length k < 2 ^ 31) (readStruct fs)"
    using assms(1,3) by (induction rule: list_all2_induct) (auto simp: rel_prod_conv split: prod.splits)
  from d_struct [OF list_all2_sort [OF assms(1)] this]
  show "denotes (GStruct z fs) (BDict (sort_key fst kvs))" by (simp add: mk_dict_distinct [OF d])
  show "map_of (sort_key fst kvs) = map_of kvs"
    using d assms(2) by (subst map_of_inject_set) auto
qed

lemma split_comma_plain: "44 \<notin> set t \<Longrightarrow> split_comma t = None"
  by (induction t) auto

lemma split_comma_append: "44 \<notin> set t \<Longrightarrow> split_comma (t @ 44 # rest) = Some (t, rest)"
  by (induction t) auto

lemma field_plain:
  "44 \<notin> set t \<Longrightarrow> isValidTag t \<Longrightarrow> t \<noteq> ascii ''-'' \<Longrightarrow> processFieldTag (GField n t e a v) = Some t"
  by (auto simp: processFieldTag_def parseTag_def split_comma_plain isValidTag_def
      tagOptions_Contains.simps)

lemma field_omitempty:
  assumes "44 \<notin> set t" "isValidTag t"
  shows "processFieldTag (GField n (t @ 44 # ascii ''omitempty'') e a v) =
    (if isEmptyValue v then None else Some t)"
proof -
  have "tagOptions_Contains (ascii ''omitempty'') (ascii ''omitempty'')" by code_simp
  moreover have "t \<noteq> []" using assms(2) by (auto simp: isValidTag_def)
  then have "t @ 44 # ascii ''omitempty'' \<noteq> ascii ''-''" by (cases t) (auto simp: ascii_def)
  ultimately show ?thesis
    using assms split_comma_append [OF assms(1)] by (simp add: processFieldTag_def parseTag_def)
qed

lemma readStruct_field:
  "t \<noteq> [] \<Longrightarrow> \<not> isNilValue v \<Longrightarrow>
   readStruct (GField n t True a v # fs) =
     (case processFieldTag (GField n t True a v) of None \<Rightarrow> [] | Some k \<Rightarrow> [(k, v)]) @ readStruct fs"
  by (simp add: shouldProcessField_def shouldEmbedAnonymousStruct_def split: option.split)

section \<open>Properties\<close>

text \<open>C5: A Go value that stands for a bencode value, with its maps and structs sorted, empty and
  nil fields left out, pointers and interfaces followed and marshalers called, is encoded without
  error, and the decoder, strict or lenient about the order of keys, reads exactly that value back
  and stops at the byte after it.\<close>

theorem encode_decode:
  assumes "denotes g v"
  shows "\<exists>b. encodeValue g = Inr b \<and> (\<forall>s fu. Decode fu (b @ s) = Inr (v, s))"
  using denotes_transmits [OF assms] unfolding transmits_def by (blast intro: Decode_lenient)

theorem encode_decode_witness:
  "\<exists>b. encodeValue (GStruct False
      [GField (ascii ''Zed'') (ascii ''z'') True False (GSlice [GInt 7, GUint 8]),
       GField (ascii ''Opt'') (ascii ''o,omitempty'') True False (GString []),
       GField (ascii ''Name'') [] True False (GPtr (Some (GString (ascii ''x''))))]) = Inr b \<and>
     (\<forall>s fu. Decode fu (b @ s) =
        Inr (BDict [(ascii ''Name'', BStr (ascii ''x'')), (ascii ''z'', BList [BInt 7, BInt 8])], s))"
proof (rule encode_decode)
  let ?fs = "[GField (ascii ''Zed'') (ascii ''z'') True False (GSlice [GInt 7, GUint 8]),
       GField (ascii ''Opt'') (ascii ''o,omitempty'') True False (GString []),
       GField (ascii ''Name'') [] True False (GPtr (Some (GString (ascii ''x''))))]"
  let ?kvs = "[(ascii ''Name'', BStr (ascii ''x'')), (ascii ''z'', BList [BInt 7, BInt 8])]"
  have r: "readStruct ?fs = [(ascii ''z'', GSlice [GInt 7, GUint 8]),
      (ascii ''Name'', GPtr (Some (GString (ascii ''x''))))]" by code_simp
  have k: "sort_key fst (readStruct ?fs) = [(ascii ''Name'', GPtr (Some (GString (ascii ''x'')))),
      (ascii ''z'', GSlice [GInt 7, GUint 8])]" unfolding r by code_simp
  have s: "denotes (GPtr (Some (GString (ascii ''x'')))) (BStr (ascii ''x''))"
    by (intro d_ptr d_string) (simp_all add: ascii_def)
  have "denotes (GInt 7) (BInt 7)" "denotes (GUint 8) (BInt 8)"
    using d_int [of 7] d_uint [of 8] by simp_all
  then have l: "denotes (GSlice [GInt 7, GUint 8]) (BList [BInt 7, BInt 8])"
    by (intro d_slice) simp
  have "denotes (GStruct False ?fs) (BDict (mk_dict ?kvs))"
  proof (rule d_struct)
    show "list_all2 (rel_prod (=) denotes) (sort_key fst (readStruct ?fs)) ?kvs"
      unfolding k using s l by simp
    show "list_all (\<lambda>(k, g). length k < 2 ^ 31) (readStruct ?fs)"
      unfolding r by (simp add: ascii_def)
  qed
  moreover have "mk_dict ?kvs = ?kvs" by code_simp
  ultimately show "denotes (GStruct False ?fs) (BDict ?kvs)" by simp
qed

text \<open>C22: The decoder always comes to an end with a value or one of its errors, whatever the input:
  the fuel of the model is never exhausted. When it succeeds it has read at least one byte, what it
  leaves is the rest of the input, and what follows on the stream has no influence.\<close>

theorem decode_terminates:
  "Decode fu bs \<noteq> Inl OutOfFuel \<and>
   (\<forall>v r. Decode fu bs = Inr (v, r) \<longrightarrow>
      (\<exists>p. p \<noteq> [] \<and> bs = p @ r \<and> (\<forall>s. Decode fu (p @ s) = Inr (v, s))))"
  using Decode_fuel [of fu bs] Decode_prefix [of fu bs] by blast

theorem decode_terminates_witness:
  "Decode True (ascii ''li1eexyz'') = Inr (BList [BInt 1], ascii ''xyz'') \<and>
   (\<exists>p. p \<noteq> [] \<and> ascii ''li1eexyz'' = p @ ascii ''xyz'' \<and>
      (\<forall>s. Decode True (p @ s) = Inr (BList [BInt 1], s)))"
proof -
  have "Decode True (ascii ''li1eexyz'') = Inr (BList [BInt 1], ascii ''xyz'')"
    by (simp add: decode_eval ascii_def)
  then show ?thesis using decode_terminates [of True "ascii ''li1eexyz''"] by blast
qed

text \<open>Decoding is stable under re-encoding: what the strict decoder returned, held as an
  \<^verbatim>\<open>interface{}\<close>, is encoded without error, and decoding that gives the same value again.\<close>

theorem decode_encode_decode:
  assumes "Decode True bs = Inr (v, r)"
  shows "\<exists>b. encodeValue (as_interface v) = Inr b \<and> (\<forall>s. Decode True (b @ s) = Inr (v, s))"
  using denotes_transmits [OF canonical_denotes [OF Decode_canonical [OF assms]]]
  by (simp add: transmits_def)

theorem decode_encode_decode_witness:
  "Decode True (ascii ''d1:ai007e1:a3:xyzezz'') = Inr (BDict [(ascii ''a'', BStr (ascii ''xyz''))], ascii ''zz'') \<and>
   (\<exists>b. encodeValue (as_interface (BDict [(ascii ''a'', BStr (ascii ''xyz''))])) = Inr b \<and>
      (\<forall>s. Decode True (b @ s) = Inr (BDict [(ascii ''a'', BStr (ascii ''xyz''))], s)))"
proof -
  have *: "Decode True (ascii ''d1:ai007e1:a3:xyzezz'') =
      Inr (BDict [(ascii ''a'', BStr (ascii ''xyz''))], ascii ''zz'')"
    by (simp add: decode_eval ascii_def)
  show ?thesis using * decode_encode_decode [OF *] by blast
qed

text \<open>C32: A \<^verbatim>\<open>RawMessage\<close>, and the argument of every \<^verbatim>\<open>UnmarshalBencode\<close> method, is exactly the
  bytes that decoding the same value consumes, the decoder continues at the same place, and
  encoding the raw message writes these bytes back.\<close>

theorem raw_message_exact:
  assumes "Decode fu bs = Inr (v, r)"
  shows "\<exists>p. bs = p @ r \<and> DecodeRaw bs = Inr (p, r) \<and> encodeValue (GRaw p) = Inr p"
  using DecodeRaw_follows [OF assms] by (auto simp: encodeValue.simps)

theorem raw_message_exact_witness:
  "Decode False (ascii ''d1:bi1e1:a0:e!'') =
     Inr (BDict [(ascii ''b'', BInt 1), (ascii ''a'', BStr [])], ascii ''!'') \<and>
   (\<exists>p. ascii ''d1:bi1e1:a0:e!'' = p @ ascii ''!'' \<and>
      DecodeRaw (ascii ''d1:bi1e1:a0:e!'') = Inr (p, ascii ''!'') \<and> encodeValue (GRaw p) = Inr p)"
proof -
  have *: "Decode False (ascii ''d1:bi1e1:a0:e!'') =
     Inr (BDict [(ascii ''b'', BInt 1), (ascii ''a'', BStr [])], ascii ''!'')"
    by (simp add: decode_eval ascii_def)
  show ?thesis using * raw_message_exact [OF *] by blast
qed

end
