(* ===== verification/Address.thy ===== *)
theory Address
  imports Bencode
begin

text \<open>
  Network addresses: \<^verbatim>\<open>metainfo/address.go\<close> and \<^verbatim>\<open>utils/addr.go\<close>, over a datatype of the
  \<^verbatim>\<open>net.Addr\<close> implementations they distinguish. The functions of \<^verbatim>\<open>net\<close> they use (\<^verbatim>\<open>IP.To4\<close>,
  \<^verbatim>\<open>IP.To16\<close>, \<^verbatim>\<open>IP.String\<close>, \<^verbatim>\<open>JoinHostPort\<close>, \<^verbatim>\<open>SplitHostPort\<close>) are written out. The I2P address
  type is code of another module and is an argument \<open>L\<close> of the definitions.
\<close>

section \<open>Package net\<close>

type_synonym ip = bytes

datatype netaddr =
    NilAddr
  | IPAddr ip
  | UDPAddr ip int
  | TCPAddr ip int
  | I2PAddr bytes
  | I2PAddrPtr bytes
  | OtherAddr bytes

record i2p_lib =
  i2p_String :: "bytes \<Rightarrow> bytes"
  i2p_ToBytes :: "bytes \<Rightarrow> bytes option"
  i2p_FromBytes :: "bytes \<Rightarrow> bytes option"
  i2p_DestHash :: "bytes \<Rightarrow> bytes"

definition v4InV6Prefix :: bytes where
  "v4InV6Prefix = replicate 10 0 @ [255, 255]"

text \<open>The nil IP that Go returns for an address of the other family is the empty list.\<close>

definition IP_To4 :: "ip \<Rightarrow> ip" where
  "IP_To4 p =
     (if length p = 4 then p
      else if length p = 16 \<and> take 12 p = v4InV6Prefix then drop 12 p
      else [])"

definition IP_To16 :: "ip \<Rightarrow> ip" where
  "IP_To16 p =
     (if length p = 4 then v4InV6Prefix @ p
      else if length p = 16 then p
      else [])"

fun join_with :: "bytes \<Rightarrow> bytes list \<Rightarrow> bytes" where
  "join_with sep [] = []"
| "join_with sep [x] = x"
| "join_with sep (x # y # ys) = x @ sep @ join_with sep (y # ys)"

fun hex_nat :: "nat \<Rightarrow> bytes" where
  "hex_nat n = (if n < 16 then [hexdigit n] else hex_nat (n div 16) @ [hexdigit (n mod 16)])"

declare hex_nat.simps [simp del]

text \<open>The first longest run of zero groups, as its start and length.\<close>

definition zero_run :: "nat list \<Rightarrow> nat \<Rightarrow> nat" where
  "zero_run g i = length (takeWhile (\<lambda>x. x = 0) (drop i g))"

fun best_run :: "nat list \<Rightarrow> nat \<Rightarrow> nat \<Rightarrow> nat \<times> nat \<Rightarrow> nat \<times> nat" where
  "best_run g i 0 best = best"
| "best_run g i (Suc k) best =
     best_run g (Suc i) k (if snd best < zero_run g i then (i, zero_run g i) else best)"

definition IPv6_String :: "ip \<Rightarrow> bytes" where
  "IPv6_String p =
     (let g = map be_get (chunks 2 p); (e0, n) = best_run g 0 8 (0, 0)
      in if n < 2 then join_with [58] (map hex_nat g)
         else join_with [58] (map hex_nat (take e0 g)) @ [58, 58] @
              join_with [58] (map hex_nat (drop (e0 + n) g)))"

definition IP_String :: "ip \<Rightarrow> bytes" where
  "IP_String p =
     (if p = [] then ascii ''<nil>''
      else if length p \<noteq> 4 \<and> length p \<noteq> 16 then 63 # hex_encode p
      else if IP_To4 p \<noteq> [] then join_with [46] (map (\<lambda>b. dec_nat (unat b)) (IP_To4 p))
      else IPv6_String p)"

definition ipEmptyString :: "ip \<Rightarrow> bytes" where
  "ipEmptyString p = (if p = [] then [] else IP_String p)"

definition JoinHostPort :: "bytes \<Rightarrow> bytes \<Rightarrow> bytes" where
  "JoinHostPort host port =
     (if 58 \<in> set host then [91] @ host @ [93, 58] @ port else host @ [58] @ port)"

text \<open>
  \<^verbatim>\<open>net.SplitHostPort\<close>: the last colon separates the port; a host that starts with a bracket
  ends at the first closing one, which must stand before that colon; other hosts have no colon
  and no bracket. \<open>None\<close> is an error.
\<close>

fun last_index :: "byte \<Rightarrow> bytes \<Rightarrow> nat option" where
  "last_index c [] = None"
| "last_index c (x # xs) =
     (case last_index c xs of Some i \<Rightarrow> Some (Suc i) | None \<Rightarrow> if x = c then Some 0 else None)"

fun first_index :: "byte \<Rightarrow> bytes \<Rightarrow> nat option" where
  "first_index c [] = None"
| "first_index c (x # xs) =
     (if x = c then Some 0 else case first_index c xs of None \<Rightarrow> None | Some i \<Rightarrow> Some (Suc i))"

definition SplitHostPort :: "bytes \<Rightarrow> (bytes \<times> bytes) option" where
  "SplitHostPort s =
     (case last_index 58 s of
        None \<Rightarrow> None
      | Some i \<Rightarrow>
          if take 1 s = [91] then
            (case first_index 93 s of
               None \<Rightarrow> None
             | Some e \<Rightarrow>
                 if e + 1 \<noteq> i then None
                 else let host = take (e - 1) (drop 1 s)
                      in if 91 \<in> set (drop 1 s) \<or> 93 \<in> set (drop (e + 1) s) then None
                         else Some (host, drop (i + 1) s))
          else let host = take i s
               in if 58 \<in> set host then None
                  else if 91 \<in> set s \<or> 93 \<in> set s then None
                  else Some (host, drop (i + 1) s))"

text \<open>Calling \<^verbatim>\<open>String\<close> on the nil interface panics: \<open>None\<close>.\<close>

definition Addr_String :: "i2p_lib \<Rightarrow> netaddr \<Rightarrow> bytes option" where
  "Addr_String L a =
     (case a of
        NilAddr \<Rightarrow> None
      | IPAddr p \<Rightarrow> Some (ipEmptyString p)
      | UDPAddr p port \<Rightarrow> Some (JoinHostPort (ipEmptyString p) (dec_int port))
      | TCPAddr p port \<Rightarrow> Some (JoinHostPort (ipEmptyString p) (dec_int port))
      | I2PAddr d \<Rightarrow> Some (i2p_String L d)
      | I2PAddrPtr d \<Rightarrow> Some (i2p_String L d)
      | OtherAddr s \<Rightarrow> Some s)"

section \<open>utils/addr.go\<close>

definition utils_IPAddr :: "i2p_lib \<Rightarrow> netaddr \<Rightarrow> bytes option" where
  "utils_IPAddr L a =
     (case a of
        TCPAddr p _ \<Rightarrow> Some (IP_String p)
      | UDPAddr p _ \<Rightarrow> Some (IP_String p)
      | I2PAddr d \<Rightarrow> Some (i2p_DestHash L d)
      | I2PAddrPtr d \<Rightarrow> Some (i2p_DestHash L d)
      | _ \<Rightarrow>
          (case Addr_String L a of
             None \<Rightarrow> None
           | Some s \<Rightarrow> (case SplitHostPort s of None \<Rightarrow> Some [] | Some (host, _) \<Rightarrow> Some host)))"

text \<open>\<^verbatim>\<open>strconv.Atoi\<close> is \<^verbatim>\<open>ParseInt\<close> at the width of int.\<close>

definition utils_Port :: "i2p_lib \<Rightarrow> netaddr \<Rightarrow> int option" where
  "utils_Port L a =
     (case a of
        TCPAddr _ port \<Rightarrow> Some port
      | UDPAddr _ port \<Rightarrow> Some port
      | I2PAddr _ \<Rightarrow> Some 6881
      | I2PAddrPtr _ \<Rightarrow> Some 6881
      | _ \<Rightarrow>
          (case Addr_String L a of
             None \<Rightarrow> None
           | Some s \<Rightarrow>
               (case SplitHostPort s of
                  None \<Rightarrow> Some 0
                | Some (_, port) \<Rightarrow> (case ParseInt 64 port of Inl _ \<Rightarrow> Some 0 | Inr i \<Rightarrow> Some i))))"

definition IsIPv6Addr :: "netaddr \<Rightarrow> bool" where
  "IsIPv6Addr a =
     (case a of
        UDPAddr p _ \<Rightarrow> IP_To4 p = []
      | TCPAddr p _ \<Rightarrow> IP_To4 p = []
      | IPAddr p \<Rightarrow> IP_To4 p = []
      | _ \<Rightarrow> False)"

definition IpIsZero :: "ip \<Rightarrow> bool" where
  "IpIsZero p \<longleftrightarrow> list_all (\<lambda>b. b = 0) p"

section \<open>metainfo/address.go\<close>

record address =
  IP :: netaddr
  Port :: u16

text \<open>What \<^verbatim>\<open>NewAddress\<close> is called with: an IP, or one of the address types.\<close>

datatype ip_arg = ArgIP ip | ArgAddr netaddr

definition NewAddress :: "ip_arg \<Rightarrow> u16 \<Rightarrow> address" where
  "NewAddress v port =
     (case v of
        ArgIP p \<Rightarrow> \<lparr>IP = IPAddr p, Port = port\<rparr>
      | ArgAddr (IPAddr p) \<Rightarrow> \<lparr>IP = IPAddr p, Port = port\<rparr>
      | ArgAddr (I2PAddr d) \<Rightarrow> \<lparr>IP = I2PAddr d, Port = port\<rparr>
      | _ \<Rightarrow> \<lparr>IP = NilAddr, Port = 0\<rparr>)"

definition Address_FromAddr :: "i2p_lib \<Rightarrow> netaddr \<Rightarrow> address option" where
  "Address_FromAddr L ua =
     (case utils_Port L ua of None \<Rightarrow> None | Some p \<Rightarrow> Some \<lparr>IP = ua, Port = of_int p\<rparr>)"

definition Address_Addr :: "address \<Rightarrow> netaddr" where
  "Address_Addr a =
     (case IP a of
        IPAddr p \<Rightarrow> UDPAddr p (uint (Port a))
      | UDPAddr p _ \<Rightarrow> UDPAddr p (uint (Port a))
      | I2PAddrPtr d \<Rightarrow> I2PAddrPtr d
      | I2PAddr d \<Rightarrow> I2PAddrPtr d
      | _ \<Rightarrow> NilAddr)"

definition Address_IsIPv6 :: "address \<Rightarrow> bool" where
  "Address_IsIPv6 a =
     (case IP a of
        IPAddr p \<Rightarrow> IP_To4 p = []
      | UDPAddr p _ \<Rightarrow> IP_To4 p = []
      | _ \<Rightarrow> False)"

definition Address_To4 :: "address \<Rightarrow> netaddr" where
  "Address_To4 a =
     (case IP a of
        IPAddr p \<Rightarrow> IPAddr (IP_To4 p)
      | UDPAddr p _ \<Rightarrow> IPAddr (IP_To4 p)
      | _ \<Rightarrow> IPAddr [127, 0, 0, 1])"

definition Address_To16 :: "address \<Rightarrow> netaddr" where
  "Address_To16 a =
     (case IP a of
        IPAddr p \<Rightarrow> IPAddr (IP_To16 p)
      | UDPAddr p _ \<Rightarrow> IPAddr (IP_To16 p)
      | _ \<Rightarrow> IPAddr (replicate 15 0 @ [1]))"

definition Address_String :: "i2p_lib \<Rightarrow> address \<Rightarrow> bytes option" where
  "Address_String L a =
     (case Addr_String L (IP a) of
        None \<Rightarrow> None
      | Some s \<Rightarrow> Some (if Port a = 0 then s else JoinHostPort s (dec_nat (unat (Port a)))))"

text \<open>\<^verbatim>\<open>a.Port == o.Port && a.IP.String() == o.IP.String()\<close>, the second part only if the first holds.\<close>

definition Address_Equal :: "i2p_lib \<Rightarrow> address \<Rightarrow> address \<Rightarrow> bool option" where
  "Address_Equal L a b =
     (if Port a \<noteq> Port b then Some False
      else case (Addr_String L (IP a), Addr_String L (IP b)) of
             (Some s, Some t) \<Rightarrow> Some (s = t)
           | _ \<Rightarrow> None)"

definition Address_HasIPAndPort ::
  "i2p_lib \<Rightarrow> address \<Rightarrow> netaddr \<Rightarrow> u16 \<Rightarrow> bool option" where
  "Address_HasIPAndPort L a ip port =
     (if port \<noteq> Port a then Some False
      else case (Addr_String L (IP a), Addr_String L ip) of
             (Some s, Some t) \<Rightarrow> Some (s = t)
           | _ \<Rightarrow> None)"

datatype address_error = ErrInvalidAddr | I2PError | ShortBuffer | BadLength nat

definition Address_WriteBinary :: "i2p_lib \<Rightarrow> address \<Rightarrow> address_error + bytes" where
  "Address_WriteBinary L a =
     (case IP a of
        IPAddr p \<Rightarrow> Inr (p @ put_u16 (Port a))
      | UDPAddr p _ \<Rightarrow> Inr (p @ put_u16 (Port a))
      | I2PAddr d \<Rightarrow>
          (case i2p_ToBytes L d of None \<Rightarrow> Inl I2PError | Some b \<Rightarrow> Inr (b @ put_u16 (Port a)))
      | _ \<Rightarrow> Inr (put_u16 (Port a)))"

definition Address_UnmarshalBinary :: "i2p_lib \<Rightarrow> bytes \<Rightarrow> address_error + address" where
  "Address_UnmarshalBinary L b =
     (if length b \<le> 18 then
        (if length b = 6 \<or> length b = 18
         then Inr \<lparr>IP = IPAddr (take (length b - 2) b),
                   Port = of_nat (be_get (drop (length b - 2) b))\<rparr>
         else Inl ErrInvalidAddr)
      else (case i2p_FromBytes L b of
              None \<Rightarrow> Inl I2PError
            | Some d \<Rightarrow> Inr \<lparr>IP = I2PAddr d, Port = 6881\<rparr>))"

definition Address_MarshalBinary :: "i2p_lib \<Rightarrow> address \<Rightarrow> address_error + bytes" where
  "Address_MarshalBinary = Address_WriteBinary"

definition Address_MarshalBencode :: "i2p_lib \<Rightarrow> address \<Rightarrow> (bencode_error + bytes) option" where
  "Address_MarshalBencode L a =
     (case Addr_String L (IP a) of
        None \<Rightarrow> None
      | Some s \<Rightarrow> Some (encodeValue (GSlice [GIface (Some (GString s)), GIface (Some (GUint (unat (Port a))))])))"

text \<open>\<^verbatim>\<open>ConvertAddress\<close>: \<^verbatim>\<open>NewAddress\<close> only knows IPs and I2P addresses.\<close>

definition ConvertAddress :: "netaddr \<Rightarrow> address option" where
  "ConvertAddress addr =
     (case addr of
        TCPAddr p port \<Rightarrow> Some (NewAddress (ArgAddr addr) (of_int port))
      | UDPAddr p port \<Rightarrow> Some (NewAddress (ArgAddr addr) (of_int port))
      | I2PAddrPtr d \<Rightarrow> Some (NewAddress (ArgAddr addr) 6881)
      | I2PAddr d \<Rightarrow> Some (NewAddress (ArgAddr addr) 6881)
      | _ \<Rightarrow> None)"

subsection \<open>Host addresses\<close>

record host_address =
  Host :: bytes
  HPort :: u16

datatype host_error = InvalidAddress | MissingHost | Panicked | UnsupportedType | BadBencode bencode_error

text \<open>The receiver's port is kept when the string has an empty one.\<close>

definition HostAddress_FromString :: "host_address \<Rightarrow> bytes \<Rightarrow> host_error + host_address" where
  "HostAddress_FromString a addr =
     (case SplitHostPort addr of
        None \<Rightarrow> Inl InvalidAddress
      | Some (host, port) \<Rightarrow>
          if host = [] then Inl MissingHost
          else if port = [] then Inr (a\<lparr>Host := host\<rparr>)
          else (case ParseUint 16 port of
                  Inl _ \<Rightarrow> Inl InvalidAddress
                | Inr v \<Rightarrow> Inr (a\<lparr>HPort := of_nat v, Host := host\<rparr>)))"

definition HostAddress_String :: "host_address \<Rightarrow> bytes" where
  "HostAddress_String a =
     (if HPort a = 0 then Host a else JoinHostPort (Host a) (dec_nat (unat (HPort a))))"

definition HostAddress_Equal :: "host_address \<Rightarrow> host_address \<Rightarrow> bool" where
  "HostAddress_Equal a b \<longleftrightarrow> HPort a = HPort b \<and> Host a = Host b"

text \<open>A missing element or one of the wrong type panics, and the panic becomes the error.\<close>

definition HostAddress_decode :: "host_address \<Rightarrow> bval list \<Rightarrow> host_error + host_address" where
  "HostAddress_decode a vs =
     (case vs of
        BStr h # BInt p # _ \<Rightarrow> Inr (a\<lparr>Host := h, HPort := of_int p\<rparr>)
      | _ \<Rightarrow> Inl Panicked)"

definition HostAddress_UnmarshalBencode :: "host_address \<Rightarrow> bytes \<Rightarrow> host_error + host_address" where
  "HostAddress_UnmarshalBencode a b =
     (case Decode False b of
        Inl e \<Rightarrow> Inl (BadBencode e)
      | Inr (BStr v, _) \<Rightarrow> HostAddress_FromString a v
      | Inr (BList vs, _) \<Rightarrow> HostAddress_decode a vs
      | Inr _ \<Rightarrow> Inl UnsupportedType)"

definition HostAddress_MarshalBencode :: "host_address \<Rightarrow> bencode_error + bytes" where
  "HostAddress_MarshalBencode a =
     encodeValue (GSlice [GIface (Some (GString (Host a))), GIface (Some (GUint (unat (HPort a))))])"

section \<open>Facts\<close>

lemma last_index_append: "c \<notin> set ys \<Longrightarrow> last_index c (xs @ c # ys) = Some (length xs)"
proof (induction xs)
  case Nil
  then have "last_index c ys = None" by (induction ys) auto
  then show ?case by simp
qed simp

lemma first_index_append: "c \<notin> set xs \<Longrightarrow> first_index c (xs @ c # ys) = Some (length xs)"
  by (induction xs) auto

text \<open>\<^verbatim>\<open>SplitHostPort\<close> undoes \<^verbatim>\<open>JoinHostPort\<close>, brackets around an IPv6 literal included.\<close>

lemma Split_Join:
  assumes "91 \<notin> set host" "93 \<notin> set host" "58 \<notin> set port" "91 \<notin> set port" "93 \<notin> set port"
  shows "SplitHostPort (JoinHostPort host port) = Some (host, port)"
proof (cases "58 \<in> set host")
  case True
  have "last_index 58 (([91] @ host @ [93]) @ 58 # port) = Some (length host + 2)"
    using last_index_append [OF assms(3), of "[91] @ host @ [93]"] by simp
  moreover have "first_index 93 (([91] @ host) @ 93 # 58 # port) = Some (length host + 1)"
    using first_index_append [of 93 "[91] @ host" "58 # port"] assms(2) by simp
  ultimately show ?thesis using True assms by (simp add: SplitHostPort_def JoinHostPort_def)
next
  case False
  have "last_index 58 (host @ 58 # port) = Some (length host)"
    using last_index_append [OF assms(3)] .
  moreover have "take 1 (host @ 58 # port) \<noteq> [91]" using assms(1) by (cases host) auto
  ultimately show ?thesis using False assms by (simp add: SplitHostPort_def JoinHostPort_def)
qed

lemma dec_nat_plain: "58 \<notin> set (dec_nat n)" "91 \<notin> set (dec_nat n)" "93 \<notin> set (dec_nat n)"
  by (auto dest: set_dec_nat)

lemma length_put_u16 [simp]: "length (put_u16 x) = 2"
  by (rule length_put)

lemma be_get_put_u16 [simp]: "of_nat (be_get (put_u16 x)) = x"
  using get_put_u16 [of x "[]"] by (simp add: get_u16_def take_exact_def)

lemma Address_unmarshal:
  "length p = 4 \<or> length p = 16 \<Longrightarrow>
   Address_UnmarshalBinary L (p @ put_u16 port) = Inr \<lparr>IP = IPAddr p, Port = port\<rparr>"
  by (auto simp: Address_UnmarshalBinary_def)

text \<open>The pair of a host and a port as it is encoded.\<close>

lemma pair_denotes:
  assumes "length h < 2 ^ 31"
  shows "denotes (GSlice [GIface (Some (GString h)), GIface (Some (GUint (unat (port :: u16))))])
    (BList [BStr h, BInt (int (unat port))])"
proof -
  have "unat port < 2 ^ 63" using unsigned_less [of port, where ?'a = nat] by simp
  then have "denotes (GIface (Some (GUint (unat port)))) (BInt (int (unat port)))"
    by (rule d_iface [OF d_uint]) simp
  moreover have "denotes (GIface (Some (GString h))) (BStr h)"
    using assms by (rule d_iface [OF d_string]) simp
  ultimately show ?thesis by (intro d_slice) simp
qed

section \<open>Properties\<close>

text \<open>A host address survives both its encodings: parsing its text form, in which an IPv6
  host stands in brackets, gives it back, and so does decoding its bencoded pair.\<close>

theorem host_address_roundtrip:
  assumes "Host a \<noteq> []" "91 \<notin> set (Host a)" "93 \<notin> set (Host a)" "HPort a \<noteq> 0"
    "length (Host a) < 2 ^ 31"
  shows "HostAddress_FromString z (HostAddress_String a) = Inr (z\<lparr>HPort := HPort a, Host := Host a\<rparr>) \<and>
    (\<exists>b. HostAddress_MarshalBencode a = Inr b \<and>
       HostAddress_UnmarshalBencode z b = Inr (z\<lparr>Host := Host a, HPort := HPort a\<rparr>))"
proof
  have "unat (HPort a) < 2 ^ 16" using unsigned_less [of "HPort a", where ?'a = nat] by simp
  then show "HostAddress_FromString z (HostAddress_String a) = Inr (z\<lparr>HPort := HPort a, Host := Host a\<rparr>)"
    using assms Split_Join [of "Host a" "dec_nat (unat (HPort a))"]
      ParseUint_dec_nat [of "unat (HPort a)" 16] dec_nat_plain
    by (simp add: HostAddress_String_def HostAddress_FromString_def)
next
  from denotes_transmits [OF pair_denotes [OF assms(5)]] obtain b where
    b: "HostAddress_MarshalBencode a = Inr b" "\<And>s. Decode True (b @ s) =
      Inr (BList [BStr (Host a), BInt (int (unat (HPort a)))], s)"
    unfolding transmits_def HostAddress_MarshalBencode_def by blast
  have "Decode False b = Inr (BList [BStr (Host a), BInt (int (unat (HPort a)))], [])"
    using Decode_lenient [OF b(2) [of "[]"]] by simp
  then show "\<exists>b. HostAddress_MarshalBencode a = Inr b \<and>
       HostAddress_UnmarshalBencode z b = Inr (z\<lparr>Host := Host a, HPort := HPort a\<rparr>)"
    using b(1) by (auto simp: HostAddress_UnmarshalBencode_def HostAddress_decode_def)
qed

theorem host_address_roundtrip_witness:
  "HostAddress_FromString \<lparr>Host = [], HPort = 0\<rparr>
     (HostAddress_String \<lparr>Host = ascii ''fe80::1'', HPort = 6881\<rparr>) =
     Inr \<lparr>Host = ascii ''fe80::1'', HPort = 6881\<rparr>"
  using host_address_roundtrip [of "\<lparr>Host = ascii ''fe80::1'', HPort = 6881\<rparr>" "\<lparr>Host = [], HPort = 0\<rparr>"]
  by (simp add: ascii_def)

end
