(* ===== verification/Krpc.thy ===== *)
theory Krpc
  imports Address
begin

text \<open>
  Package \<^verbatim>\<open>krpc\<close>, the messages of the DHT: compact nodes and addresses (\<^verbatim>\<open>node.go\<close>,
  \<^verbatim>\<open>message.go\<close>), the error value, queries and responses, and how the encoder sees a message.
  The \<^verbatim>\<open>MarshalBencode\<close> and \<^verbatim>\<open>UnmarshalBencode\<close> methods of \<^verbatim>\<open>metainfo.Hash\<close> and
  \<^verbatim>\<open>metainfo.Hashes\<close> stand here too, as they need the decoder.
\<close>

section \<open>Decoding into a string and into a byte slice\<close>

datatype krpc_error =
    BencodeError bencode_error
  | HashError hash_error
  | AddressError address_error
  | InvalidLength nat
  | UnexpectedType
  | PanicError string

text \<open>A list or a dictionary has no place in a string.\<close>

definition decode_string_target :: "bytes \<Rightarrow> bencode_error + bytes \<times> bytes" where
  "decode_string_target bs =
     (case bs of
        [] \<Rightarrow> Inl EOF
      | c # r \<Rightarrow>
          if c = 105 then (case decodeInt ToOther r of Inl e \<Rightarrow> Inl e | Inr _ \<Rightarrow> Inl CannotStore)
          else if 48 \<le> c \<and> c \<le> 57 then decodeString bs
          else if c = 108 \<or> c = 100 then Inl CannotStore
          else Inl InvalidInput)"

text \<open>A list of integers can be decoded into a \<^verbatim>\<open>[]byte\<close>, each reduced to eight bits.\<close>

function decode_byte_list :: "bytes \<Rightarrow> bencode_error + bytes \<times> bytes" where
  "decode_byte_list bs =
     (case bs of
        [] \<Rightarrow> Inl EOF
      | c # r \<Rightarrow>
          if c = 101 then Inr ([], r)
          else if c = 105 then
            (case readBytes 101 r of
               None \<Rightarrow> Inl EOF
             | Some (digits, r1) \<Rightarrow>
                 (case ParseUint 64 digits of
                    Inl e \<Rightarrow> Inl e
                  | Inr n \<Rightarrow>
                      (case decode_byte_list r1 of
                         Inl e \<Rightarrow> Inl e | Inr (b, r2) \<Rightarrow> Inr (of_nat n # b, r2))))
          else if 48 \<le> c \<and> c \<le> 57 then
            (case decodeString bs of Inl e \<Rightarrow> Inl e | Inr _ \<Rightarrow> Inl CannotStore)
          else if c = 108 \<or> c = 100 then Inl CannotStore
          else Inl InvalidInput)"
  by pat_completeness auto
termination
  by (relation "measure length") (auto dest!: readBytes_SomeD)

declare decode_byte_list.simps [simp del]

definition decode_bytes_target :: "bytes \<Rightarrow> bencode_error + bytes \<times> bytes" where
  "decode_bytes_target bs =
     (case bs of
        [] \<Rightarrow> Inl EOF
      | c # r \<Rightarrow>
          if c = 105 then (case decodeInt ToOther r of Inl e \<Rightarrow> Inl e | Inr _ \<Rightarrow> Inl CannotStore)
          else if 48 \<le> c \<and> c \<le> 57 then decodeString bs
          else if c = 108 then decode_byte_list r
          else if c = 100 then Inl CannotStore
          else Inl InvalidInput)"

section \<open>Hashes\<close>

definition Hash_MarshalBencode :: "hash \<Rightarrow> bencode_error + bytes" where
  "Hash_MarshalBencode h = encodeValue (GBytes h)"

definition Hash_UnmarshalBencode :: "bytes \<Rightarrow> krpc_error + hash" where
  "Hash_UnmarshalBencode b =
     (case decode_string_target b of
        Inl e \<Rightarrow> Inl (BencodeError e)
      | Inr (s, _) \<Rightarrow> (case Hash_FromString s of Inl e \<Rightarrow> Inl (HashError e) | Inr h \<Rightarrow> Inr h))"

definition Hashes_MarshalBencode :: "hash list \<Rightarrow> bencode_error + bytes" where
  "Hashes_MarshalBencode hs = encodeValue (GBytes (concat hs))"

definition Hashes_UnmarshalBencode :: "bytes \<Rightarrow> krpc_error + hash list" where
  "Hashes_UnmarshalBencode b =
     (case decode_bytes_target b of
        Inl e \<Rightarrow> Inl (BencodeError e)
      | Inr (bs, _) \<Rightarrow>
          if length bs mod HashSize \<noteq> 0 then Inl (InvalidLength (length bs))
          else Inr (chunks HashSize bs))"

section \<open>Nodes\<close>

record node =
  ID :: hash
  Addr :: address

definition NewNode :: "hash \<Rightarrow> ip \<Rightarrow> int \<Rightarrow> node" where
  "NewNode nid ip port = \<lparr>ID = nid, Addr = NewAddress (ArgIP ip) (of_int port)\<rparr>"

definition NewNodeByUDPAddr :: "i2p_lib \<Rightarrow> hash \<Rightarrow> netaddr \<Rightarrow> node option" where
  "NewNodeByUDPAddr L nid addr =
     (case Address_FromAddr L addr of None \<Rightarrow> None | Some a \<Rightarrow> Some \<lparr>ID = nid, Addr = a\<rparr>)"

definition Node_Equal :: "i2p_lib \<Rightarrow> node \<Rightarrow> node \<Rightarrow> bool option" where
  "Node_Equal L n m = (if ID n \<noteq> ID m then Some False else Address_Equal L (Addr n) (Addr m))"

definition Node_WriteBinary :: "i2p_lib \<Rightarrow> node \<Rightarrow> krpc_error + bytes" where
  "Node_WriteBinary L n =
     (case Address_WriteBinary L (Addr n) of
        Inl e \<Rightarrow> Inl (AddressError e) | Inr b \<Rightarrow> Inr (ID n @ b))"

definition Node_UnmarshalBinary :: "i2p_lib \<Rightarrow> bytes \<Rightarrow> krpc_error + node" where
  "Node_UnmarshalBinary L b =
     (if length b < 26 then Inl (AddressError ShortBuffer)
      else case Address_UnmarshalBinary L (drop 20 b) of
             Inl e \<Rightarrow> Inl (AddressError e)
           | Inr a \<Rightarrow> Inr \<lparr>ID = take 20 b, Addr = a\<rparr>)"

text \<open>
  Compact IPv4 nodes: addresses without an IPv4 form have an empty string form after
  \<^verbatim>\<open>To4\<close> and are left out; a written length other than 26 panics.
\<close>

fun CompactIPv4Node_MarshalBinary :: "i2p_lib \<Rightarrow> node list \<Rightarrow> krpc_error + bytes" where
  "CompactIPv4Node_MarshalBinary L [] = Inr []"
| "CompactIPv4Node_MarshalBinary L (ni # cn) =
     (let ip = Address_To4 (Addr ni)
      in if Addr_String L ip = Some [] then CompactIPv4Node_MarshalBinary L cn
         else (case Node_WriteBinary L (ni\<lparr>Addr := (Addr ni)\<lparr>IP := ip\<rparr>\<rparr>) of
                 Inl e \<Rightarrow> Inl e
               | Inr b \<Rightarrow>
                   if length b \<noteq> 26 then Inl (PanicError ''invalid NodeInfo length'')
                   else (case CompactIPv4Node_MarshalBinary L cn of
                           Inl e \<Rightarrow> Inl e | Inr bs \<Rightarrow> Inr (b @ bs))))"

definition CompactIPv4Node_UnmarshalBinary :: "i2p_lib \<Rightarrow> bytes \<Rightarrow> krpc_error + node list" where
  "CompactIPv4Node_UnmarshalBinary L b =
     (if length b mod 26 \<noteq> 0 then Inl (InvalidLength (length b))
      else map_result (Node_UnmarshalBinary L) (chunks 26 b))"

fun CompactIPv6Node_MarshalBinary :: "i2p_lib \<Rightarrow> node list \<Rightarrow> krpc_error + bytes" where
  "CompactIPv6Node_MarshalBinary L [] = Inr []"
| "CompactIPv6Node_MarshalBinary L (ni # cn) =
     (case Node_WriteBinary L (ni\<lparr>Addr := (Addr ni)\<lparr>IP := Address_To16 (Addr ni)\<rparr>\<rparr>) of
        Inl e \<Rightarrow> Inl e
      | Inr b \<Rightarrow>
          if length b \<noteq> 38 then Inl (PanicError ''invalid NodeInfo length'')
          else (case CompactIPv6Node_MarshalBinary L cn of
                  Inl e \<Rightarrow> Inl e | Inr bs \<Rightarrow> Inr (b @ bs)))"

definition CompactIPv6Node_UnmarshalBinary :: "i2p_lib \<Rightarrow> bytes \<Rightarrow> krpc_error + node list" where
  "CompactIPv6Node_UnmarshalBinary L b =
     (if length b mod 38 \<noteq> 0 then Inl (InvalidLength (length b))
      else map_result (Node_UnmarshalBinary L) (chunks 38 b))"

text \<open>The bencoded form of either family is the bencoded string of the binary form.\<close>

definition compact_MarshalBencode :: "krpc_error + bytes \<Rightarrow> krpc_error + bytes" where
  "compact_MarshalBencode r =
     (case r of
        Inl e \<Rightarrow> Inl e
      | Inr b \<Rightarrow> (case encodeValue (GBytes b) of Inl e \<Rightarrow> Inl (BencodeError e) | Inr c \<Rightarrow> Inr c))"

definition CompactIPv4Node_MarshalBencode :: "i2p_lib \<Rightarrow> node list \<Rightarrow> krpc_error + bytes" where
  "CompactIPv4Node_MarshalBencode L cn = compact_MarshalBencode (CompactIPv4Node_MarshalBinary L cn)"

definition CompactIPv6Node_MarshalBencode :: "i2p_lib \<Rightarrow> node list \<Rightarrow> krpc_error + bytes" where
  "CompactIPv6Node_MarshalBencode L cn = compact_MarshalBencode (CompactIPv6Node_MarshalBinary L cn)"

definition CompactIPv4Node_UnmarshalBencode :: "i2p_lib \<Rightarrow> bytes \<Rightarrow> krpc_error + node list" where
  "CompactIPv4Node_UnmarshalBencode L b =
     (case decode_string_target b of
        Inl e \<Rightarrow> Inl (BencodeError e)
      | Inr (s, _) \<Rightarrow> CompactIPv4Node_UnmarshalBinary L s)"

definition CompactIPv6Node_UnmarshalBencode :: "i2p_lib \<Rightarrow> bytes \<Rightarrow> krpc_error + node list" where
  "CompactIPv6Node_UnmarshalBencode L b =
     (case decode_string_target b of
        Inl e \<Rightarrow> Inl (BencodeError e)
      | Inr (s, _) \<Rightarrow> CompactIPv6Node_UnmarshalBinary L s)"

section \<open>Messages\<close>

record krpc_err =
  Code :: int
  Reason :: bytes

definition NewError :: "int \<Rightarrow> bytes \<Rightarrow> krpc_err" where
  "NewError code reason = \<lparr>Code = code, Reason = reason\<rparr>"

text \<open>Elements of the wrong type, or too few of them, panic, which becomes the returned error.\<close>

definition Error_decode :: "bval list \<Rightarrow> krpc_error + krpc_err" where
  "Error_decode vs =
     (case vs of
        BInt c # BStr r # _ \<Rightarrow> Inr \<lparr>Code = c, Reason = r\<rparr>
      | _ \<Rightarrow> Inl (PanicError ''error list''))"

definition Error_UnmarshalBencode :: "krpc_err \<Rightarrow> bytes \<Rightarrow> krpc_error + krpc_err" where
  "Error_UnmarshalBencode e b =
     (case Decode False b of
        Inl x \<Rightarrow> Inl (BencodeError x)
      | Inr (BList vs, _) \<Rightarrow> Error_decode vs
      | Inr (BStr v, _) \<Rightarrow> Inr (e\<lparr>Reason := v\<rparr>)
      | Inr _ \<Rightarrow> Inl UnexpectedType)"

definition Error_MarshalBencode :: "krpc_err \<Rightarrow> bencode_error + bytes" where
  "Error_MarshalBencode e =
     (if Code e = 0 \<and> Reason e = [] then Inr []
      else encodeValue (GSlice [GIface (Some (GInt (Code e))), GIface (Some (GString (Reason e)))]))"

record query_arg =
  aID :: hash
  aTarget :: hash
  aInfoHash :: hash
  aPort :: u16
  aToken :: bytes
  aImpliedPort :: bool
  aWants :: "bytes list"
  aV :: bytes
  aK :: bytes
  aSig :: bytes
  aSeq :: int
  aSalt :: bytes
  aCAS :: int

definition noArg :: query_arg where
  "noArg = \<lparr>aID = zeroHash, aTarget = zeroHash, aInfoHash = zeroHash, aPort = 0, aToken = [],
     aImpliedPort = False, aWants = [], aV = [], aK = [], aSig = [], aSeq = 0, aSalt = [], aCAS = 0\<rparr>"

abbreviation WantNodes :: bytes where
  "WantNodes \<equiv> ascii ''n4''"

abbreviation WantNodes6 :: bytes where
  "WantNodes6 \<equiv> ascii ''n6''"

definition ContainsWant :: "query_arg \<Rightarrow> bytes \<Rightarrow> bool" where
  "ContainsWant a w \<longleftrightarrow> list_ex (\<lambda>want. want = w) (aWants a)"

definition GetPort :: "query_arg \<Rightarrow> int \<Rightarrow> u16" where
  "GetPort a port = (if aImpliedPort a then of_int port else aPort a)"

record response_result =
  rID :: hash
  rNodes :: "node list"
  rNodes6 :: "node list"
  rToken :: bytes
  rValues :: "address list"
  rSamples :: "hash list"
  rNum :: int
  rInterval :: int
  rV :: bytes
  rK :: bytes
  rSig :: bytes
  rSeq :: int

definition noResult :: response_result where
  "noResult = \<lparr>rID = zeroHash, rNodes = [], rNodes6 = [], rToken = [], rValues = [], rSamples = [],
     rNum = 0, rInterval = 0, rV = [], rK = [], rSig = [], rSeq = 0\<rparr>"

record message =
  mT :: bytes
  mY :: bytes
  mQ :: bytes
  mA :: query_arg
  mR :: response_result
  mE :: krpc_err
  mRO :: bool

definition zeroMessage :: message where
  "zeroMessage = \<lparr>mT = [], mY = [], mQ = [], mA = noArg, mR = noResult,
     mE = \<lparr>Code = 0, Reason = []\<rparr>, mRO = False\<rparr>"

definition NewQueryMsg :: "bytes \<Rightarrow> bytes \<Rightarrow> query_arg \<Rightarrow> message" where
  "NewQueryMsg tid method arg = zeroMessage\<lparr>mT := tid, mY := ascii ''q'', mQ := method, mA := arg\<rparr>"

definition NewResponseMsg :: "bytes \<Rightarrow> response_result \<Rightarrow> message" where
  "NewResponseMsg tid data = zeroMessage\<lparr>mT := tid, mY := ascii ''r'', mR := data\<rparr>"

definition NewErrorMsg :: "bytes \<Rightarrow> int \<Rightarrow> bytes \<Rightarrow> message" where
  "NewErrorMsg tid code reason =
     zeroMessage\<lparr>mT := tid, mY := ascii ''e'', mE := \<lparr>Code = code, Reason = reason\<rparr>\<rparr>"

definition IsQuery :: "message \<Rightarrow> bool" where
  "IsQuery m \<longleftrightarrow> mY m = ascii ''q''"

definition IsResponse :: "message \<Rightarrow> bool" where
  "IsResponse m \<longleftrightarrow> mY m = ascii ''r''"

definition IsError :: "message \<Rightarrow> bool" where
  "IsError m \<longleftrightarrow> mY m = ascii ''e''"

text \<open>Of any other type of message the identifier panics: \<open>None\<close>.\<close>

definition Message_ID :: "message \<Rightarrow> hash option" where
  "Message_ID m =
     (if mY m = ascii ''q'' then Some (aID (mA m))
      else if mY m = ascii ''r'' then Some (rID (mR m))
      else None)"

subsection \<open>What the encoder sees of a message\<close>

text \<open>
  The structs with their field tags. A \<^verbatim>\<open>Hash\<close> is an array of length 20, which is never empty in
  the sense of \<^verbatim>\<open>omitempty\<close>; an empty slice of the record stands for the nil one. Addresses
  and compact nodes bring their own \<^verbatim>\<open>MarshalBencode\<close>.
\<close>

definition mk_field :: "string \<times> string \<times> bool \<times> gval \<Rightarrow> gfield" where
  "mk_field = (\<lambda>(name, tag, omitempty, v).
     GField (ascii name) (if omitempty then ascii tag @ 44 # ascii ''omitempty'' else ascii tag)
       True False v)"

definition hash_gval :: "hash \<Rightarrow> gval" where
  "hash_gval h = GMarshaler False (Hash_MarshalBencode h)"

definition krpc_result :: "krpc_error + bytes \<Rightarrow> bencode_error + bytes" where
  "krpc_result r = (case r of Inl e \<Rightarrow> Inl (MarshalError ''krpc'') | Inr b \<Rightarrow> Inr b)"

definition address_gval :: "i2p_lib \<Rightarrow> address \<Rightarrow> gval" where
  "address_gval L a =
     GMarshaler False (case Address_MarshalBencode L a of None \<Rightarrow> Inl (MarshalError ''panic'') | Some r \<Rightarrow> r)"

definition QueryArg_gval :: "query_arg \<Rightarrow> gval" where
  "QueryArg_gval a = GStruct (a = noArg) (map mk_field
     [(''ID'', ''id'', False, hash_gval (aID a)),
      (''Target'', ''target'', True, hash_gval (aTarget a)),
      (''InfoHash'', ''info_hash'', True, hash_gval (aInfoHash a)),
      (''Port'', ''port'', True, GUint (unat (aPort a))),
      (''Token'', ''token'', True, GString (aToken a)),
      (''ImpliedPort'', ''implied_port'', True, GBool (aImpliedPort a)),
      (''Wants'', ''want'', True, GSlice (map GString (aWants a))),
      (''V'', ''v'', True, GBytes (aV a)),
      (''K'', ''k'', True, GBytes (aK a)),
      (''Sig'', ''sig'', True, GBytes (aSig a)),
      (''Seq'', ''seq'', True, GInt (aSeq a)),
      (''Salt'', ''salt'', True, GBytes (aSalt a)),
      (''CAS'', ''cas'', True, GInt (aCAS a))])"

definition ResponseResult_gval :: "i2p_lib \<Rightarrow> response_result \<Rightarrow> gval" where
  "ResponseResult_gval L r = GStruct (r = noResult) (map mk_field
     [(''ID'', ''id'', False, hash_gval (rID r)),
      (''Nodes'', ''nodes'', True,
        GMarshaler (rNodes r = []) (krpc_result (CompactIPv4Node_MarshalBencode L (rNodes r)))),
      (''Nodes6'', ''nodes6'', True,
        GMarshaler (rNodes6 r = []) (krpc_result (CompactIPv6Node_MarshalBencode L (rNodes6 r)))),
      (''Token'', ''token'', True, GString (rToken r)),
      (''Values'', ''values'', True, GSlice (map (address_gval L) (rValues r))),
      (''Samples'', ''samples'', True, GSlice (map hash_gval (rSamples r))),
      (''Num'', ''num'', True, GInt (rNum r)),
      (''Interval'', ''interval'', True, GInt (rInterval r)),
      (''V'', ''v'', True, GBytes (rV r)),
      (''K'', ''k'', True, GBytes (rK r)),
      (''Sig'', ''sig'', True, GBytes (rSig r)),
      (''Seq'', ''seq'', True, GInt (rSeq r))])"

definition Message_gval :: "i2p_lib \<Rightarrow> message \<Rightarrow> gval" where
  "Message_gval L m = GStruct (m = zeroMessage) (map mk_field
     [(''T'', ''t'', False, GString (mT m)),
      (''Y'', ''y'', False, GString (mY m)),
      (''Q'', ''q'', True, GString (mQ m)),
      (''A'', ''a'', True, QueryArg_gval (mA m)),
      (''R'', ''r'', True, ResponseResult_gval L (mR m)),
      (''E'', ''e'', True,
        GMarshaler (mE m = \<lparr>Code = 0, Reason = []\<rparr>) (Error_MarshalBencode (mE m))),
      (''RO'', ''ro'', True, GBool (mRO m))])"

definition Message_Encode :: "i2p_lib \<Rightarrow> message \<Rightarrow> bencode_error + bytes" where
  "Message_Encode L m = encodeValue (Message_gval L m)"

section \<open>Compact nodes\<close>

text \<open>A node with an address of \<open>w\<close> bytes: 4 for IPv4, 16 for IPv6.\<close>

definition wf_node :: "nat \<Rightarrow> node \<Rightarrow> bool" where
  "wf_node w n \<longleftrightarrow> wf_hash (ID n) \<and> (case IP (Addr n) of IPAddr p \<Rightarrow> length p = w | _ \<Rightarrow> False)"

definition node_bytes :: "i2p_lib \<Rightarrow> node \<Rightarrow> bytes" where
  "node_bytes L n = projr (Node_WriteBinary L n)"

lemma wf_nodeE:
  assumes "wf_node w n"
  obtains h p port where "n = \<lparr>ID = h, Addr = \<lparr>IP = IPAddr p, Port = port\<rparr>\<rparr>" "length h = 20" "length p = w"
  using assms by (cases n; cases "Addr n") (auto simp: wf_node_def wf_hash_def HashSize_def split: netaddr.splits)

lemma node_write: "wf_node w n \<Longrightarrow> Node_WriteBinary L n = Inr (node_bytes L n) \<and> length (node_bytes L n) = 22 + w"
  by (erule wf_nodeE) (simp add: Node_WriteBinary_def Address_WriteBinary_def node_bytes_def)

lemma node_unmarshal:
  "w = 4 \<or> w = 16 \<Longrightarrow> wf_node w n \<Longrightarrow> Node_UnmarshalBinary L (node_bytes L n) = Inr n"
  by (erule wf_nodeE)
     (auto simp: Node_WriteBinary_def Address_WriteBinary_def node_bytes_def Node_UnmarshalBinary_def
       Address_unmarshal)

lemma split_node_bytes:
  assumes "length bs = 22 + w"
  obtains h p port where "bs = h @ p @ put_u16 port" "length h = 20" "length p = w"
proof (rule that)
  let ?t = "drop (20 + w) bs"
  have "length ?t = 2" using assms by simp
  then have t: "put_u16 (of_nat (be_get ?t)) = ?t"
    using be_put_get [of ?t] be_get_bound [of ?t]
    by (simp add: put_u16_def unat_of_nat)
  show "bs = take 20 bs @ take w (drop 20 bs) @ put_u16 (of_nat (be_get ?t))"
    unfolding t by (simp flip: drop_drop add: add.commute)
qed (use assms in simp_all)

lemma node_codec:
  assumes "w = 4 \<or> w = 16"
  shows "fixed_codec (node_bytes L) (Node_UnmarshalBinary L) (wf_node w) (22 + w)"
proof
  fix bs :: bytes assume "length bs = 22 + w"
  then obtain h p port where bs: "bs = h @ p @ put_u16 port" "length h = 20" "length p = w"
    by (rule split_node_bytes)
  let ?n = "\<lparr>ID = h, Addr = \<lparr>IP = IPAddr p, Port = port\<rparr>\<rparr>"
  have "wf_node w ?n" using bs by (simp add: wf_node_def wf_hash_def HashSize_def)
  moreover have "node_bytes L ?n = bs"
    using bs by (simp add: node_bytes_def Node_WriteBinary_def Address_WriteBinary_def)
  ultimately show "\<exists>x. Node_UnmarshalBinary L bs = Inr x \<and> wf_node w x \<and> node_bytes L x = bs"
    using node_unmarshal [OF assms] by (intro exI [of _ ?n]) metis
qed (use assms node_write node_unmarshal in auto)

interpretation ipv4: fixed_codec "node_bytes L" "Node_UnmarshalBinary L" "wf_node 4" 26 for L
  using node_codec [of 4 L] by simp

interpretation ipv6: fixed_codec "node_bytes L" "Node_UnmarshalBinary L" "wf_node 16" 38 for L
  using node_codec [of 16 L] by simp

lemma dotted_nonempty: "length p = 4 \<Longrightarrow> IP_String p \<noteq> []"
proof -
  assume "length p = 4"
  then obtain a b c d where "p = [a, b, c, d]" by (auto simp: numeral_eq_Suc length_Suc_conv)
  then show ?thesis by (simp add: IP_String_def IP_To4_def)
qed

lemma marshal_ipv4:
  "\<forall>n \<in> set cn. wf_node 4 n \<Longrightarrow>
   CompactIPv4Node_MarshalBinary L cn = Inr (concat (map (node_bytes L) cn))"
proof (induction cn)
  case (Cons n cn)
  then have n: "wf_node 4 n" by simp
  then obtain h p port where
    p: "n = \<lparr>ID = h, Addr = \<lparr>IP = IPAddr p, Port = port\<rparr>\<rparr>" "length p = 4" by (rule wf_nodeE)
  have "Addr_String L (Address_To4 (Addr n)) \<noteq> Some []"
    using p dotted_nonempty [of p]
    by (auto simp: Address_To4_def Addr_String_def ipEmptyString_def IP_To4_def)
  moreover have "n\<lparr>Addr := (Addr n)\<lparr>IP := Address_To4 (Addr n)\<rparr>\<rparr> = n"
    using p by (simp add: Address_To4_def IP_To4_def)
  ultimately show ?case using Cons node_write [OF n, of L] by simp
qed simp

lemma marshal_ipv6:
  "\<forall>n \<in> set cn. wf_node 16 n \<Longrightarrow>
   CompactIPv6Node_MarshalBinary L cn = Inr (concat (map (node_bytes L) cn))"
proof (induction cn)
  case (Cons n cn)
  then have n: "wf_node 16 n" by simp
  then obtain h p port where
    p: "n = \<lparr>ID = h, Addr = \<lparr>IP = IPAddr p, Port = port\<rparr>\<rparr>" "length p = 16" by (rule wf_nodeE)
  have "n\<lparr>Addr := (Addr n)\<lparr>IP := Address_To16 (Addr n)\<rparr>\<rparr> = n"
    using p by (simp add: Address_To16_def IP_To16_def)
  then show ?case using Cons node_write [OF n, of L] by simp
qed simp

lemma decode_string_target_encode:
  "length b < 2 ^ 31 \<Longrightarrow> decode_string_target (encodeStringType b @ s) = Inr (b, s)"
  using encodeStringType_head [of b s] decodeString_encode [of b s]
  by (auto simp: decode_string_target_def)

section \<open>Structs as dictionaries\<close>

text \<open>
  The dictionary with the keys \<open>k\<close> that are present, in the order of the struct; and what ties
  it to the fields.
\<close>

definition wire_dict :: "(bool \<times> string \<times> bval) list \<Rightarrow> (bytes \<times> bval) list" where
  "wire_dict ws = map (\<lambda>(p, k, v). (ascii k, v)) (filter fst ws)"

definition good_tag :: "string \<Rightarrow> bool" where
  "good_tag t \<longleftrightarrow> 44 \<notin> set (ascii t) \<and> isValidTag (ascii t) \<and> ascii t \<noteq> ascii ''-'' \<and> length t < 100"

definition field_is :: "string \<times> string \<times> bool \<times> gval \<Rightarrow> bool \<times> string \<times> bval \<Rightarrow> bool" where
  "field_is = (\<lambda>(n, t, om, g) (p, k, v). t = k \<and> good_tag t \<and> \<not> isNilValue g \<and>
     (p \<longleftrightarrow> \<not> (om \<and> isEmptyValue g)) \<and> (p \<longrightarrow> denotes g v))"

lemma readStruct_fields:
  "list_all2 field_is fs ws \<Longrightarrow>
   list_all2 (rel_prod (=) denotes) (readStruct (map mk_field fs)) (wire_dict ws)"
proof (induction rule: list_all2_induct)
  case (Cons f fs w ws)
  obtain n t om g p k v where fw: "f = (n, t, om, g)" "w = (p, k, v)" by (cases f; cases w)
  have t: "t = k" "good_tag t" "\<not> isNilValue g" "p \<longleftrightarrow> \<not> (om \<and> isEmptyValue g)" "p \<Longrightarrow> denotes g v"
    using Cons(1) fw by (auto simp: field_is_def)
  have ne: "ascii t \<noteq> []" using t(2) by (auto simp: good_tag_def isValidTag_def)
  have "readStruct (map mk_field (f # fs)) =
      (if p then [(ascii t, g)] else []) @ readStruct (map mk_field fs)"
    using t ne field_omitempty [of "ascii t"] field_plain [of "ascii t"] fw
    by (cases om) (simp_all add: mk_field_def readStruct_field good_tag_def del: readStruct.simps)
  then show ?case using Cons(3) t fw by (cases p) (simp_all add: wire_dict_def del: readStruct.simps)
qed (simp add: wire_dict_def)

lemma wire_dict_denotes:
  assumes "list_all2 field_is fs ws" "distinct (map (\<lambda>(p, k, v). ascii k) ws)"
  shows "denotes (GStruct z (map mk_field fs)) (BDict (sort_key fst (wire_dict ws)))"
    "map_of (sort_key fst (wire_dict ws)) = map_of (wire_dict ws)"
proof -
  have k: "map fst (wire_dict ws) = map (\<lambda>(p, k, v). ascii k) (filter fst ws)"
    by (simp add: wire_dict_def comp_def split_beta)
  have d: "distinct (map fst (wire_dict ws))"
    unfolding k using assms(2) by (rule distinct_map_filter)
  have "list_all (\<lambda>(p, k, v). length k < 100) ws"
    using assms(1) by (induction rule: list_all2_induct) (auto simp: field_is_def good_tag_def)
  then have "list_all (\<lambda>(k, v). length k < 2 ^ 31) (wire_dict ws)"
    by (auto simp: list_all_iff wire_dict_def ascii_def)
  from struct_denotes [OF readStruct_fields [OF assms(1)] d this]
  show "denotes (GStruct z (map mk_field fs)) (BDict (sort_key fst (wire_dict ws)))"
    "map_of (sort_key fst (wire_dict ws)) = map_of (wire_dict ws)" by simp_all
qed


definition is_int64 :: "int \<Rightarrow> bool" where
  "is_int64 i \<longleftrightarrow> - (2 ^ 63) \<le> i \<and> i < 2 ^ 63"

definition fits :: "bytes \<Rightarrow> bool" where
  "fits s \<longleftrightarrow> length s < 2 ^ 31"

lemma marshaled_denotes:
  assumes "denotes g v" "encodeValue g = r"
  shows "denotes (GMarshaler z r) v"
proof -
  obtain b where b: "encodeValue g = Inr b" "\<And>s. Decode True (b @ s) = Inr (v, s)"
    using denotes_transmits [OF assms(1)] by (auto simp: transmits_def)
  have "denotes (GMarshaler z (Inr b)) v" by (rule d_marshaler) (use b(2) [of "[]"] in simp)
  then show ?thesis using assms(2) b(1) by simp
qed

lemma denotes_bytes [intro]: "fits s \<Longrightarrow> denotes (GBytes s) (BStr s)"
  by (rule d_bytes) (simp_all add: fits_def is_byte_slice_def)

lemma denotes_string [intro]: "fits s \<Longrightarrow> denotes (GString s) (BStr s)"
  by (rule d_string) (simp add: fits_def)

lemma denotes_int64 [intro]: "is_int64 i \<Longrightarrow> denotes (GInt i) (BInt i)"
  by (rule d_int) (simp_all add: is_int64_def)

lemma denotes_u16 [intro]: "denotes (GUint (unat (x :: u16))) (BInt (uint x))"
  using d_uint [of "unat x"] unsigned_less [of x, where ?'a = nat] by simp

lemma denotes_true [intro]: "b \<Longrightarrow> denotes (GBool b) (BInt 1)"
  using d_bool [of b] by simp

lemma denotes_iface [intro]: "denotes g v \<Longrightarrow> \<forall>s. indirectEncodeValue g \<noteq> Some (GBytes s) \<Longrightarrow> denotes (GIface (Some g)) v"
  by (rule d_iface)

lemma denotes_slice_map:
  "\<forall>x \<in> set xs. denotes (f x) (h x) \<Longrightarrow> denotes (GSlice (map f xs)) (BList (map h xs))"
  by (rule d_slice) (auto simp: list_all2_conv_all_nth)

lemma wf_hash_fits: "wf_hash h \<Longrightarrow> fits h"
  by (simp add: wf_hash_def HashSize_def fits_def)

lemma denotes_hash [intro]: "wf_hash h \<Longrightarrow> denotes (hash_gval h) (BStr h)"
  unfolding hash_gval_def Hash_MarshalBencode_def
  by (rule marshaled_denotes [OF denotes_bytes]) (simp_all add: wf_hash_fits)

definition QueryArg_dict :: "query_arg \<Rightarrow> (bool \<times> string \<times> bval) list" where
  "QueryArg_dict a =
     [(True, ''id'', BStr (aID a)),
      (True, ''target'', BStr (aTarget a)),
      (True, ''info_hash'', BStr (aInfoHash a)),
      (aPort a \<noteq> 0, ''port'', BInt (uint (aPort a))),
      (aToken a \<noteq> [], ''token'', BStr (aToken a)),
      (aImpliedPort a, ''implied_port'', BInt 1),
      (aWants a \<noteq> [], ''want'', BList (map BStr (aWants a))),
      (aV a \<noteq> [], ''v'', BStr (aV a)),
      (aK a \<noteq> [], ''k'', BStr (aK a)),
      (aSig a \<noteq> [], ''sig'', BStr (aSig a)),
      (aSeq a \<noteq> 0, ''seq'', BInt (aSeq a)),
      (aSalt a \<noteq> [], ''salt'', BStr (aSalt a)),
      (aCAS a \<noteq> 0, ''cas'', BInt (aCAS a))]"

definition wf_arg :: "query_arg \<Rightarrow> bool" where
  "wf_arg a \<longleftrightarrow> list_all wf_hash [aID a, aTarget a, aInfoHash a] \<and>
     list_all fits ([aToken a, aV a, aK a, aSig a, aSalt a] @ aWants a) \<and>
     list_all is_int64 [aSeq a, aCAS a]"

lemma good_tags:
  "list_all good_tag [''id'', ''target'', ''info_hash'', ''port'', ''token'', ''implied_port'', ''want'',
     ''v'', ''k'', ''sig'', ''seq'', ''salt'', ''cas'', ''nodes'', ''nodes6'', ''values'', ''samples'',
     ''num'', ''interval'', ''t'', ''y'', ''q'', ''a'', ''r'', ''e'', ''ro'']"
  by code_simp

lemma not_nil [simp]:
  "\<not> isNilValue (GInt i)" "\<not> isNilValue (GUint n)" "\<not> isNilValue (GBool b)" "\<not> isNilValue (GString s)"
  "\<not> isNilValue (GBytes s)" "\<not> isNilValue (GSlice vs)" "\<not> isNilValue (GStruct z fs)"
  "\<not> isNilValue (GMarshaler z r)"
  by (simp_all add: isNilValue_def)

lemma empty_value [simp]:
  "isEmptyValue (GInt i) \<longleftrightarrow> i = 0" "isEmptyValue (GUint n) \<longleftrightarrow> n = 0" "isEmptyValue (GBool b) \<longleftrightarrow> \<not> b"
  "isEmptyValue (GString s) \<longleftrightarrow> s = []" "isEmptyValue (GBytes s) \<longleftrightarrow> s = []"
  "isEmptyValue (GSlice vs) \<longleftrightarrow> vs = []" "isEmptyValue (GStruct z fs) \<longleftrightarrow> z"
  "isEmptyValue (GMarshaler z r) \<longleftrightarrow> z"
  by (simp_all add: isEmptyValue_def)

lemma unat_zero_iff: "unat (x :: 'a::len word) = 0 \<longleftrightarrow> x = 0"
  by (rule unat_eq_0)

lemma QueryArg_denotes:
  assumes "wf_arg a"
  shows "denotes (QueryArg_gval a) (BDict (sort_key fst (wire_dict (QueryArg_dict a))))"
  unfolding QueryArg_gval_def
proof (rule wire_dict_denotes(1))
  show "distinct (map (\<lambda>(p, k, v). ascii k) (QueryArg_dict a))"
    by (simp add: QueryArg_dict_def ascii_def)
  show "list_all2 field_is
      [(''ID'', ''id'', False, hash_gval (aID a)),
      (''Target'', ''target'', True, hash_gval (aTarget a)),
      (''InfoHash'', ''info_hash'', True, hash_gval (aInfoHash a)),
      (''Port'', ''port'', True, GUint (unat (aPort a))),
      (''Token'', ''token'', True, GString (aToken a)),
      (''ImpliedPort'', ''implied_port'', True, GBool (aImpliedPort a)),
      (''Wants'', ''want'', True, GSlice (map GString (aWants a))),
      (''V'', ''v'', True, GBytes (aV a)),
      (''K'', ''k'', True, GBytes (aK a)),
      (''Sig'', ''sig'', True, GBytes (aSig a)),
      (''Seq'', ''seq'', True, GInt (aSeq a)),
      (''Salt'', ''salt'', True, GBytes (aSalt a)),
      (''CAS'', ''cas'', True, GInt (aCAS a))] (QueryArg_dict a)"
    using assms good_tags
    by (simp add: QueryArg_dict_def field_is_def wf_arg_def hash_gval_def [THEN arg_cong [of _ _ isNilValue]]
       hash_gval_def [THEN arg_cong [of _ _ isEmptyValue]] unat_zero_iff list_all_iff
       denotes_hash denotes_bytes denotes_string denotes_int64 denotes_u16 denotes_true denotes_slice_map)
qed


definition ResponseResult_dict :: "i2p_lib \<Rightarrow> response_result \<Rightarrow> (bool \<times> string \<times> bval) list" where
  "ResponseResult_dict L r =
     [(True, ''id'', BStr (rID r)),
      (rNodes r \<noteq> [], ''nodes'', BStr (concat (map (node_bytes L) (rNodes r)))),
      (rNodes6 r \<noteq> [], ''nodes6'', BStr (concat (map (node_bytes L) (rNodes6 r)))),
      (rToken r \<noteq> [], ''token'', BStr (rToken r)),
      (rValues r \<noteq> [], ''values'',
        BList (map (\<lambda>a. BList [BStr (the (Addr_String L (IP a))), BInt (uint (Port a))]) (rValues r))),
      (rSamples r \<noteq> [], ''samples'', BList (map BStr (rSamples r))),
      (rNum r \<noteq> 0, ''num'', BInt (rNum r)),
      (rInterval r \<noteq> 0, ''interval'', BInt (rInterval r)),
      (rV r \<noteq> [], ''v'', BStr (rV r)),
      (rK r \<noteq> [], ''k'', BStr (rK r)),
      (rSig r \<noteq> [], ''sig'', BStr (rSig r)),
      (rSeq r \<noteq> 0, ''seq'', BInt (rSeq r))]"

definition wf_result :: "i2p_lib \<Rightarrow> response_result \<Rightarrow> bool" where
  "wf_result L r \<longleftrightarrow> list_all wf_hash (rID r # rSamples r) \<and>
     list_all (wf_node 4) (rNodes r) \<and> 26 * length (rNodes r) < 2 ^ 31 \<and>
     list_all (wf_node 16) (rNodes6 r) \<and> 38 * length (rNodes6 r) < 2 ^ 31 \<and>
     list_all (\<lambda>a. case Addr_String L (IP a) of None \<Rightarrow> False | Some s \<Rightarrow> fits s) (rValues r) \<and>
     list_all fits [rToken r, rV r, rK r, rSig r] \<and>
     list_all is_int64 [rNum r, rInterval r, rSeq r]"

lemma denotes_nodes:
  "list_all (wf_node 4) ns \<Longrightarrow> 26 * length ns < 2 ^ 31 \<Longrightarrow>
   denotes (GMarshaler z (krpc_result (CompactIPv4Node_MarshalBencode L ns)))
     (BStr (concat (map (node_bytes L) ns)))"
  "list_all (wf_node 16) ns \<Longrightarrow> 38 * length ns < 2 ^ 31 \<Longrightarrow>
   denotes (GMarshaler z (krpc_result (CompactIPv6Node_MarshalBencode L ns)))
     (BStr (concat (map (node_bytes L) ns)))"
proof -
  let ?b = "concat (map (node_bytes L) ns)"
  have e: "encodeValue (GBytes ?b) = Inr (encodeStringType ?b)"
    by (simp add: encodeValue.simps is_byte_slice_def)
  show "denotes (GMarshaler z (krpc_result (CompactIPv4Node_MarshalBencode L ns))) (BStr ?b)"
    if "list_all (wf_node 4) ns" "26 * length ns < 2 ^ 31"
  proof (rule marshaled_denotes [OF denotes_bytes])
    have wf: "\<forall>n \<in> set ns. wf_node 4 n" using that(1) by (simp add: list_all_iff)
    show "fits ?b" using ipv4.length_enc_list [OF wf, of L] that(2) by (simp add: fits_def)
    show "encodeValue (GBytes ?b) = krpc_result (CompactIPv4Node_MarshalBencode L ns)"
      using marshal_ipv4 [OF wf, of L] e
      by (simp add: krpc_result_def CompactIPv4Node_MarshalBencode_def compact_MarshalBencode_def)
  qed
  show "denotes (GMarshaler z (krpc_result (CompactIPv6Node_MarshalBencode L ns))) (BStr ?b)"
    if "list_all (wf_node 16) ns" "38 * length ns < 2 ^ 31"
  proof (rule marshaled_denotes [OF denotes_bytes])
    have wf: "\<forall>n \<in> set ns. wf_node 16 n" using that(1) by (simp add: list_all_iff)
    show "fits ?b" using ipv6.length_enc_list [OF wf, of L] that(2) by (simp add: fits_def)
    show "encodeValue (GBytes ?b) = krpc_result (CompactIPv6Node_MarshalBencode L ns)"
      using marshal_ipv6 [OF wf, of L] e
      by (simp add: krpc_result_def CompactIPv6Node_MarshalBencode_def compact_MarshalBencode_def)
  qed
qed

lemma denotes_address:
  assumes "case Addr_String L (IP a) of None \<Rightarrow> False | Some s \<Rightarrow> fits s"
  shows "denotes (address_gval L a) (BList [BStr (the (Addr_String L (IP a))), BInt (uint (Port a))])"
proof -
  obtain s where s: "Addr_String L (IP a) = Some s" "fits s" using assms by (auto split: option.splits)
  let ?g = "GSlice [GIface (Some (GString s)), GIface (Some (GUint (unat (Port a))))]"
  have "denotes ?g (BList [BStr s, BInt (uint (Port a))])"
    using s(2) by (intro d_slice) (auto intro!: d_iface)
  from marshaled_denotes [OF this] show ?thesis
    using s by (simp add: address_gval_def Address_MarshalBencode_def)
qed

lemma ResponseResult_denotes:
  assumes "wf_result L r"
  shows "denotes (ResponseResult_gval L r) (BDict (sort_key fst (wire_dict (ResponseResult_dict L r))))"
  unfolding ResponseResult_gval_def
proof (rule wire_dict_denotes(1))
  show "distinct (map (\<lambda>(p, k, v). ascii k) (ResponseResult_dict L r))"
    by (simp add: ResponseResult_dict_def ascii_def)
  show "list_all2 field_is
     [(''ID'', ''id'', False, hash_gval (rID r)),
      (''Nodes'', ''nodes'', True,
        GMarshaler (rNodes r = []) (krpc_result (CompactIPv4Node_MarshalBencode L (rNodes r)))),
      (''Nodes6'', ''nodes6'', True,
        GMarshaler (rNodes6 r = []) (krpc_result (CompactIPv6Node_MarshalBencode L (rNodes6 r)))),
      (''Token'', ''token'', True, GString (rToken r)),
      (''Values'', ''values'', True, GSlice (map (address_gval L) (rValues r))),
      (''Samples'', ''samples'', True, GSlice (map hash_gval (rSamples r))),
      (''Num'', ''num'', True, GInt (rNum r)),
      (''Interval'', ''interval'', True, GInt (rInterval r)),
      (''V'', ''v'', True, GBytes (rV r)),
      (''K'', ''k'', True, GBytes (rK r)),
      (''Sig'', ''sig'', True, GBytes (rSig r)),
      (''Seq'', ''seq'', True, GInt (rSeq r))] (ResponseResult_dict L r)"
    using assms good_tags
    by (simp add: ResponseResult_dict_def field_is_def wf_result_def list_all_iff
       hash_gval_def [THEN arg_cong [of _ _ isNilValue]] denotes_nodes denotes_address
       denotes_hash denotes_bytes denotes_string denotes_int64 denotes_u16 denotes_slice_map)
qed

definition Message_dict :: "i2p_lib \<Rightarrow> message \<Rightarrow> (bool \<times> string \<times> bval) list" where
  "Message_dict L m =
     [(True, ''t'', BStr (mT m)),
      (True, ''y'', BStr (mY m)),
      (mQ m \<noteq> [], ''q'', BStr (mQ m)),
      (mA m \<noteq> noArg, ''a'', BDict (sort_key fst (wire_dict (QueryArg_dict (mA m))))),
      (mR m \<noteq> noResult, ''r'', BDict (sort_key fst (wire_dict (ResponseResult_dict L (mR m))))),
      (mE m \<noteq> \<lparr>Code = 0, Reason = []\<rparr>, ''e'', BList [BInt (Code (mE m)), BStr (Reason (mE m))]),
      (mRO m, ''ro'', BInt 1)]"

definition wf_message :: "i2p_lib \<Rightarrow> message \<Rightarrow> bool" where
  "wf_message L m \<longleftrightarrow> list_all fits [mT m, mY m, mQ m, Reason (mE m)] \<and> wf_arg (mA m) \<and>
     wf_result L (mR m) \<and> is_int64 (Code (mE m))"

lemma denotes_error:
  assumes "is_int64 (Code e)" "fits (Reason e)" "e \<noteq> \<lparr>Code = 0, Reason = []\<rparr>"
  shows "denotes (GMarshaler z (Error_MarshalBencode e)) (BList [BInt (Code e), BStr (Reason e)])"
proof -
  let ?g = "GSlice [GIface (Some (GInt (Code e))), GIface (Some (GString (Reason e)))]"
  have "denotes ?g (BList [BInt (Code e), BStr (Reason e)])"
    using assms by (intro d_slice) (auto intro!: d_iface)
  from marshaled_denotes [OF this] show ?thesis
    using assms(3) by (cases e) (auto simp: Error_MarshalBencode_def)
qed

lemma Message_denotes:
  assumes "wf_message L m"
  shows "denotes (Message_gval L m) (BDict (sort_key fst (wire_dict (Message_dict L m))))"
  unfolding Message_gval_def
proof (rule wire_dict_denotes(1))
  show "distinct (map (\<lambda>(p, k, v). ascii k) (Message_dict L m))"
    by (simp add: Message_dict_def ascii_def)
  have "\<not> isNilValue (QueryArg_gval a)" "\<not> isNilValue (ResponseResult_gval L r)"
    "isEmptyValue (QueryArg_gval a) = (a = noArg)" "isEmptyValue (ResponseResult_gval L r) = (r = noResult)"
    for a r by (simp_all add: QueryArg_gval_def ResponseResult_gval_def)
  then show "list_all2 field_is
     [(''T'', ''t'', False, GString (mT m)),
      (''Y'', ''y'', False, GString (mY m)),
      (''Q'', ''q'', True, GString (mQ m)),
      (''A'', ''a'', True, QueryArg_gval (mA m)),
      (''R'', ''r'', True, ResponseResult_gval L (mR m)),
      (''E'', ''e'', True,
        GMarshaler (mE m = \<lparr>Code = 0, Reason = []\<rparr>) (Error_MarshalBencode (mE m))),
      (''RO'', ''ro'', True, GBool (mRO m))] (Message_dict L m)"
    using assms good_tags
    by (simp add: Message_dict_def field_is_def wf_message_def denotes_error
        QueryArg_denotes ResponseResult_denotes denotes_string denotes_true)
qed

text \<open>An instance of the address library for the witnesses: a destination is its own text and bytes.\<close>

definition no_i2p :: i2p_lib where
  "no_i2p = \<lparr>i2p_String = (\<lambda>d. d), i2p_ToBytes = Some, i2p_FromBytes = Some, i2p_DestHash = (\<lambda>d. d)\<rparr>"

section \<open>Properties\<close>

text \<open>Lists of IPv4 and of IPv6 nodes survive their compact forms: marshalling never fails or
  panics, takes 26 and 38 bytes for each node, and unmarshalling gives the same list.\<close>

theorem compact_nodes_roundtrip:
  assumes "list_all (wf_node 4) ns" "list_all (wf_node 16) ms"
  shows "(\<exists>b. CompactIPv4Node_MarshalBinary L ns = Inr b \<and> length b = 26 * length ns \<and>
       CompactIPv4Node_UnmarshalBinary L b = Inr ns) \<and>
    (\<exists>b. CompactIPv6Node_MarshalBinary L ms = Inr b \<and> length b = 38 * length ms \<and>
       CompactIPv6Node_UnmarshalBinary L b = Inr ms)"
proof -
  have wf: "\<forall>n \<in> set ns. wf_node 4 n" "\<forall>n \<in> set ms. wf_node 16 n"
    using assms by (simp_all add: list_all_iff)
  show ?thesis
    using marshal_ipv4 [OF wf(1), of L] ipv4.length_enc_list [OF wf(1), of L] ipv4.dec_enc_list [OF wf(1), of L]
      marshal_ipv6 [OF wf(2), of L] ipv6.length_enc_list [OF wf(2), of L] ipv6.dec_enc_list [OF wf(2), of L]
    by (simp add: CompactIPv4Node_UnmarshalBinary_def CompactIPv6Node_UnmarshalBinary_def)
qed

theorem compact_nodes_roundtrip_witness:
  "\<exists>b. CompactIPv4Node_MarshalBinary no_i2p
       [NewNode (replicate 20 7) [10, 0, 0, 1] 6881, NewNode (replicate 20 8) [10, 0, 0, 2] 1] = Inr b \<and>
     length b = 52 \<and> CompactIPv4Node_UnmarshalBinary no_i2p b =
       Inr [NewNode (replicate 20 7) [10, 0, 0, 1] 6881, NewNode (replicate 20 8) [10, 0, 0, 2] 1]"
  using compact_nodes_roundtrip [of "[NewNode (replicate 20 7) [10, 0, 0, 1] 6881,
      NewNode (replicate 20 8) [10, 0, 0, 2] 1]" "[]" no_i2p]
  by (simp add: NewNode_def NewAddress_def wf_node_def wf_hash_def HashSize_def)

text \<open>Every byte string whose length is a multiple of the width is accepted as compact node
  information, gives one node for each slice, and is exactly what these nodes marshal to; no
  other length is accepted.\<close>

theorem compact_bytes_roundtrip:
  "if length b mod 26 = 0
   then \<exists>ns. CompactIPv4Node_UnmarshalBinary L b = Inr ns \<and> length ns = length b div 26 \<and>
     CompactIPv4Node_MarshalBinary L ns = Inr b
   else CompactIPv4Node_UnmarshalBinary L b = Inl (InvalidLength (length b))"
proof (cases "length b mod 26 = 0")
  case True
  from ipv4.enc_dec_list [OF this, of L] obtain ns where
    "map_result (Node_UnmarshalBinary L) (chunks 26 b) = Inr ns" "\<forall>n \<in> set ns. wf_node 4 n"
    "concat (map (node_bytes L) ns) = b" "length ns = length b div 26" .
  then show ?thesis using True marshal_ipv4 [of ns L]
    by (simp add: CompactIPv4Node_UnmarshalBinary_def)
qed (simp add: CompactIPv4Node_UnmarshalBinary_def)

text \<open>A KRPC message with hashes of 20 bytes, integers of 64 bits and addresses of the right
  family is encoded without error, and what a decoder reads from the wire is exactly the
  dictionary of its fields: the transaction and the type always, query, arguments, result and
  error when they are there, compact nodes as one string, peers as a list of pairs.\<close>

theorem message_on_wire:
  assumes "wf_message L m"
  shows "\<exists>b. Message_Encode L m = Inr b \<and>
    (\<forall>s fu. Decode fu (b @ s) = Inr (BDict (sort_key fst (wire_dict (Message_dict L m))), s))"
  using denotes_transmits [OF Message_denotes [OF assms]]
  unfolding transmits_def Message_Encode_def by (blast intro: Decode_lenient)

theorem message_on_wire_witness:
  "\<exists>b. Message_Encode no_i2p (NewErrorMsg (ascii ''aa'') 203 (ascii ''bad'')) = Inr b \<and>
    (\<forall>s fu. Decode fu (b @ s) =
      Inr (BDict [(ascii ''e'', BList [BInt 203, BStr (ascii ''bad'')]), (ascii ''t'', BStr (ascii ''aa'')),
         (ascii ''y'', BStr (ascii ''e''))], s))"
proof -
  let ?m = "NewErrorMsg (ascii ''aa'') 203 (ascii ''bad'')"
  have "wf_message no_i2p ?m"
    by (simp add: wf_message_def NewErrorMsg_def zeroMessage_def noArg_def noResult_def wf_arg_def
        wf_result_def fits_def is_int64_def wf_hash_def zeroHash_def ascii_def)
  moreover have "wire_dict (Message_dict no_i2p ?m) = [(ascii ''t'', BStr (ascii ''aa'')),
      (ascii ''y'', BStr (ascii ''e'')), (ascii ''e'', BList [BInt 203, BStr (ascii ''bad'')])]"
    by (simp add: wire_dict_def Message_dict_def NewErrorMsg_def zeroMessage_def)
  moreover have "sort_key fst [(ascii ''t'', BStr (ascii ''aa'')),
      (ascii ''y'', BStr (ascii ''e'')), (ascii ''e'', BList [BInt 203, BStr (ascii ''bad'')])] =
      [(ascii ''e'', BList [BInt 203, BStr (ascii ''bad'')]), (ascii ''t'', BStr (ascii ''aa'')),
         (ascii ''y'', BStr (ascii ''e''))]" by code_simp
  ultimately show ?thesis
    using message_on_wire [of no_i2p "NewErrorMsg (ascii ''aa'') 203 (ascii ''bad'')"] by simp
qed

text \<open>The piece hashes of an info dictionary survive their bencoded form, one string of 20
  bytes for each hash.\<close>

theorem hashes_roundtrip:
  assumes "list_all wf_hash hs" "20 * length hs < 2 ^ 31"
  shows "\<exists>b. Hashes_MarshalBencode hs = Inr b \<and> Hashes_UnmarshalBencode b = Inr hs"
proof -
  have l: "length (concat hs) = 20 * length hs" "chunks 20 (concat hs) = hs"
    using assms(1) by (induction hs) (simp_all add: wf_hash_def HashSize_def)
  have "decode_bytes_target (encodeStringType (concat hs)) = Inr (concat hs, [])"
    using decodeString_encode [of "concat hs" "[]"] encodeStringType_head [of "concat hs" "[]"] l(1) assms(2)
    by (auto simp: decode_bytes_target_def)
  then show ?thesis using l
    by (simp add: Hashes_MarshalBencode_def Hashes_UnmarshalBencode_def encodeValue.simps
        is_byte_slice_def HashSize_def)
qed

theorem hashes_roundtrip_witness:
  "\<exists>b. Hashes_MarshalBencode [replicate 20 1, replicate 20 2] = Inr b \<and>
     Hashes_UnmarshalBencode b = Inr [replicate 20 1, replicate 20 2]"
  by (rule hashes_roundtrip) (simp_all add: wf_hash_def HashSize_def)

end
