(* ===== verification/RoutingTable.thy ===== *)
theory RoutingTable
  imports Krpc "HOL-Library.Multiset"
begin

text \<open>
  \<^verbatim>\<open>dht/routing_table.go\<close>: buckets by length of the common prefix with the own identifier, the
  status of nodes by age, insertion, the periodic check, and the search for the nodes closest to
  a target. Times are nanoseconds. A panic is \<open>None\<close>, or a flag where the code goes on
  after recovering from it.
\<close>

abbreviation badTimeout :: duration where
  "badTimeout \<equiv> 20 * minute"

abbreviation dubiousTimeout :: duration where
  "dubiousTimeout \<equiv> 15 * minute"

abbreviation bktlen :: nat where
  "bktlen \<equiv> 160"

datatype node_status = nodeStatusGood | nodeStatusDubious | nodeStatusBad

datatype add_status = NodeAdded | NodeNotAdded | NodeExistAndUpdated | NodeExistAndChanged

record wrapped_node =
  WNode :: node
  WChanged :: time

record bucket =
  Nodes :: "wrapped_node list"
  BChanged :: time

record routing_table =
  rt_k :: int
  rt_root :: hash
  rt_bkts :: "bucket list"

section \<open>Nodes\<close>

definition wrappedNode_IsBad :: "wrapped_node \<Rightarrow> time \<Rightarrow> bool" where
  "wrappedNode_IsBad n now \<longleftrightarrow> badTimeout < now - WChanged n"

definition wrappedNode_IsDubious :: "wrapped_node \<Rightarrow> time \<Rightarrow> bool" where
  "wrappedNode_IsDubious n now \<longleftrightarrow> dubiousTimeout < now - WChanged n"

definition wrappedNode_Status :: "wrapped_node \<Rightarrow> time \<Rightarrow> node_status" where
  "wrappedNode_Status n now =
     (if badTimeout < now - WChanged n then nodeStatusBad
      else if dubiousTimeout < now - WChanged n then nodeStatusDubious
      else nodeStatusGood)"

section \<open>Buckets\<close>

text \<open>The index of the first element with a property.\<close>

fun index_of :: "('a \<Rightarrow> bool) \<Rightarrow> 'a list \<Rightarrow> nat option" where
  "index_of P [] = None"
| "index_of P (x # xs) =
     (if P x then Some 0 else case index_of P xs of None \<Rightarrow> None | Some i \<Rightarrow> Some (Suc i))"

text \<open>
  The entries are pointers. Refreshing one refreshes every occurrence of the same pointer,
  that is, every entry with the same identifier: a second node with an identifier that is
  already there is never stored. When a full bucket replaces the bad node at \<open>i\<close>, \<^verbatim>\<open>copy\<close>
  moves the entries after it down by one and leaves the last one where it was, and the new
  node is appended behind it.
\<close>

definition bucket_AddNode ::
  "i2p_lib \<Rightarrow> int \<Rightarrow> bucket \<Rightarrow> node \<Rightarrow> time \<Rightarrow> (bucket \<times> add_status) option" where
  "bucket_AddNode L k b n now =
     (case find (\<lambda>w. ID (WNode w) = ID n) (Nodes b) of
        Some orig \<Rightarrow>
          (case Address_Equal L (Addr (WNode orig)) (Addr n) of
             None \<Rightarrow> None
           | Some True \<Rightarrow>
               Some (b\<lparr>Nodes := map (\<lambda>w. if ID (WNode w) = ID n then w\<lparr>WChanged := now\<rparr> else w) (Nodes b),
                       BChanged := now\<rparr>, NodeExistAndUpdated)
           | Some False \<Rightarrow> Some (b, NodeExistAndChanged))
      | None \<Rightarrow>
          if int (length (Nodes b)) < k
          then Some (b\<lparr>Nodes := Nodes b @ [\<lparr>WNode = n, WChanged = now\<rparr>], BChanged := now\<rparr>, NodeAdded)
          else (case index_of (\<lambda>w. wrappedNode_IsBad w now) (Nodes b) of
                  Some i \<Rightarrow>
                    Some (b\<lparr>Nodes := (take i (Nodes b) @ drop (Suc i) (Nodes b) @ [last (Nodes b)])
                                     @ [\<lparr>WNode = n, WChanged = now\<rparr>],
                            BChanged := now\<rparr>, NodeAdded)
                | None \<Rightarrow> Some (b, NodeNotAdded)))"

text \<open>Deleting the node at an index; out of range it panics.\<close>

definition bucket_delNodeByIndex :: "wrapped_node list \<Rightarrow> nat \<Rightarrow> wrapped_node list option" where
  "bucket_delNodeByIndex ns i = (if i < length ns then Some (take i ns @ drop (Suc i) ns) else None)"

text \<open>The loop over the collected indexes: what is left, and whether it panicked.\<close>

fun del_indexes :: "wrapped_node list \<Rightarrow> nat list \<Rightarrow> wrapped_node list \<times> bool" where
  "del_indexes ns [] = (ns, False)"
| "del_indexes ns (i # is) =
     (case bucket_delNodeByIndex ns i of None \<Rightarrow> (ns, True) | Some ns' \<Rightarrow> del_indexes ns' is)"

definition bad_indexes :: "wrapped_node list \<Rightarrow> time \<Rightarrow> nat list" where
  "bad_indexes ns now = filter (\<lambda>i. wrappedNode_Status (ns ! i) now = nodeStatusBad) [0..<length ns]"

text \<open>The check of a bucket: the bucket after it, the addresses it pings, and whether it panicked.\<close>

definition bucket_CheckAllNodes :: "bucket \<Rightarrow> time \<Rightarrow> bucket \<times> netaddr list \<times> bool" where
  "bucket_CheckAllNodes b now =
     (if Nodes b = [] \<or> now - BChanged b < dubiousTimeout then (b, [], False)
      else let pings = map (\<lambda>w. Address_Addr (Addr (WNode w)))
                         (filter (\<lambda>w. wrappedNode_Status w now = nodeStatusDubious) (Nodes b));
               (ns, panicked) = del_indexes (Nodes b) (bad_indexes (Nodes b) now)
           in (b\<lparr>Nodes := ns\<rparr>, pings, panicked))"

section \<open>The table\<close>

definition leading_bit :: "byte \<Rightarrow> nat" where
  "leading_bit v =
     (if v AND 128 > 0 then 7 else if v AND 64 > 0 then 6 else if v AND 32 > 0 then 5
      else if v AND 16 > 0 then 4 else if v AND 8 > 0 then 3 else if v AND 4 > 0 then 2
      else if v AND 2 > 0 then 1 else 0)"

text \<open>The loop over the bytes leaves at the first that differs; at the end \<^verbatim>\<open>i\<close> is the last index.\<close>

fun bucketid_from :: "nat \<Rightarrow> hash \<Rightarrow> hash \<Rightarrow> nat" where
  "bucketid_from i (a # as) (b # bs) =
     (if a XOR b \<noteq> 0 then i * 8 + (7 - leading_bit (a XOR b))
      else if as = [] then i * 8 + 7
      else bucketid_from (Suc i) as bs)"
| "bucketid_from i _ _ = i * 8 + 7"

definition bucketid :: "hash \<Rightarrow> hash \<Rightarrow> nat" where
  "bucketid ownerid nid = bucketid_from 0 ownerid nid"

definition rt_addNode ::
  "i2p_lib \<Rightarrow> routing_table \<Rightarrow> node \<Rightarrow> time \<Rightarrow> (routing_table \<times> add_status) option" where
  "rt_addNode L rt n now =
     (let i = bucketid (rt_root rt) (ID n)
      in case bucket_AddNode L (rt_k rt) (rt_bkts rt ! i) n now of
           None \<Rightarrow> None
         | Some (b, r) \<Rightarrow> Some (rt\<lparr>rt_bkts := (rt_bkts rt)[i := b]\<rparr>, r))"

definition rt_AddNode ::
  "i2p_lib \<Rightarrow> routing_table \<Rightarrow> node \<Rightarrow> time \<Rightarrow> (routing_table \<times> add_status) option" where
  "rt_AddNode L rt n now =
     (if ID n = rt_root rt then Some (rt, NodeNotAdded) else rt_addNode L rt n now)"

text \<open>A table made from the stored nodes that are not older than the dubious timeout.\<close>

fun load_nodes :: "i2p_lib \<Rightarrow> routing_table \<Rightarrow> (node \<times> time) list \<Rightarrow> time \<Rightarrow> routing_table option" where
  "load_nodes L rt [] now = Some rt"
| "load_nodes L rt ((n, changed) # ns) now =
     (if now - changed < dubiousTimeout
      then case rt_addNode L rt n changed of None \<Rightarrow> None | Some (rt', _) \<Rightarrow> load_nodes L rt' ns now
      else load_nodes L rt ns now)"

definition newRoutingTable ::
  "i2p_lib \<Rightarrow> int \<Rightarrow> hash \<Rightarrow> (node \<times> time) list option \<Rightarrow> time \<Rightarrow> routing_table option" where
  "newRoutingTable L k root stored now =
     (let rt = \<lparr>rt_k = k, rt_root = root, rt_bkts = replicate bktlen \<lparr>Nodes = [], BChanged = 0\<rparr>\<rparr>
      in case stored of None \<Rightarrow> Some rt | Some ns \<Rightarrow> load_nodes L rt ns now)"

definition rt_dump :: "routing_table \<Rightarrow> (node \<times> time) list" where
  "rt_dump rt = concat (map (\<lambda>b. map (\<lambda>w. (WNode w, WChanged w)) (Nodes b)) (rt_bkts rt))"

definition rt_Len :: "routing_table \<Rightarrow> nat" where
  "rt_Len rt = sum_list (map (\<lambda>b. length (Nodes b)) (rt_bkts rt))"

text \<open>A panic in one bucket ends the loop: the buckets after it are not checked.\<close>

fun checkAllBuckets :: "bucket list \<Rightarrow> time \<Rightarrow> bucket list \<times> netaddr list" where
  "checkAllBuckets [] now = ([], [])"
| "checkAllBuckets (b # bs) now =
     (case bucket_CheckAllNodes b now of
        (b', pings, True) \<Rightarrow> (b' # bs, pings)
      | (b', pings, False) \<Rightarrow>
          (let (bs', pings') = checkAllBuckets bs now in (b' # bs', pings @ pings')))"

definition rt_checkAllBuckets :: "routing_table \<Rightarrow> time \<Rightarrow> routing_table \<times> netaddr list" where
  "rt_checkAllBuckets rt now =
     (let (bs, pings) = checkAllBuckets (rt_bkts rt) now in (rt\<lparr>rt_bkts := bs\<rparr>, pings))"

section \<open>Closest nodes\<close>

fun distcmp :: "hash \<Rightarrow> hash \<Rightarrow> hash \<Rightarrow> int" where
  "distcmp (t # ts) (a # as) (b # bs) =
     (if a XOR t > b XOR t then 1 else if a XOR t < b XOR t then - 1 else distcmp ts as bs)"
| "distcmp _ _ _ = 0"

text \<open>\<^verbatim>\<open>sort.Search\<close>: binary search for the first index with a property.\<close>

function sort_Search :: "nat \<Rightarrow> nat \<Rightarrow> (nat \<Rightarrow> bool) \<Rightarrow> nat" where
  "sort_Search i j P =
     (if i < j then (let h = (i + j) div 2 in if \<not> P h then sort_Search (h + 1) j P else sort_Search i h P)
      else i)"
  by pat_completeness auto
termination
  by (relation "measure (\<lambda>(i, j, P). j - i)") auto

declare sort_Search.simps [simp del]

definition nodesByDistance_push :: "hash \<Rightarrow> int \<Rightarrow> node list \<Rightarrow> node \<Rightarrow> node list" where
  "nodesByDistance_push target maxnum nodes n =
     (let ix = sort_Search 0 (length nodes) (\<lambda>i. distcmp target (ID (nodes ! i)) (ID n) > 0);
          nodes' = (if int (length nodes) < maxnum then nodes @ [n] else nodes)
      in if ix \<noteq> length nodes' then take ix nodes' @ [n] @ butlast (drop ix nodes') else nodes')"

definition rt_nodes :: "routing_table \<Rightarrow> node list" where
  "rt_nodes rt = concat (map (\<lambda>b. map WNode (Nodes b)) (rt_bkts rt))"

definition rt_Closest :: "routing_table \<Rightarrow> hash \<Rightarrow> int \<Rightarrow> node list" where
  "rt_Closest rt target maxnum = foldl (nodesByDistance_push target maxnum) [] (rt_nodes rt)"

section \<open>The search is a stable sort\<close>

definition dist :: "hash \<Rightarrow> node \<Rightarrow> bytes" where
  "dist target n = map2 (XOR) (ID n) target"

lemma distcmp_pos:
  "length a = length t \<Longrightarrow> length b = length t \<Longrightarrow>
   distcmp t a b > 0 \<longleftrightarrow> map2 (XOR) b t < map2 (XOR) a t"
proof (induction t a b rule: distcmp.induct)
  case (1 t ts a as b bs)
  then show ?case by (auto simp: not_less_iff_gr_or_eq)
qed auto

lemma sort_Search_eq:
  "i \<le> m \<Longrightarrow> m \<le> j \<Longrightarrow> \<forall>h. i \<le> h \<and> h < m \<longrightarrow> \<not> P h \<Longrightarrow> \<forall>h. m \<le> h \<and> h < j \<longrightarrow> P h \<Longrightarrow>
   sort_Search i j P = m"
proof (induction i j P rule: sort_Search.induct)
  case (1 i j P)
  show ?case
  proof (cases "i < j")
    case True
    let ?h = "(i + j) div 2"
    have h: "i \<le> ?h" "?h < j" using True by auto
    show ?thesis
    proof (cases "P ?h")
      case True
      then have "m \<le> ?h" using 1(5) h by (meson not_le)
      then have "sort_Search i ?h P = m"
        using 1(2) [OF \<open>i < j\<close> refl] True 1(3,5,6) h by auto
      then show ?thesis using True \<open>i < j\<close> by (subst sort_Search.simps) (simp add: Let_def)
    next
      case False
      then have "?h < m" using 1(6) h by (meson not_le)
      then have "sort_Search (?h + 1) j P = m"
        using 1(1) [OF \<open>i < j\<close> refl] False 1(4,5,6) h by auto
      then show ?thesis using False \<open>i < j\<close> by (subst sort_Search.simps) (simp add: Let_def)
    qed
  next
    case False
    then show ?thesis using 1(3,4) by (subst sort_Search.simps) simp
  qed
qed

text \<open>Insertion behind the entries that are not further away.\<close>

fun ins :: "('a \<Rightarrow> 'b :: linorder) \<Rightarrow> 'a \<Rightarrow> 'a list \<Rightarrow> 'a list" where
  "ins d n [] = [n]"
| "ins d n (x # xs) = (if d x \<le> d n then x # ins d n xs else n # x # xs)"

lemma ins_split: "ins d n xs = takeWhile (\<lambda>x. d x \<le> d n) xs @ n # dropWhile (\<lambda>x. d x \<le> d n) xs"
  by (induction xs) auto

lemma ins_take: "take k (ins d n (take k xs)) = take k (ins d n xs)"
proof (induction xs arbitrary: k)
  case (Cons x xs)
  then show ?case by (cases k) (auto simp: take_Cons')
qed simp

lemma set_ins [simp]: "set (ins d n xs) = insert n (set xs)"
  by (induction xs) auto

lemma mset_ins [simp]: "mset (ins d n xs) = add_mset n (mset xs)"
  by (induction xs) auto

lemma sorted_ins: "sorted (map d xs) \<Longrightarrow> sorted (map d (ins d n xs))"
  by (induction xs) auto

lemma filter_ins:
  "sorted (map d xs) \<Longrightarrow> filter (\<lambda>x. d k = d x) (ins d n xs) =
     filter (\<lambda>x. d k = d x) xs @ filter (\<lambda>x. d k = d x) [n]"
proof (induction xs)
  case (Cons x xs)
  have "filter (\<lambda>y. d n = d y) (x # xs) = []" if "\<not> d x \<le> d n"
    using that Cons(2) by (auto simp: filter_empty_conv)
  then show ?case using Cons by (cases "d k = d n") auto
qed simp

lemma foldl_ins: "foldl (\<lambda>xs x. ins d x xs) [] ys = sort_key d ys"
proof -
  have "foldl (\<lambda>xs x. ins d x xs) (sort_key d zs) ys = sort_key d (zs @ ys)" for zs
  proof (induction ys arbitrary: zs)
    case (Cons y ys)
    have "filter (\<lambda>x. d k = d x) (sort_key d zs) = filter (\<lambda>x. d k = d x) zs" for k
      using sort_key_stable [of d "d k" zs] by (simp add: eq_commute)
    then have "sort_key d (zs @ [y]) = ins d y (sort_key d zs)"
      by (intro properties_for_sort_key) (simp_all add: filter_ins sorted_ins)
    then show ?case using Cons [of "zs @ [y]"] by simp
  qed simp
  from this [of "[]"] show ?thesis by simp
qed

lemma push_ins:
  assumes "sorted (map (dist target) ns)" "length ns \<le> nat maxnum" "length target = 20"
    "\<forall>m \<in> set (n # ns). length (ID m) = 20"
  shows "nodesByDistance_push target maxnum ns n = take (nat maxnum) (ins (dist target) n ns)"
proof -
  let ?Q = "\<lambda>x. dist target x \<le> dist target n"
  define tw where "tw = takeWhile ?Q ns"
  define dw where "dw = dropWhile ?Q ns"
  have ns: "ns = tw @ dw" by (simp add: tw_def dw_def)
  have P: "distcmp target (ID (ns ! i)) (ID n) > 0 \<longleftrightarrow> \<not> ?Q (ns ! i)" if "i < length ns" for i
    using that assms(3,4) by (subst distcmp_pos) (auto simp: dist_def not_le)
  have A: "?Q (ns ! h)" if "h < length tw" for h
    using that nth_mem [OF that] set_takeWhileD [of "tw ! h" ?Q ns] by (simp add: tw_def takeWhile_nth)
  have B: "\<not> ?Q (ns ! h)" if "length tw \<le> h" "h < length ns" for h
  proof -
    have "\<not> ?Q (ns ! length tw)" using that nth_length_takeWhile [of ?Q ns] by (simp add: tw_def)
    moreover have "dist target (ns ! length tw) \<le> dist target (ns ! h)"
      using sorted_nth_mono [OF assms(1), of "length tw" h] that by simp
    ultimately show ?thesis by order
  qed
  have "length tw \<le> length ns" by (simp add: tw_def length_takeWhile_le)
  then have ix: "sort_Search 0 (length ns) (\<lambda>i. distcmp target (ID (ns ! i)) (ID n) > 0) = length tw"
    using A B P by (intro sort_Search_eq) auto
  have push: "nodesByDistance_push target maxnum ns n =
      (let ns' = (if int (length ns) < maxnum then ns @ [n] else ns)
       in if length tw \<noteq> length ns' then take (length tw) ns' @ [n] @ butlast (drop (length tw) ns') else ns')"
    by (simp only: nodesByDistance_push_def ix Let_def)
  have i: "ins (dist target) n ns = tw @ n # dw" by (simp add: ins_split tw_def dw_def)
  show ?thesis
  proof (cases "int (length ns) < maxnum")
    case True
    then have "length (tw @ n # dw) \<le> nat maxnum" using ns by (simp add: Suc_le_eq)
    then show ?thesis unfolding push i using True ns by (simp add: butlast_append)
  next
    case False
    then have k: "nat maxnum = length ns" using assms(2) by linarith
    have "take (length ns) (tw @ n # dw) = (if dw = [] then tw else tw @ n # butlast dw)"
      using ns by (simp add: take_Cons' butlast_conv_take)
    then show ?thesis unfolding push i k using False ns by (simp add: Let_def)
  qed
qed

lemma foldl_push:
  assumes "length target = 20" "\<forall>m \<in> set ms. length (ID m) = 20" "\<forall>m \<in> set S. length (ID m) = 20"
    "sorted (map (dist target) S)"
  shows "foldl (nodesByDistance_push target maxnum) (take (nat maxnum) S) ms =
    take (nat maxnum) (foldl (\<lambda>xs x. ins (dist target) x xs) S ms)"
  using assms
proof (induction ms arbitrary: S)
  case (Cons m ms)
  let ?k = "nat maxnum"
  have "nodesByDistance_push target maxnum (take ?k S) m = take ?k (ins (dist target) m (take ?k S))"
    using Cons(2-5) by (intro push_ins) (auto simp: take_map [symmetric] sorted_wrt_take dest: in_set_takeD)
  then have "nodesByDistance_push target maxnum (take ?k S) m = take ?k (ins (dist target) m S)"
    by (simp add: ins_take)
  then show ?case using Cons(1) [of "ins (dist target) m S"] Cons(2-5) by (simp add: sorted_ins)
qed simp

lemma Closest_sort:
  assumes "length target = 20" "\<forall>n \<in> set (rt_nodes rt). length (ID n) = 20"
  shows "rt_Closest rt target maxnum = take (nat maxnum) (sort_key (dist target) (rt_nodes rt))"
  using foldl_push [OF assms, of "[]" maxnum] by (simp add: rt_Closest_def foldl_ins)


section \<open>Buckets by common prefix\<close>

definition hash_bit :: "hash \<Rightarrow> nat \<Rightarrow> bool" where
  "hash_bit h j = bit (h ! (j div 8)) (7 - j mod 8)"

lemma xor_eq_0 [simp]: "a XOR b = 0 \<longleftrightarrow> a = b" for a b :: byte
  by (auto simp: bit_eq_iff bit_xor_iff)

lemma and_mask_pos: "v AND 2 ^ m > 0 \<longleftrightarrow> bit v m" for v :: byte
  by (simp add: word_gt_0 and_exp_eq_0_iff_not_bit)

lemma leading_bit_cases:
  "leading_bit v = (if bit v 7 then 7 else if bit v 6 then 6 else if bit v 5 then 5 else if bit v 4 then 4
     else if bit v 3 then 3 else if bit v 2 then 2 else if bit v 1 then 1 else 0)"
  using and_mask_pos [of v 7] and_mask_pos [of v 6] and_mask_pos [of v 5] and_mask_pos [of v 4]
    and_mask_pos [of v 3] and_mask_pos [of v 2] and_mask_pos [of v 1]
  by (simp add: leading_bit_def)

lemma leading_bit:
  assumes "v \<noteq> 0"
  shows "leading_bit v < 8" "bit v (leading_bit v)" "\<And>m. leading_bit v < m \<Longrightarrow> m < 8 \<Longrightarrow> \<not> bit v m"
proof -
  show "leading_bit v < 8" by (simp add: leading_bit_cases)
  have "\<exists>n < 8. bit v n"
  proof (rule ccontr)
    assume "\<not> (\<exists>n < 8. bit v n)"
    then have "v = 0" by (intro bit_word_eqI) simp
    then show False using assms by simp
  qed
  then obtain n where n: "n < 8" "bit v n" by blast
  then have "n = 0 \<or> n = 1 \<or> n = 2 \<or> n = 3 \<or> n = 4 \<or> n = 5 \<or> n = 6 \<or> n = 7" by auto
  then show "bit v (leading_bit v)" using n(2) by (auto simp: leading_bit_cases)
  fix m assume m: "leading_bit v < m" "m < 8"
  then have "m = 1 \<or> m = 2 \<or> m = 3 \<or> m = 4 \<or> m = 5 \<or> m = 6 \<or> m = 7" by auto
  then show "\<not> bit v m" using m(1) by (auto simp: leading_bit_cases split: if_splits)
qed

lemma bucketid_from_eq: "as \<noteq> [] \<Longrightarrow> bucketid_from i as as = (i + length as - 1) * 8 + 7"
  by (induction as arbitrary: i) (auto simp: Suc_diff_le neq_Nil_conv)

lemma bucketid_from_diff:
  assumes "as \<noteq> bs" "length as = length bs"
  obtains j where "j < length as" "\<forall>m < j. as ! m = bs ! m" "as ! j \<noteq> bs ! j"
    "bucketid_from i as bs = (i + j) * 8 + (7 - leading_bit (as ! j XOR bs ! j))"
proof -
  have "\<exists>j < length as. (\<forall>m < j. as ! m = bs ! m) \<and> as ! j \<noteq> bs ! j \<and>
      bucketid_from i as bs = (i + j) * 8 + (7 - leading_bit (as ! j XOR bs ! j))"
    using assms
  proof (induction i as bs rule: bucketid_from.induct)
    case (1 i a as b bs)
    show ?case
    proof (cases "a = b")
      case False
      then show ?thesis by (intro exI [of _ 0]) simp
    next
      case True
      then have ne: "as \<noteq> []" "as \<noteq> bs" using 1(2,3) by auto
      then obtain j where "j < length as" "\<forall>m < j. as ! m = bs ! m" "as ! j \<noteq> bs ! j"
        "bucketid_from (Suc i) as bs = (Suc i + j) * 8 + (7 - leading_bit (as ! j XOR bs ! j))"
        using 1 True by auto
      then show ?thesis using True ne
        by (intro exI [of _ "Suc j"]) (auto simp: nth_Cons split: nat.splits)
    qed
  qed auto
  then show thesis using that by blast
qed

lemma bucketid_spec:
  assumes "wf_hash a" "wf_hash b" "a \<noteq> b"
  shows "bucketid a b < bktlen" "hash_bit a (bucketid a b) \<noteq> hash_bit b (bucketid a b)"
    "\<And>j. j < bucketid a b \<Longrightarrow> hash_bit a j = hash_bit b j"
proof -
  from assms obtain j where j: "j < 20" "\<forall>m < j. a ! m = b ! m" "a ! j \<noteq> b ! j"
    and id: "bucketid a b = j * 8 + (7 - leading_bit (a ! j XOR b ! j))"
    using bucketid_from_diff [of a b 0] by (auto simp: bucketid_def wf_hash_def HashSize_def)
  let ?v = "a ! j XOR b ! j"
  have v: "?v \<noteq> 0" using j(3) by simp
  note lb = leading_bit [OF v]
  show "bucketid a b < bktlen" using j(1) id lb(1) by linarith
  define m where "m = 7 - leading_bit ?v"
  have m: "m < 8" "leading_bit ?v = 7 - m" "bucketid a b = j * 8 + m"
    using lb(1) id by (simp_all add: m_def)
  have "bucketid a b div 8 = j" "bucketid a b mod 8 = m" using m(1) by (simp_all add: m(3))
  then show "hash_bit a (bucketid a b) \<noteq> hash_bit b (bucketid a b)"
    using lb(2) m(2) by (simp add: hash_bit_def bit_xor_iff)
  fix i assume i: "i < bucketid a b"
  show "hash_bit a i = hash_bit b i"
  proof (cases "i div 8 < j")
    case True
    then show ?thesis using j(2) by (simp add: hash_bit_def)
  next
    case False
    then have d: "i div 8 = j" using i m(1,3) by linarith
    then have "i mod 8 < m" using i m(3) mult_div_mod_eq [of 8 i] by linarith
    then have "leading_bit ?v < 7 - i mod 8" using m(1,2) by linarith
    then have "\<not> bit ?v (7 - i mod 8)" by (rule lb(3)) simp
    then show ?thesis using d by (simp add: hash_bit_def bit_xor_iff)
  qed
qed

lemma bucketid_self: "wf_hash a \<Longrightarrow> bucketid a a = 159"
  using bucketid_from_eq [of a 0] by (cases a) (simp_all add: bucketid_def wf_hash_def HashSize_def)

lemma bucketid_bound: "wf_hash a \<Longrightarrow> wf_hash b \<Longrightarrow> bucketid a b < bktlen"
  using bucketid_spec(1) [of a b] bucketid_self [of a] by (cases "a = b") auto


section \<open>Operations\<close>

lemma index_of_Some:
  "index_of P xs = Some i \<Longrightarrow> i < length xs \<and> P (xs ! i) \<and> (\<forall>j < i. \<not> P (xs ! j))"
  by (induction xs arbitrary: i) (auto split: if_splits option.splits simp: nth_Cons split: nat.splits)

lemma set_shifted: "i < length xs \<Longrightarrow> set (take i xs @ drop (Suc i) xs @ [last xs]) \<subseteq> set xs"
  by (auto dest: in_set_takeD in_set_dropD intro!: last_in_set)

lemma bucket_AddNode_nodes:
  assumes "bucket_AddNode L k b n now = Some (b', r)"
  shows "map WNode (Nodes b') = map WNode (Nodes b) \<and> r \<noteq> NodeAdded \<or>
    r = NodeAdded \<and> n \<in> set (map WNode (Nodes b')) \<and>
    set (map WNode (Nodes b')) \<subseteq> insert n (set (map WNode (Nodes b)))"
proof (cases "find (\<lambda>w. ID (WNode w) = ID n) (Nodes b)")
  case None
  show ?thesis
  proof (cases "index_of (\<lambda>w. wrappedNode_IsBad w now) (Nodes b)")
    case (Some i)
    define ns where "ns = take i (Nodes b) @ drop (Suc i) (Nodes b) @ [last (Nodes b)]"
    have "set ns \<subseteq> set (Nodes b)" unfolding ns_def using Some index_of_Some set_shifted by blast
    then have S: "WNode x \<in> WNode ` set (Nodes b)" if "x \<in> set ns" for x using that by blast
    show ?thesis
    proof (cases "int (length (Nodes b)) < k")
      case False
      then have "b' = b\<lparr>Nodes := ns @ [\<lparr>WNode = n, WChanged = now\<rparr>], BChanged := now\<rparr>" "r = NodeAdded"
        using assms None Some by (simp_all add: bucket_AddNode_def ns_def)
      then show ?thesis using S by auto
    qed (use assms None in \<open>auto simp: bucket_AddNode_def\<close>)
  qed (use assms None in \<open>auto simp: bucket_AddNode_def split: if_splits\<close>)
next
  case (Some orig)
  have "map WNode (map (\<lambda>w. if ID (WNode w) = ID n then w\<lparr>WChanged := now\<rparr> else w) ns) = map WNode ns" for ns
    by (induction ns) auto
  then show ?thesis using assms Some
    by (auto simp: bucket_AddNode_def simp del: map_map split: option.splits bool.splits)
qed

lemma del_indexes_subset: "set (fst (del_indexes ns is)) \<subseteq> set ns"
proof (induction "is" arbitrary: ns)
  case (Cons i "is")
  then show ?case
    by (auto simp: bucket_delNodeByIndex_def dest!: subsetD [OF Cons] dest: in_set_takeD in_set_dropD)
qed simp

lemma CheckAllNodes_subset: "set (Nodes (fst (bucket_CheckAllNodes b now))) \<subseteq> set (Nodes b)"
  using del_indexes_subset [of "Nodes b" "bad_indexes (Nodes b) now"]
  by (auto simp: bucket_CheckAllNodes_def Let_def split_beta)

lemma checkAllBuckets_nth:
  "length (fst (checkAllBuckets bs now)) = length bs \<and>
   (\<forall>i < length bs. set (Nodes (fst (checkAllBuckets bs now) ! i)) \<subseteq> set (Nodes (bs ! i)))"
proof (induction bs)
  case (Cons b bs)
  obtain b' pings p where c: "bucket_CheckAllNodes b now = (b', pings, p)" by (cases "bucket_CheckAllNodes b now")
  then have "set (Nodes b') \<subseteq> set (Nodes b)" using CheckAllNodes_subset [of b now] by simp
  then show ?case using Cons c
    by (cases p) (auto simp: Let_def split_beta nth_Cons split: nat.splits)
qed simp

text \<open>Every node is in the bucket of its common prefix with the own identifier.\<close>

definition placed :: "routing_table \<Rightarrow> bool" where
  "placed rt \<longleftrightarrow> wf_hash (rt_root rt) \<and> length (rt_bkts rt) = bktlen \<and>
     (\<forall>i < bktlen. \<forall>w \<in> set (Nodes (rt_bkts rt ! i)).
        wf_hash (ID (WNode w)) \<and> bucketid (rt_root rt) (ID (WNode w)) = i)"

lemma placedI:
  assumes "wf_hash (rt_root rt)" "length (rt_bkts rt) = bktlen"
    "\<And>i w. i < bktlen \<Longrightarrow> w \<in> set (Nodes (rt_bkts rt ! i)) \<Longrightarrow>
      wf_hash (ID (WNode w)) \<and> bucketid (rt_root rt) (ID (WNode w)) = i"
  shows "placed rt"
  unfolding placed_def using assms by blast

lemma placedD:
  assumes "placed rt"
  shows "wf_hash (rt_root rt)" "length (rt_bkts rt) = bktlen"
    "i < bktlen \<Longrightarrow> w \<in> set (Nodes (rt_bkts rt ! i)) \<Longrightarrow>
      wf_hash (ID (WNode w)) \<and> bucketid (rt_root rt) (ID (WNode w)) = i"
  using assms unfolding placed_def by blast+

lemma addNode_placed:
  assumes "placed rt" "wf_hash (ID n)" "rt_addNode L rt n now = Some (rt', r)"
  shows "placed rt'"
proof -
  let ?i = "bucketid (rt_root rt) (ID n)"
  obtain b where b: "bucket_AddNode L (rt_k rt) (rt_bkts rt ! ?i) n now = Some (b, r)"
    "rt' = rt\<lparr>rt_bkts := (rt_bkts rt)[?i := b]\<rparr>"
    using assms(3) by (auto simp: rt_addNode_def Let_def split: option.splits)
  have i: "?i < bktlen" by (rule bucketid_bound [OF placedD(1) [OF assms(1)] assms(2)])
  have "WNode w \<in> insert n (set (map WNode (Nodes (rt_bkts rt ! ?i))))" if "w \<in> set (Nodes b)" for w
    using that bucket_AddNode_nodes [OF b(1)] by (metis image_eqI insertCI list.set_map subsetD)
  then have new: "wf_hash (ID (WNode w)) \<and> bucketid (rt_root rt) (ID (WNode w)) = ?i" if "w \<in> set (Nodes b)" for w
    using that assms(2) placedD(3) [OF assms(1) i] by force
  show ?thesis
  proof (rule placedI)
    fix j w assume "j < bktlen" "w \<in> set (Nodes (rt_bkts rt' ! j))"
    then show "wf_hash (ID (WNode w)) \<and> bucketid (rt_root rt') (ID (WNode w)) = j"
      using new placedD(3) [OF assms(1), of j w] placedD(2) [OF assms(1)] b(2) by (cases "j = ?i") simp_all
  qed (use b(2) placedD [OF assms(1)] in simp_all)
qed

inductive rt_step :: "i2p_lib \<Rightarrow> routing_table \<Rightarrow> routing_table \<Rightarrow> bool" for L where
  add: "wf_hash (ID n) \<Longrightarrow> rt_AddNode L rt n now = Some (rt', r) \<Longrightarrow> rt_step L rt rt'"
| check: "rt_checkAllBuckets rt now = (rt', pings) \<Longrightarrow> rt_step L rt rt'"

definition rt_init :: "i2p_lib \<Rightarrow> routing_table \<Rightarrow> bool" where
  "rt_init L rt \<longleftrightarrow> (\<exists>k root stored now. wf_hash root \<and>
     (\<forall>(n, t) \<in> set (case stored of None \<Rightarrow> [] | Some ns \<Rightarrow> ns). wf_hash (ID n)) \<and>
     newRoutingTable L k root stored now = Some rt)"

lemma load_placed:
  "placed rt \<Longrightarrow> \<forall>(n, t) \<in> set ns. wf_hash (ID n) \<Longrightarrow> load_nodes L rt ns now = Some rt' \<Longrightarrow> placed rt'"
proof (induction ns arbitrary: rt)
  case (Cons nt ns)
  obtain n t where nt: "nt = (n, t)" by (cases nt)
  show ?case
  proof (cases "now - t < dubiousTimeout")
    case True
    then obtain rt1 r where "rt_addNode L rt n t = Some (rt1, r)" "load_nodes L rt1 ns now = Some rt'"
      using Cons(4) nt by (auto split: option.splits)
    moreover from this(1) have "placed rt1"
      by (rule addNode_placed [rotated 2]) (use Cons(2,3) nt in simp_all)
    ultimately show ?thesis using Cons(3) nt by (intro Cons(1) [of rt1]) simp_all
  next
    case False
    then show ?thesis using Cons(2-4) nt by (intro Cons(1) [of rt]) simp_all
  qed
qed simp

interpretation table: inductive_invariant "rt_init L" "rt_step L" placed for L
proof
  fix rt assume "rt_init L rt"
  then obtain k root stored now where *: "wf_hash root"
    "\<forall>(n, t) \<in> set (case stored of None \<Rightarrow> [] | Some ns \<Rightarrow> ns). wf_hash (ID n)"
    "newRoutingTable L k root stored now = Some rt" by (auto simp: rt_init_def)
  have "placed \<lparr>rt_k = k, rt_root = root, rt_bkts = replicate bktlen \<lparr>Nodes = [], BChanged = 0\<rparr>\<rparr>"
    using *(1) by (intro placedI) simp_all
  then show "placed rt"
    using *(2,3) load_placed [of _ "the stored" L now rt] by (cases stored) (simp_all add: newRoutingTable_def)
next
  fix rt rt' assume p: "placed rt" and "rt_step L rt rt'"
  from this(2) show "placed rt'"
  proof cases
    case (add n now r)
    then show ?thesis using p addNode_placed by (auto simp: rt_AddNode_def split: if_splits)
  next
    case (check now pings)
    then have rt': "rt' = rt\<lparr>rt_bkts := fst (checkAllBuckets (rt_bkts rt) now)\<rparr>"
      by (auto simp: rt_checkAllBuckets_def Let_def split_beta)
    note c = checkAllBuckets_nth [of "rt_bkts rt" now]
    show ?thesis unfolding rt'
    proof (rule placedI)
      fix i w assume "i < bktlen" "w \<in> set (Nodes (rt_bkts (rt\<lparr>rt_bkts := fst (checkAllBuckets (rt_bkts rt) now)\<rparr>) ! i))"
      then show "wf_hash (ID (WNode w)) \<and>
          bucketid (rt_root (rt\<lparr>rt_bkts := fst (checkAllBuckets (rt_bkts rt) now)\<rparr>)) (ID (WNode w)) = i"
        using c placedD(2) [OF p] placedD(3) [OF p, of i w] by auto
    qed (use c placedD [OF p] in simp_all)
  qed
qed

lemma placed_ids:
  assumes "placed rt" "n \<in> set (rt_nodes rt)"
  shows "length (ID n) = 20"
proof -
  obtain b w where bw: "b \<in> set (rt_bkts rt)" "w \<in> set (Nodes b)" "n = WNode w"
    using assms(2) by (auto simp: rt_nodes_def)
  then obtain i where "i < length (rt_bkts rt)" "b = rt_bkts rt ! i" by (auto simp: in_set_conv_nth)
  then show ?thesis using placedD [OF assms(1)] bw by (simp add: wf_hash_def HashSize_def)
qed

lemma Status_bad: "wrappedNode_Status w now = nodeStatusBad \<longleftrightarrow> wrappedNode_IsBad w now"
  by (simp add: wrappedNode_Status_def wrappedNode_IsBad_def)

lemma bad_indexes_empty: "bad_indexes ns now = [] \<longleftrightarrow> (\<forall>w \<in> set ns. \<not> wrappedNode_IsBad w now)"
  by (auto simp: bad_indexes_def filter_empty_conv Status_bad all_set_conv_all_nth)

lemma bad_indexes_single:
  assumes "bad_indexes ns now = [i]"
  shows "i < length ns" "take i ns @ drop (Suc i) ns = filter (\<lambda>w. \<not> wrappedNode_IsBad w now) ns"
proof -
  have bad: "j \<in> set (bad_indexes ns now) \<longleftrightarrow> j < length ns \<and> wrappedNode_IsBad (ns ! j) now" for j
    by (auto simp: bad_indexes_def Status_bad)
  show i: "i < length ns" using bad [of i] assms by simp
  have only: "wrappedNode_IsBad (ns ! j) now \<longleftrightarrow> j = i" if "j < length ns" for j
    using bad [of j] assms that by auto
  have "filter (\<lambda>w. \<not> wrappedNode_IsBad w now) (take i ns) = take i ns"
    using only i by (auto simp: filter_id_conv in_set_conv_nth)
  moreover have "filter (\<lambda>w. \<not> wrappedNode_IsBad w now) (drop (Suc i) ns) = drop (Suc i) ns"
    using only i by (auto simp: filter_id_conv in_set_conv_nth)
  moreover have "ns = take i ns @ ns ! i # drop (Suc i) ns" using i by (rule id_take_nth_drop)
  moreover have "wrappedNode_IsBad (ns ! i) now" using only i by simp
  ultimately show "take i ns @ drop (Suc i) ns = filter (\<lambda>w. \<not> wrappedNode_IsBad w now) ns"
    by (metis (lifting) filter.simps(2) filter_append)
qed

lemma Address_Equal_total:
  "IP a \<noteq> NilAddr \<Longrightarrow> IP b \<noteq> NilAddr \<Longrightarrow> \<exists>e. Address_Equal L a b = Some e"
  by (cases "IP a"; cases "IP b") (auto simp: Address_Equal_def Addr_String_def)

lemma bucket_AddNode_total:
  assumes "\<forall>w \<in> set (Nodes b). IP (Addr (WNode w)) \<noteq> NilAddr" "IP (Addr n) \<noteq> NilAddr"
  shows "\<exists>b' r. bucket_AddNode L k b n now = Some (b', r)"
proof (cases "find (\<lambda>w. ID (WNode w) = ID n) (Nodes b)")
  case (Some orig)
  then have "orig \<in> set (Nodes b)" by (auto simp: find_Some_iff)
  then obtain e where "Address_Equal L (Addr (WNode orig)) (Addr n) = Some e"
    using Address_Equal_total assms by blast
  then show ?thesis using Some by (cases e) (simp_all add: bucket_AddNode_def)
qed (simp add: bucket_AddNode_def split: option.split)

lemma rt_nodes_update:
  assumes "i < length (rt_bkts rt)"
  shows "rt_nodes (rt\<lparr>rt_bkts := (rt_bkts rt)[i := b]\<rparr>) =
      concat (map (\<lambda>b. map WNode (Nodes b)) (take i (rt_bkts rt))) @ map WNode (Nodes b) @
      concat (map (\<lambda>b. map WNode (Nodes b)) (drop (Suc i) (rt_bkts rt)))"
    "rt_nodes rt =
      concat (map (\<lambda>b. map WNode (Nodes b)) (take i (rt_bkts rt))) @ map WNode (Nodes (rt_bkts rt ! i)) @
      concat (map (\<lambda>b. map WNode (Nodes b)) (drop (Suc i) (rt_bkts rt)))"
proof -
  show "rt_nodes (rt\<lparr>rt_bkts := (rt_bkts rt)[i := b]\<rparr>) =
      concat (map (\<lambda>b. map WNode (Nodes b)) (take i (rt_bkts rt))) @ map WNode (Nodes b) @
      concat (map (\<lambda>b. map WNode (Nodes b)) (drop (Suc i) (rt_bkts rt)))"
    using assms by (simp add: rt_nodes_def upd_conv_take_nth_drop)
  show "rt_nodes rt =
      concat (map (\<lambda>b. map WNode (Nodes b)) (take i (rt_bkts rt))) @ map WNode (Nodes (rt_bkts rt ! i)) @
      concat (map (\<lambda>b. map WNode (Nodes b)) (drop (Suc i) (rt_bkts rt)))"
    unfolding rt_nodes_def by (subst (1) id_take_nth_drop [OF assms]) simp
qed

lemma AddNode_effect:
  assumes "placed rt" "wf_hash (ID n)" "rt_AddNode L rt n now = Some (rt', r)"
  shows "if r = NodeAdded
    then ID n \<noteq> rt_root rt \<and> n \<in> set (rt_nodes rt') \<and> set (rt_nodes rt') \<subseteq> insert n (set (rt_nodes rt))
    else rt_nodes rt' = rt_nodes rt"
proof (cases "ID n = rt_root rt")
  case True
  then show ?thesis using assms(3) by (simp add: rt_AddNode_def)
next
  case False
  let ?i = "bucketid (rt_root rt) (ID n)"
  obtain b where b: "bucket_AddNode L (rt_k rt) (rt_bkts rt ! ?i) n now = Some (b, r)"
    "rt' = rt\<lparr>rt_bkts := (rt_bkts rt)[?i := b]\<rparr>"
    using assms(3) False by (auto simp: rt_AddNode_def rt_addNode_def Let_def split: option.splits)
  have i: "?i < length (rt_bkts rt)"
    using bucketid_bound [OF placedD(1) [OF assms(1)] assms(2)] placedD(2) [OF assms(1)] by simp
  show ?thesis using bucket_AddNode_nodes [OF b(1)] False rt_nodes_update(1) [OF i, of b] rt_nodes_update(2) [OF i] b(2) by auto
qed

section \<open>Properties\<close>

text \<open>A table with two nodes, made by loading it from storage, for the witnesses.\<close>

definition example_node :: "byte \<Rightarrow> node" where
  "example_node x = NewNode (x # replicate 19 0) [10, 0, 0, x] 6881"

definition example_table :: routing_table where
  "example_table = the (newRoutingTable no_i2p 8 zeroHash
     (Some [(example_node 5, 0), (example_node 4, 0)]) 0)"

lemma example_table_loaded:
  "newRoutingTable no_i2p 8 zeroHash (Some [(example_node 5, 0), (example_node 4, 0)]) 0 = Some example_table"
  by code_simp

lemma example_table_reach: "reach (rt_init no_i2p) (rt_step no_i2p) example_table"
proof (rule reach_init)
  have "wf_hash zeroHash" by (simp add: wf_hash_def zeroHash_def)
  moreover have "wf_hash (ID (example_node x))" for x
    by (simp add: wf_hash_def HashSize_def example_node_def NewNode_def)
  ultimately show "rt_init no_i2p example_table"
    using example_table_loaded unfolding rt_init_def
    by (intro exI [of _ 8] exI [of _ zeroHash] exI [of _ "Some [(example_node 5, 0), (example_node 4, 0)]"]
        exI [of _ 0]) simp
qed

lemma example_table_nodes: "rt_nodes example_table = [example_node 5, example_node 4]"
  by code_simp

text \<open>C6: The nodes that \<^verbatim>\<open>Closest\<close> returns, found by binary search and insertion into a list of
  bounded length, are those a stable sort of the whole table by XOR distance to the target puts
  first: in every table that adding and checking nodes can produce, no closer node is left out
  and the nearest come first.\<close>

theorem closest_is_sorted_prefix:
  assumes "reach (rt_init L) (rt_step L) rt" "wf_hash target"
  shows "rt_Closest rt target maxnum = take (nat maxnum) (sort_key (dist target) (rt_nodes rt))"
proof (rule Closest_sort)
  show "\<forall>n \<in> set (rt_nodes rt). length (ID n) = 20"
    using placed_ids [OF table.reach_inv [OF assms(1)]] by blast
qed (use assms(2) in \<open>simp add: wf_hash_def HashSize_def\<close>)

theorem closest_is_sorted_prefix_witness:
  "rt_Closest example_table zeroHash 1 = take 1 (sort_key (dist zeroHash) [example_node 5, example_node 4])"
  using closest_is_sorted_prefix [OF example_table_reach, of zeroHash 1] example_table_nodes
  by (simp add: wf_hash_def zeroHash_def)

text \<open>C14: In every reachable table the buckets partition the nodes by distance: a node in bucket
  \<open>i\<close>, other than the own one, agrees with the own identifier on exactly the first \<open>i\<close> bits.\<close>

theorem buckets_by_prefix:
  assumes "reach (rt_init L) (rt_step L) rt" "i < bktlen" "w \<in> set (Nodes (rt_bkts rt ! i))"
    "ID (WNode w) \<noteq> rt_root rt"
  shows "(\<forall>j < i. hash_bit (rt_root rt) j = hash_bit (ID (WNode w)) j) \<and>
    hash_bit (rt_root rt) i \<noteq> hash_bit (ID (WNode w)) i"
proof -
  have p: "placed rt" by (rule table.reach_inv [OF assms(1)])
  have w: "wf_hash (ID (WNode w))" "bucketid (rt_root rt) (ID (WNode w)) = i"
    using placedD(3) [OF p assms(2,3)] by simp_all
  show ?thesis using bucketid_spec(2,3) [OF placedD(1) [OF p] w(1)] assms(4) w(2) by auto
qed

theorem buckets_by_prefix_witness:
  "list_all (\<lambda>j. hash_bit zeroHash j = hash_bit (ID (example_node 5)) j) [0..<5] \<and>
   hash_bit zeroHash 5 \<noteq> hash_bit (ID (example_node 5)) 5"
proof -
  have "Nodes (rt_bkts example_table ! 5) =
      [\<lparr>WNode = example_node 5, WChanged = 0\<rparr>, \<lparr>WNode = example_node 4, WChanged = 0\<rparr>]"
    "rt_root example_table = zeroHash" "ID (example_node 5) \<noteq> zeroHash" by code_simp+
  then show ?thesis
    using buckets_by_prefix [OF example_table_reach, of 5 "\<lparr>WNode = example_node 5, WChanged = 0\<rparr>"]
    by (simp add: list_all_iff)
qed

text \<open>What adding the node \<open>n\<close> to the entries \<open>ns\<close> of a bucket of capacity \<open>k\<close> may leave. A node whose
  identifier is there only refreshes its entry, when the address is the same. A new one is appended while the
  bucket has room. When it has none, it is added if there is a bad entry, which may leave for it, and turned away
  if there is none; in no case does an entry leave that is not bad.\<close>

definition add_outcome ::
  "i2p_lib \<Rightarrow> int \<Rightarrow> node \<Rightarrow> time \<Rightarrow> wrapped_node list \<Rightarrow> add_status \<Rightarrow> wrapped_node list \<Rightarrow> bool" where
  "add_outcome L k n now ns r ns' \<longleftrightarrow>
     (let new = \<lparr>WNode = n, WChanged = now\<rparr>; known = (ID n \<in> (\<lambda>w. ID (WNode w)) ` set ns)
      in case r of
           NodeAdded \<Rightarrow> \<not> known \<and>
             (if int (length ns) < k then ns' = ns @ [new]
              else \<exists>bad \<in> set ns. wrappedNode_IsBad bad now \<and> new \<in> set ns' \<and> set ns - {bad} \<subseteq> set ns' \<and>
                set ns' \<subseteq> insert new (set ns) \<and> length ns' = Suc (length ns))
         | NodeNotAdded \<Rightarrow> ns' = ns \<and> \<not> known \<and> k \<le> int (length ns) \<and>
             list_all (\<lambda>w. \<not> wrappedNode_IsBad w now) ns
         | NodeExistAndUpdated \<Rightarrow>
             (\<exists>w \<in> set ns. ID (WNode w) = ID n \<and> Address_Equal L (Addr (WNode w)) (Addr n) = Some True) \<and>
             ns' = map (\<lambda>w. if ID (WNode w) = ID n then w\<lparr>WChanged := now\<rparr> else w) ns
         | NodeExistAndChanged \<Rightarrow> ns' = ns \<and>
             (\<exists>w \<in> set ns. ID (WNode w) = ID n \<and> Address_Equal L (Addr (WNode w)) (Addr n) = Some False))"

lemma index_of_None: "index_of P xs = None \<longleftrightarrow> list_all (\<lambda>x. \<not> P x) xs"
  by (induction xs) (auto split: option.splits)

lemma shifted_keeps: "i < length xs \<Longrightarrow> set xs - {xs ! i} \<subseteq> set (take i xs @ drop (Suc i) xs @ [last xs])"
  by (subst id_take_nth_drop [of i xs]) auto

lemma bucket_AddNode_outcome:
  assumes "bucket_AddNode L k b n now = Some (b', r)"
  shows "add_outcome L k n now (Nodes b) r (Nodes b') \<and> (r \<in> {NodeNotAdded, NodeExistAndChanged} \<longrightarrow> b' = b)"
proof (cases "find (\<lambda>w. ID (WNode w) = ID n) (Nodes b)")
  case None
  then have k: "ID n \<notin> (\<lambda>w. ID (WNode w)) ` set (Nodes b)" by (auto simp: find_None_iff)
  show ?thesis
  proof (cases "int (length (Nodes b)) < k")
    case True
    then show ?thesis using assms None k by (auto simp: bucket_AddNode_def add_outcome_def)
  next
    case full: False
    show ?thesis
    proof (cases "index_of (\<lambda>w. wrappedNode_IsBad w now) (Nodes b)")
      case i: None
      then have "list_all (\<lambda>w. \<not> wrappedNode_IsBad w now) (Nodes b)" by (simp add: index_of_None)
      then show ?thesis using assms None full k i by (auto simp: bucket_AddNode_def add_outcome_def Let_def)
    next
      case (Some i)
      note i = index_of_Some [OF Some]
      define ns where "ns = take i (Nodes b) @ drop (Suc i) (Nodes b) @ [last (Nodes b)]"
      have "set ns \<subseteq> set (Nodes b)" "set (Nodes b) - {Nodes b ! i} \<subseteq> set ns" "length ns = length (Nodes b)"
        unfolding ns_def using i set_shifted shifted_keeps by (blast, blast, auto)
      moreover have "b' = b\<lparr>Nodes := ns @ [\<lparr>WNode = n, WChanged = now\<rparr>], BChanged := now\<rparr>" "r = NodeAdded"
        using assms None full Some by (simp_all add: bucket_AddNode_def ns_def)
      moreover have "Nodes b ! i \<in> set (Nodes b)" "wrappedNode_IsBad (Nodes b ! i) now" using i by simp_all
      ultimately show ?thesis using full k
        by (auto simp: add_outcome_def Let_def intro!: bexI [of _ "Nodes b ! i"])
    qed
  qed
next
  case (Some orig)
  then have "orig \<in> set (Nodes b)" "ID (WNode orig) = ID n" by (auto simp: find_Some_iff)
  then show ?thesis using assms Some
    by (auto simp: bucket_AddNode_def add_outcome_def Let_def split: option.splits bool.splits)
qed

text \<open>C27: What \<^verbatim>\<open>AddNode\<close> does to a reachable table in which every address, and that of the new node, is
  set. The own identifier is not added. Any other node concerns only its bucket: a known
  identifier is refreshed when the address is the same and rejected when not; a new one is appended while
  there are less than \<open>k\<close> entries; in a full bucket it is added if there is a bad entry, and turned away when
  there is none; at most this bad entry is lost, and a node turned away or rejected changes nothing. Adding to a
  full bucket lets it grow by one, as \<^verbatim>\<open>copy\<close> leaves the last entry in its old place as well.\<close>

theorem add_node_effect:
  assumes "reach (rt_init L) (rt_step L) rt" "wf_hash (ID n)"
    "\<forall>m \<in> set (n # rt_nodes rt). IP (Addr m) \<noteq> NilAddr"
  shows "let i = bucketid (rt_root rt) (ID n); b = rt_bkts rt ! i
    in i < length (rt_bkts rt) \<and>
      (if ID n = rt_root rt then rt_AddNode L rt n now = Some (rt, NodeNotAdded)
       else \<exists>b' r. rt_AddNode L rt n now = Some (rt\<lparr>rt_bkts := (rt_bkts rt)[i := b']\<rparr>, r) \<and>
         add_outcome L (rt_k rt) n now (Nodes b) r (Nodes b') \<and>
         (r \<in> {NodeNotAdded, NodeExistAndChanged} \<longrightarrow> b' = b))"
proof -
  have p: "placed rt" by (rule table.reach_inv [OF assms(1)])
  let ?i = "bucketid (rt_root rt) (ID n)"
  have i: "?i < length (rt_bkts rt)"
    using bucketid_bound [OF placedD(1) [OF p] assms(2)] placedD(2) [OF p] by simp
  have "\<forall>w \<in> set (Nodes (rt_bkts rt ! ?i)). IP (Addr (WNode w)) \<noteq> NilAddr"
    using assms(3) rt_nodes_update(2) [OF i] by auto
  from bucket_AddNode_total [OF this, of n L "rt_k rt" now] assms(3) obtain b' r
    where b: "bucket_AddNode L (rt_k rt) (rt_bkts rt ! ?i) n now = Some (b', r)" by auto
  from i b bucket_AddNode_outcome [OF b] show ?thesis
    by (auto simp: rt_AddNode_def rt_addNode_def Let_def)
qed

theorem add_node_effect_witness:
  "let i = bucketid (rt_root example_table) (ID (example_node 9)); b = rt_bkts example_table ! i
   in \<exists>b' r. rt_AddNode no_i2p example_table (example_node 9) 1 =
       Some (example_table\<lparr>rt_bkts := (rt_bkts example_table)[i := b']\<rparr>, r) \<and>
     add_outcome no_i2p (rt_k example_table) (example_node 9) 1 (Nodes b) r (Nodes b')"
proof -
  have "wf_hash (ID (example_node 9))"
    by (simp add: wf_hash_def HashSize_def example_node_def NewNode_def)
  moreover have "\<forall>m \<in> set (example_node 9 # rt_nodes example_table). IP (Addr m) \<noteq> NilAddr"
    unfolding example_table_nodes by (simp add: example_node_def NewNode_def NewAddress_def)
  moreover have "ID (example_node 9) \<noteq> rt_root example_table" by code_simp
  ultimately show ?thesis
    using add_node_effect [OF example_table_reach, of "example_node 9" 1] by (auto simp: Let_def)
qed

text \<open>When at most one node of a bucket is bad, the periodic check of a bucket that has not
  changed for fifteen minutes removes exactly that node, pings exactly the dubious ones, and does
  not panic.\<close>

theorem check_removes_bad_node:
  assumes "length (bad_indexes (Nodes b) now) \<le> 1" "dubiousTimeout \<le> now - BChanged b"
  shows "bucket_CheckAllNodes b now =
    (b\<lparr>Nodes := filter (\<lambda>w. \<not> wrappedNode_IsBad w now) (Nodes b)\<rparr>,
     map (\<lambda>w. Address_Addr (Addr (WNode w)))
       (filter (\<lambda>w. wrappedNode_IsDubious w now \<and> \<not> wrappedNode_IsBad w now) (Nodes b)), False)"
proof -
  have d: "wrappedNode_Status w now = nodeStatusDubious \<longleftrightarrow>
      wrappedNode_IsDubious w now \<and> \<not> wrappedNode_IsBad w now" for w
    by (auto simp: wrappedNode_Status_def wrappedNode_IsDubious_def wrappedNode_IsBad_def)
  have "del_indexes (Nodes b) (bad_indexes (Nodes b) now) =
      (filter (\<lambda>w. \<not> wrappedNode_IsBad w now) (Nodes b), False)"
  proof (cases "bad_indexes (Nodes b) now")
    case Nil
    then show ?thesis using bad_indexes_empty [of "Nodes b" now] by (simp add: filter_id_conv)
  next
    case (Cons i "is")
    then have "bad_indexes (Nodes b) now = [i]" using assms(1) by simp
    then show ?thesis using bad_indexes_single [of "Nodes b" now i] Cons
      by (simp add: bucket_delNodeByIndex_def)
  qed
  then show ?thesis using assms(2) d by (cases b) (auto simp: bucket_CheckAllNodes_def)
qed

theorem check_removes_bad_node_witness:
  "bucket_CheckAllNodes
     \<lparr>Nodes = [\<lparr>WNode = example_node 1, WChanged = 0\<rparr>, \<lparr>WNode = example_node 2, WChanged = 14 * minute\<rparr>],
      BChanged = 14 * minute\<rparr> (30 * minute) =
   (\<lparr>Nodes = [\<lparr>WNode = example_node 2, WChanged = 14 * minute\<rparr>], BChanged = 14 * minute\<rparr>,
    [UDPAddr [10, 0, 0, 2] 6881], False)"
  using check_removes_bad_node [of "\<lparr>Nodes = [\<lparr>WNode = example_node 1, WChanged = 0\<rparr>,
      \<lparr>WNode = example_node 2, WChanged = 14 * minute\<rparr>], BChanged = 14 * minute\<rparr>" "30 * minute"]
  by (simp add: bad_indexes_def wrappedNode_Status_def wrappedNode_IsBad_def wrappedNode_IsDubious_def
      example_node_def NewNode_def NewAddress_def Address_Addr_def)

text \<open>A full bucket that replaces a bad node grows by one entry.\<close>

theorem full_bucket_grows:
  assumes "bucket_AddNode L k b n now = Some (b', NodeAdded)" "k \<le> int (length (Nodes b))"
  shows "length (Nodes b') = Suc (length (Nodes b))"
  using assms index_of_Some [of "\<lambda>w. wrappedNode_IsBad w now" "Nodes b"]
  by (auto simp: bucket_AddNode_def split: option.splits bool.splits if_splits)

text \<open>With several bad nodes the indexes collected before the first removal no longer fit: of two
  bad nodes and a dubious one the dubious one goes and a bad one stays, and of two bad nodes one
  stays and the loop panics.\<close>

theorem check_with_two_bad_nodes:
  "bucket_CheckAllNodes
     \<lparr>Nodes = [\<lparr>WNode = example_node 1, WChanged = 0\<rparr>, \<lparr>WNode = example_node 2, WChanged = 0\<rparr>,
        \<lparr>WNode = example_node 3, WChanged = 14 * minute\<rparr>], BChanged = 14 * minute\<rparr> (30 * minute) =
   (\<lparr>Nodes = [\<lparr>WNode = example_node 2, WChanged = 0\<rparr>], BChanged = 14 * minute\<rparr>,
    [UDPAddr [10, 0, 0, 3] 6881], False)"
  "bucket_CheckAllNodes
     \<lparr>Nodes = [\<lparr>WNode = example_node 1, WChanged = 0\<rparr>, \<lparr>WNode = example_node 2, WChanged = 0\<rparr>],
      BChanged = 0\<rparr> (30 * minute) =
   (\<lparr>Nodes = [\<lparr>WNode = example_node 2, WChanged = 0\<rparr>], BChanged = 0\<rparr>, [], True)"
  by (simp_all add: bucket_CheckAllNodes_def bad_indexes_def bucket_delNodeByIndex_def wrappedNode_Status_def
      example_node_def NewNode_def NewAddress_def Address_Addr_def)

end
