(* ===== verification/DhtManagers.thy ===== *)
theory DhtManagers
  imports RoutingTable
begin

text \<open>
  The managers of the DHT server: tokens (\<^verbatim>\<open>dht/token_manager.go\<close>), pending queries
  (\<^verbatim>\<open>dht/transaction_manager.go\<close>), announced peers (\<^verbatim>\<open>dht/peer_manager.go\<close>) and the blacklist
  (\<^verbatim>\<open>dht/blacklist.go\<close>). Each is a record and its operations take the current time; the goroutines
  that tick are the callers of the clean-up operations. An address that the code only uses
  through \<^verbatim>\<open>addr.String()\<close> is that string; random tokens are arguments.
\<close>

section \<open>Tokens\<close>

record token_manager =
  tm_last :: bytes
  tm_new :: bytes
  tm_addrs :: "(bytes, time) gomap"

definition newTokenManager :: "bytes \<Rightarrow> token_manager" where
  "newTokenManager token = \<lparr>tm_last = token, tm_new = token, tm_addrs = []\<rparr>"

definition tokenManager_updateToken :: "token_manager \<Rightarrow> bytes \<Rightarrow> token_manager" where
  "tokenManager_updateToken tm token = tm\<lparr>tm_last := tm_new tm, tm_new := token\<rparr>"

definition tokenManager_clear :: "token_manager \<Rightarrow> time \<Rightarrow> duration \<Rightarrow> token_manager" where
  "tokenManager_clear tm now expired =
     tm\<lparr>tm_addrs := mfilter (\<lambda>t. \<not> expired \<le> now - t) (tm_addrs tm)\<rparr>"

definition tokenManager_Token :: "token_manager \<Rightarrow> bytes \<Rightarrow> time \<Rightarrow> bytes \<times> token_manager" where
  "tokenManager_Token tm addrs now = (tm_new tm, tm\<lparr>tm_addrs := mput (tm_addrs tm) addrs now\<rparr>)"

definition tokenManager_Check :: "token_manager \<Rightarrow> bytes \<Rightarrow> bytes \<Rightarrow> bool" where
  "tokenManager_Check tm addrs token \<longleftrightarrow>
     (tm_last tm = token \<or> tm_new tm = token) \<and> map_of (tm_addrs tm) addrs \<noteq> None"

text \<open>What happens to the manager while it runs: the two tickers and the queries answered.\<close>

datatype token_event = Rotate bytes | Clear time | Issue bytes time

fun token_run :: "duration \<Rightarrow> token_event list \<Rightarrow> token_manager \<Rightarrow> token_manager" where
  "token_run expired [] tm = tm"
| "token_run expired (Rotate t # es) tm = token_run expired es (tokenManager_updateToken tm t)"
| "token_run expired (Clear now # es) tm = token_run expired es (tokenManager_clear tm now expired)"
| "token_run expired (Issue a now # es) tm = token_run expired es (snd (tokenManager_Token tm a now))"

section \<open>Transactions\<close>

datatype on_response = noopResponse | onPingResp | onFindNodeResp | onGetPeersResp

record transaction =
  tr_ID :: bytes
  tr_Query :: bytes
  tr_Arg :: query_arg
  tr_Addr :: netaddr
  tr_Time :: time
  tr_Depth :: int
  tr_Visited :: "hash list"
  tr_Callback :: "nat option"
  tr_OnResponse :: on_response

text \<open>The key is the identifier and the text of the address.\<close>

type_synonym transactionkey = "bytes \<times> bytes"

record transaction_manager =
  tx_trans :: "(transactionkey, transaction) gomap"
  tx_tid :: u32

definition newTransactionManager :: transaction_manager where
  "newTransactionManager = \<lparr>tx_trans = [], tx_tid = 0\<rparr>"

text \<open>\<^verbatim>\<open>strconv.FormatUint(n, 36)\<close>.\<close>

definition digit36 :: "nat \<Rightarrow> byte" where
  "digit36 d = (if d < 10 then of_nat (48 + d) else of_nat (87 + d))"

fun format36 :: "nat \<Rightarrow> bytes" where
  "format36 n = (if n < 36 then [digit36 n] else format36 (n div 36) @ [digit36 (n mod 36)])"

declare format36.simps [simp del]

definition GetTransactionID :: "transaction_manager \<Rightarrow> bytes \<times> transaction_manager" where
  "GetTransactionID tm = (let tid = tx_tid tm + 1 in (format36 (unat tid), tm\<lparr>tx_tid := tid\<rparr>))"

definition isTransactionExpired :: "transaction \<Rightarrow> time \<Rightarrow> duration \<Rightarrow> bool" where
  "isTransactionExpired t now interval \<longleftrightarrow> interval < now - tr_Time t"

text \<open>The clean-up also calls \<^verbatim>\<open>OnTimeout\<close> on each transaction it removes: the second component.\<close>

definition cleanupExpiredTransactions ::
  "transaction_manager \<Rightarrow> time \<Rightarrow> duration \<Rightarrow> transaction_manager \<times> transaction list" where
  "cleanupExpiredTransactions tm now interval =
     (tm\<lparr>tx_trans := mfilter (\<lambda>t. \<not> isTransactionExpired t now interval) (tx_trans tm)\<rparr>,
      map snd (filter (\<lambda>(k, t). isTransactionExpired t now interval) (tx_trans tm)))"

definition AddTransaction :: "i2p_lib \<Rightarrow> transaction_manager \<Rightarrow> transaction \<Rightarrow> transaction_manager option" where
  "AddTransaction L tm t =
     (case Addr_String L (tr_Addr t) of
        None \<Rightarrow> None
      | Some a \<Rightarrow> Some (tm\<lparr>tx_trans := mput (tx_trans tm) (tr_ID t, a) t\<rparr>))"

definition DeleteTransaction :: "i2p_lib \<Rightarrow> transaction_manager \<Rightarrow> transaction \<Rightarrow> transaction_manager option" where
  "DeleteTransaction L tm t =
     (case Addr_String L (tr_Addr t) of
        None \<Rightarrow> None
      | Some a \<Rightarrow> Some (tm\<lparr>tx_trans := mdel (tx_trans tm) (tr_ID t, a)\<rparr>))"

definition PopTransaction ::
  "i2p_lib \<Rightarrow> transaction_manager \<Rightarrow> bytes \<Rightarrow> netaddr \<Rightarrow> (transaction option \<times> transaction_manager) option" where
  "PopTransaction L tm tid addr =
     (case Addr_String L addr of
        None \<Rightarrow> None
      | Some a \<Rightarrow>
          (case map_of (tx_trans tm) (tid, a) of
             None \<Rightarrow> Some (None, tm)
           | Some t \<Rightarrow> Some (Some t, tm\<lparr>tx_trans := mdel (tx_trans tm) (tid, a)\<rparr>)))"

section \<open>Peers\<close>

record peer =
  p_ID :: hash
  p_IP :: netaddr
  p_Port :: u16
  p_Token :: bytes
  p_Time :: time

type_synonym token_peer_manager = "(hash, (bytes, peer) gomap) gomap"

definition removeExpiredPeersFromMap :: "(bytes, peer) gomap \<Rightarrow> time \<Rightarrow> duration \<Rightarrow> (bytes, peer) gomap" where
  "removeExpiredPeersFromMap peers now interval = mfilter (\<lambda>p. \<not> interval < now - p_Time p) peers"

definition cleanupExpiredPeers :: "token_peer_manager \<Rightarrow> time \<Rightarrow> duration \<Rightarrow> token_peer_manager" where
  "cleanupExpiredPeers tpm now interval =
     mfilter (\<lambda>ps. ps \<noteq> []) (map (\<lambda>(i, ps). (i, removeExpiredPeersFromMap ps now interval)) tpm)"

definition tokenPeerManager_Set ::
  "i2p_lib \<Rightarrow> token_peer_manager \<Rightarrow> hash \<Rightarrow> netaddr \<Rightarrow> bytes \<Rightarrow> time \<Rightarrow> token_peer_manager option" where
  "tokenPeerManager_Set L tpm h addr token now =
     (case (Addr_String L addr, utils_Port L addr) of
        (Some key, Some port) \<Rightarrow>
          (let peers = (case map_of tpm h of None \<Rightarrow> [] | Some ps \<Rightarrow> ps)
           in Some (mput tpm h (mput peers key
                \<lparr>p_ID = h, p_IP = addr, p_Port = of_int port, p_Token = token, p_Time = now\<rparr>)))
      | _ \<Rightarrow> None)"

definition tokenPeerManager_Get :: "i2p_lib \<Rightarrow> token_peer_manager \<Rightarrow> hash \<Rightarrow> netaddr \<Rightarrow> bytes option" where
  "tokenPeerManager_Get L tpm h addr =
     (case Addr_String L addr of
        None \<Rightarrow> None
      | Some key \<Rightarrow>
          Some (case map_of tpm h of
                  None \<Rightarrow> []
                | Some peers \<Rightarrow> (case map_of peers key of None \<Rightarrow> [] | Some p \<Rightarrow> p_Token p)))"

text \<open>At most \<open>maxnum\<close> peers, of both families: the argument \<^verbatim>\<open>ipv6\<close> is not used by the code. A
  negative capacity of \<^verbatim>\<open>make\<close> panics.\<close>

definition tokenPeerManager_GetPeers ::
  "token_peer_manager \<Rightarrow> hash \<Rightarrow> int \<Rightarrow> bool \<Rightarrow> address list option" where
  "tokenPeerManager_GetPeers tpm infohash maxnum ipv6 =
     (if maxnum < 0 then None
      else case map_of tpm infohash of
             None \<Rightarrow> Some []
           | Some peers \<Rightarrow>
               Some (map (\<lambda>(_, p). NewAddress (ArgAddr (p_IP p)) (p_Port p)) (take (nat maxnum) peers)))"

definition GetSampleInfoHashes :: "token_peer_manager \<Rightarrow> hash \<Rightarrow> int \<Rightarrow> (hash list \<times> nat) option" where
  "GetSampleInfoHashes tpm target maxnum =
     (let num = length tpm; allHashes = map fst tpm
      in if num = 0 then Some ([], 0)
         else if int num \<le> maxnum then Some (allHashes, num)
         else if maxnum < 0 then None
         else Some (take (nat maxnum) allHashes, num))"

section \<open>The blacklist\<close>

record wrapped_port =
  wp_Time :: time
  wp_Enable :: bool
  wp_Ports :: "int list"

record blacklist =
  bl_ips :: "(bytes, wrapped_port) gomap"
  bl_num :: int

definition NewMemoryBlacklist :: "int \<Rightarrow> blacklist" where
  "NewMemoryBlacklist maxnum = \<lparr>bl_ips = [], bl_num = maxnum\<rparr>"

definition cleanExpiredEntries :: "blacklist \<Rightarrow> time \<Rightarrow> duration \<Rightarrow> blacklist" where
  "cleanExpiredEntries bl now interval =
     bl\<lparr>bl_ips := mfilter (\<lambda>wp. \<not> interval < now - wp_Time wp) (bl_ips bl)\<rparr>"

definition blacklist_In :: "blacklist \<Rightarrow> bytes \<Rightarrow> int \<Rightarrow> bool" where
  "blacklist_In bl ip port =
     (case map_of (bl_ips bl) ip of
        None \<Rightarrow> False
      | Some wp \<Rightarrow> if wp_Enable wp then port \<in> set (wp_Ports wp) else True)"

definition blacklist_Add :: "blacklist \<Rightarrow> bytes \<Rightarrow> int \<Rightarrow> time \<Rightarrow> blacklist" where
  "blacklist_Add bl ip port now =
     (case map_of (bl_ips bl) ip of
        None \<Rightarrow>
          if 0 < bl_num bl \<and> bl_num bl \<le> int (length (bl_ips bl)) then bl
          else if port < 1
          then bl\<lparr>bl_ips := mput (bl_ips bl) ip \<lparr>wp_Time = now, wp_Enable = False, wp_Ports = []\<rparr>\<rparr>
          else bl\<lparr>bl_ips := mput (bl_ips bl) ip \<lparr>wp_Time = now, wp_Enable = True, wp_Ports = [port]\<rparr>\<rparr>
      | Some wp \<Rightarrow>
          if port < 1
          then bl\<lparr>bl_ips := mput (bl_ips bl) ip (wp\<lparr>wp_Time := now, wp_Enable := False, wp_Ports := []\<rparr>)\<rparr>
          else bl\<lparr>bl_ips := mput (bl_ips bl) ip (wp\<lparr>wp_Time := now, wp_Ports := List.insert port (wp_Ports wp)\<rparr>)\<rparr>)"

definition blacklist_Del :: "blacklist \<Rightarrow> bytes \<Rightarrow> int \<Rightarrow> time \<Rightarrow> blacklist" where
  "blacklist_Del bl ip port now =
     (case map_of (bl_ips bl) ip of
        None \<Rightarrow> bl
      | Some wp \<Rightarrow>
          if port < 1 then bl\<lparr>bl_ips := mdel (bl_ips bl) ip\<rparr>
          else if \<not> wp_Enable wp then bl
          else if length (wp_Ports wp) \<le> 1 then bl\<lparr>bl_ips := mdel (bl_ips bl) ip\<rparr>
          else bl\<lparr>bl_ips := mput (bl_ips bl) ip (wp\<lparr>wp_Time := now, wp_Ports := removeAll port (wp_Ports wp)\<rparr>)\<rparr>)"

section \<open>Facts\<close>

interpretation tokens: expiring "\<lambda>now tm. tokenManager_clear tm now expired" "\<lambda>tm. map_of (tm_addrs tm)"
  "\<lambda>now t. expired \<le> now - t" "\<lambda>tm. wf_map (tm_addrs tm)" for expired
  by unfold_locales (auto simp: tokenManager_clear_def map_of_mfilter split: option.split)

interpretation pending: expiring "\<lambda>now tm. fst (cleanupExpiredTransactions tm now interval)"
  "\<lambda>tm. map_of (tx_trans tm)" "\<lambda>now t. isTransactionExpired t now interval" "\<lambda>tm. wf_map (tx_trans tm)"
  for interval
  by unfold_locales
     (auto simp: cleanupExpiredTransactions_def isTransactionExpired_def map_of_mfilter split: option.split)

interpretation blocked: expiring "\<lambda>now bl. cleanExpiredEntries bl now interval" "\<lambda>bl. map_of (bl_ips bl)"
  "\<lambda>now wp. interval < now - wp_Time wp" "\<lambda>bl. wf_map (bl_ips bl)" for interval
  by unfold_locales (auto simp: cleanExpiredEntries_def map_of_mfilter split: option.split)

definition peer_entry :: "token_peer_manager \<Rightarrow> hash \<times> bytes \<Rightarrow> peer option" where
  "peer_entry tpm = (\<lambda>(h, a). case map_of tpm h of None \<Rightarrow> None | Some ps \<Rightarrow> map_of ps a)"

definition wf_peers :: "token_peer_manager \<Rightarrow> bool" where
  "wf_peers tpm \<longleftrightarrow> wf_map tpm \<and> list_all (\<lambda>(h, ps). wf_map ps) tpm"

lemma map_of_map_values: "map_of (map (\<lambda>(k, v). (k, f v)) m) k = map_option f (map_of m k)"
  by (induction m) auto

lemma map_fst_map_values: "map fst (map (\<lambda>(k, v). (k, f v)) m) = map fst m"
  by (induction m) auto

lemma cleanupExpiredPeers_lookup:
  assumes "wf_peers tpm"
  shows "map_of (cleanupExpiredPeers tpm now interval) h =
    (case map_of tpm h of None \<Rightarrow> None
     | Some ps \<Rightarrow> let qs = removeExpiredPeersFromMap ps now interval in if qs = [] then None else Some qs)"
proof -
  have "wf_map (map (\<lambda>(i, ps). (i, removeExpiredPeersFromMap ps now interval)) tpm)"
    using assms by (simp only: wf_peers_def map_fst_map_values)
  from map_of_mfilter [OF this] show ?thesis
    by (simp add: cleanupExpiredPeers_def map_of_map_values Let_def split: option.split)
qed

interpretation announced: expiring "\<lambda>now tpm. cleanupExpiredPeers tpm now interval" peer_entry
  "\<lambda>now p. interval < now - p_Time p" wf_peers for interval
proof
  fix tpm now and k :: "hash \<times> bytes" assume wf: "wf_peers tpm"
  obtain h a where k: "k = (h, a)" by (cases k)
  have ps: "wf_map ps" if "map_of tpm h = Some ps" for ps
    using wf map_of_SomeD [OF that] by (auto simp: wf_peers_def list_all_iff)
  show "peer_entry (cleanupExpiredPeers tpm now interval) k =
      (case peer_entry tpm k of None \<Rightarrow> None | Some p \<Rightarrow> if interval < now - p_Time p then None else Some p)"
    using map_of_mfilter [OF ps, of _ "\<lambda>p. \<not> interval < now - p_Time p" a]
    by (auto simp: peer_entry_def k cleanupExpiredPeers_lookup [OF wf] removeExpiredPeersFromMap_def Let_def
        split: option.splits)
next
  fix tpm now assume wf: "wf_peers tpm"
  have "wf_map (map (\<lambda>(i, ps). (i, removeExpiredPeersFromMap ps now interval)) tpm)"
    using wf by (simp only: wf_peers_def map_fst_map_values)
  then have "wf_map (cleanupExpiredPeers tpm now interval)"
    unfolding cleanupExpiredPeers_def by (rule wf_mfilter)
  moreover have "list_all (\<lambda>(h, ps). wf_map ps) (cleanupExpiredPeers tpm now interval)"
    using wf by (auto simp: wf_peers_def list_all_iff cleanupExpiredPeers_def mfilter_def
        removeExpiredPeersFromMap_def intro!: wf_mfilter [unfolded mfilter_def])
  ultimately show "wf_peers (cleanupExpiredPeers tpm now interval)" by (simp add: wf_peers_def)
qed auto

subsection \<open>The life of a token\<close>

fun rotations :: "token_event list \<Rightarrow> bytes list" where
  "rotations [] = []"
| "rotations (Rotate t # es) = t # rotations es"
| "rotations (Clear _ # es) = rotations es"
| "rotations (Issue _ _ # es) = rotations es"

text \<open>The sweeps come before the entry expires, and tokens issued to the same address are not older.\<close>

definition within :: "duration \<Rightarrow> bytes \<Rightarrow> time \<Rightarrow> token_event \<Rightarrow> bool" where
  "within expired a now e =
     (case e of Rotate _ \<Rightarrow> True | Clear t \<Rightarrow> t - now < expired | Issue b t \<Rightarrow> b = a \<longrightarrow> now \<le> t)"

definition issued_since :: "token_manager \<Rightarrow> bytes \<Rightarrow> time \<Rightarrow> bool" where
  "issued_since tm a now \<longleftrightarrow> (\<exists>t. map_of (tm_addrs tm) a = Some t \<and> now \<le> t)"

lemma run_keeps_address:
  "wf_map (tm_addrs tm) \<Longrightarrow> issued_since tm a now \<Longrightarrow> list_all (within expired a now) es \<Longrightarrow>
   issued_since (token_run expired es tm) a now"
proof (induction expired es tm rule: token_run.induct)
  case (3 expired t es tm)
  obtain u where u: "map_of (tm_addrs tm) a = Some u" "now \<le> u" using 3(3) by (auto simp: issued_since_def)
  have "map_of (tm_addrs (tokenManager_clear tm t expired)) a = Some u"
    by (rule tokens.sweep_keeps [OF 3(2) u(1)]) (use 3(4) u(2) in \<open>simp add: within_def\<close>)
  then show ?case using 3 u(2) tokens.invar_sweep [OF 3(2), of t expired]
    by (auto simp: issued_since_def)
next
  case (4 expired b t es tm)
  then show ?case by (auto simp: tokenManager_Token_def issued_since_def within_def)
qed (auto simp: tokenManager_updateToken_def issued_since_def)

lemma run_tokens:
  "(tm_last (token_run expired es tm), tm_new (token_run expired es tm)) =
     (case rev (rotations es) of
        [] \<Rightarrow> (tm_last tm, tm_new tm) | [t] \<Rightarrow> (tm_new tm, t) | t # u # _ \<Rightarrow> (u, t))"
proof (induction expired es tm rule: token_run.induct)
  case (2 expired t es tm)
  show ?case
  proof (cases "rev (rotations es)")
    case Nil
    then show ?thesis using 2 by (simp add: tokenManager_updateToken_def)
  next
    case (Cons x xs)
    then show ?thesis using 2 by (cases xs) (simp_all add: tokenManager_updateToken_def)
  qed
qed (auto simp: tokenManager_clear_def tokenManager_Token_def split: list.split)

subsection \<open>Peers and the blacklist\<close>

lemma Get_entry:
  "tokenPeerManager_Get L tpm h addr =
     map_option (\<lambda>a. case peer_entry tpm (h, a) of None \<Rightarrow> [] | Some p \<Rightarrow> p_Token p) (Addr_String L addr)"
  by (auto simp: tokenPeerManager_Get_def peer_entry_def split: option.split)

lemma wf_peers_mput:
  assumes "wf_peers tpm"
  shows "wf_peers (mput tpm h (mput (case map_of tpm h of None \<Rightarrow> [] | Some ps \<Rightarrow> ps) a p))" (is "wf_peers (mput _ _ ?ps)")
proof -
  have "wf_map ?ps"
    using assms by (auto simp: wf_peers_def list_all_iff split: option.split dest!: map_of_SomeD)
  moreover have "(k, v) \<in> set (mput tpm h ?ps) \<Longrightarrow> v = ?ps \<or> v \<in> snd ` set tpm" for k v
    using set_mput_subset [of tpm h ?ps] by force
  ultimately show ?thesis using assms by (fastforce simp: wf_peers_def list_all_iff)
qed

inductive blacklist_step :: "duration \<Rightarrow> blacklist \<Rightarrow> blacklist \<Rightarrow> bool" for interval where
  bl_add: "blacklist_step interval bl (blacklist_Add bl ip port now)"
| bl_del: "blacklist_step interval bl (blacklist_Del bl ip port now)"
| bl_clean: "blacklist_step interval bl (cleanExpiredEntries bl now interval)"

definition ports_ok :: "wrapped_port \<Rightarrow> bool" where
  "ports_ok wp \<longleftrightarrow> (wp_Enable wp \<longrightarrow> wp_Ports wp \<noteq> [] \<and> distinct (wp_Ports wp))"

definition blacklist_ok :: "int \<Rightarrow> blacklist \<Rightarrow> bool" where
  "blacklist_ok maxnum bl \<longleftrightarrow> bl_num bl = maxnum \<and>
     (0 < maxnum \<longrightarrow> int (length (bl_ips bl)) \<le> maxnum) \<and>
     (\<forall>wp \<in> snd ` set (bl_ips bl). ports_ok wp)"

lemma blacklist_ok_put:
  assumes "blacklist_ok maxnum bl" "ports_ok wp"
    "map_of (bl_ips bl) ip = None \<Longrightarrow> 0 < maxnum \<Longrightarrow> int (length (bl_ips bl)) < maxnum"
  shows "blacklist_ok maxnum (bl\<lparr>bl_ips := mput (bl_ips bl) ip wp\<rparr>)"
proof -
  have "\<forall>v \<in> snd ` set (mput (bl_ips bl) ip wp). ports_ok v"
    using assms(1,2) set_mput_subset [of "bl_ips bl" ip wp] unfolding blacklist_ok_def by blast
  then show ?thesis using assms(1,3) by (auto simp: blacklist_ok_def length_mput)
qed

lemma blacklist_ok_entry:
  "blacklist_ok maxnum bl \<Longrightarrow> map_of (bl_ips bl) ip = Some wp \<Longrightarrow> wp_Enable wp \<Longrightarrow>
   wp_Ports wp \<noteq> [] \<and> distinct (wp_Ports wp)"
  by (force simp: blacklist_ok_def ports_ok_def dest!: map_of_SomeD)

lemma bl_num_ok: "blacklist_ok maxnum bl \<Longrightarrow> bl_num bl = maxnum"
  by (simp add: blacklist_ok_def)

lemma removeAll_nonempty: "distinct xs \<Longrightarrow> \<not> length xs \<le> 1 \<Longrightarrow> removeAll x xs \<noteq> []"
proof -
  assume "distinct xs" "\<not> length xs \<le> 1"
  then have "distinct xs" "2 \<le> length xs" by simp_all
  then obtain a b ys where "xs = a # b # ys" "a \<noteq> b" by (auto simp: numeral_2_eq_2 Suc_le_length_iff)
  then show ?thesis by auto
qed

lemma blacklist_ok_del: "blacklist_ok maxnum bl \<Longrightarrow> blacklist_ok maxnum (bl\<lparr>bl_ips := mdel (bl_ips bl) ip\<rparr>)"
proof -
  assume ok: "blacklist_ok maxnum bl"
  have "set (mdel (bl_ips bl) ip) \<subseteq> set (bl_ips bl)" by (auto simp: mdel_def AList.delete_eq)
  then show ?thesis using ok length_mdel_le [of "bl_ips bl" ip] by (auto simp: blacklist_ok_def)
qed

interpretation bounded: inductive_invariant "\<lambda>bl. bl = NewMemoryBlacklist maxnum" "blacklist_step interval"
  "blacklist_ok maxnum" for maxnum interval
proof
  fix bl bl' assume ok: "blacklist_ok maxnum bl" and st: "blacklist_step interval bl bl'"
  show "blacklist_ok maxnum bl'"
    using st
  proof cases
    case (bl_add ip port now)
    then show ?thesis using ok blacklist_ok_entry [OF ok, of ip]
      by (auto simp: blacklist_Add_def bl_num_ok [OF ok] ports_ok_def List.insert_def split: option.split intro!: blacklist_ok_put [OF ok])
  next
    case (bl_del ip port now)
    then show ?thesis using ok blacklist_ok_entry [OF ok, of ip]
      by (auto simp: blacklist_Del_def ports_ok_def distinct_removeAll removeAll_nonempty split: option.split intro!: blacklist_ok_put [OF ok] blacklist_ok_del [OF ok])
  next
    case (bl_clean now)
    have "length (mfilter (\<lambda>wp. \<not> interval < now - wp_Time wp) (bl_ips bl)) \<le> length (bl_ips bl)"
      and "set (mfilter (\<lambda>wp. \<not> interval < now - wp_Time wp) (bl_ips bl)) \<subseteq> set (bl_ips bl)"
      by (auto simp: mfilter_def)
    with bl_clean ok show ?thesis by (auto simp: cleanExpiredEntries_def blacklist_ok_def)
  qed
qed (simp add: blacklist_ok_def NewMemoryBlacklist_def)

section \<open>Properties\<close>

text \<open>C25: A token given to an address is accepted from that address as long as at most one rotation
  of the secret and no sweep after the expiry has happened in between, whatever else the manager
  did; after two rotations to other values it is refused; and no token is accepted from an
  address that was never given one.\<close>

theorem token_lifetime:
  assumes "wf_map (tm_addrs tm)" "tokenManager_Token tm a now = (token, tm')"
    "list_all (within expired a now) es"
  shows "(length (rotations es) \<le> 1 \<longrightarrow> tokenManager_Check (token_run expired es tm') a token) \<and>
    (2 \<le> length (rotations es) \<and> token \<notin> set (rotations es) \<longrightarrow>
       \<not> tokenManager_Check (token_run expired es tm') a token) \<and>
    (map_of (tm_addrs tm) b = None \<and> b \<noteq> a \<longrightarrow> \<not> tokenManager_Check tm' b t)"
proof -
  have tm': "tm' = tm\<lparr>tm_addrs := mput (tm_addrs tm) a now\<rparr>" "token = tm_new tm"
    using assms(2) by (auto simp: tokenManager_Token_def)
  have "issued_since (token_run expired es tm') a now"
    by (rule run_keeps_address [OF _ _ assms(3)]) (use assms(1) tm' in \<open>auto simp: issued_since_def\<close>)
  then have known: "map_of (tm_addrs (token_run expired es tm')) a \<noteq> None" by (auto simp: issued_since_def)
  note r = run_tokens [of expired es tm']
  have "tm_last (token_run expired es tm') = token \<or> tm_new (token_run expired es tm') = token"
    if "length (rotations es) \<le> 1"
    using that r tm' by (cases "rotations es") auto
  moreover have "tm_last (token_run expired es tm') \<noteq> token \<and> tm_new (token_run expired es tm') \<noteq> token"
    if two: "2 \<le> length (rotations es)" and no: "token \<notin> set (rotations es)"
  proof -
    define rs where "rs = rev (rotations es)"
    have "2 \<le> length rs" using two by (simp add: rs_def)
    then obtain t u ts where "rs = t # u # ts" by (auto simp: numeral_2_eq_2 Suc_le_length_iff)
    then have ts: "rev (rotations es) = t # u # ts" by (simp add: rs_def)
    then have "t \<in> set (rotations es)" "u \<in> set (rotations es)"
      by (metis list.set_intros set_rev)+
    then show ?thesis using r ts no by auto
  qed
  ultimately show ?thesis using known tm' by (auto simp: tokenManager_Check_def)
qed

theorem token_lifetime_witness:
  "tokenManager_Check
     (token_run (10 * minute) [Rotate (ascii ''t1''), Issue (ascii ''b'') 3, Clear (9 * minute)]
        (snd (tokenManager_Token (newTokenManager (ascii ''t0'')) (ascii ''a'') 0))) (ascii ''a'') (ascii ''t0'')"
  using token_lifetime [of "newTokenManager (ascii ''t0'')" "ascii ''a''" 0 "ascii ''t0''"
      "snd (tokenManager_Token (newTokenManager (ascii ''t0'')) (ascii ''a'') 0)" "10 * minute"
      "[Rotate (ascii ''t1''), Issue (ascii ''b'') 3, Clear (9 * minute)]" "[]" "[]"]
  by (simp add: newTokenManager_def tokenManager_Token_def within_def ascii_def)


text \<open>C26: A response is matched to a pending query exactly when its transaction identifier and the
  address it comes from are those of a query that was sent, and it is matched at most once.\<close>

theorem transaction_matched_once:
  assumes "wf_map (tx_trans tm)" "AddTransaction L tm t = Some tm1" "Addr_String L (tr_Addr t) = Some a"
    "Addr_String L addr = Some b"
  shows "if tid = tr_ID t \<and> b = a
    then \<exists>tm2. PopTransaction L tm1 tid addr = Some (Some t, tm2) \<and> PopTransaction L tm2 tid addr = Some (None, tm2)
    else \<exists>tm2. PopTransaction L tm1 tid addr = Some (map_of (tx_trans tm) (tid, b), tm2) \<and>
      map_of (tx_trans tm2) (tr_ID t, a) = Some t"
  using assms by (auto simp: AddTransaction_def PopTransaction_def split: option.split)

theorem transaction_matched_once_witness:
  "\<exists>tm1 tm2. AddTransaction no_i2p newTransactionManager
       \<lparr>tr_ID = [49], tr_Query = [], tr_Arg = noArg, tr_Addr = UDPAddr [10, 0, 0, 1] 80, tr_Time = 0,
        tr_Depth = 1, tr_Visited = [], tr_Callback = None, tr_OnResponse = noopResponse\<rparr> = Some tm1 \<and>
     PopTransaction no_i2p tm1 [49] (UDPAddr [10, 0, 0, 1] 80) = Some (Some
       \<lparr>tr_ID = [49], tr_Query = [], tr_Arg = noArg, tr_Addr = UDPAddr [10, 0, 0, 1] 80, tr_Time = 0,
        tr_Depth = 1, tr_Visited = [], tr_Callback = None, tr_OnResponse = noopResponse\<rparr>, tm2) \<and>
     PopTransaction no_i2p tm2 [49] (UDPAddr [10, 0, 0, 1] 80) = Some (None, tm2)"
proof -
  let ?t = "\<lparr>tr_ID = [49], tr_Query = [], tr_Arg = noArg, tr_Addr = UDPAddr [10, 0, 0, 1] 80, tr_Time = 0,
        tr_Depth = 1, tr_Visited = [], tr_Callback = None, tr_OnResponse = noopResponse\<rparr>"
  obtain tm1 a where a: "AddTransaction no_i2p newTransactionManager ?t = Some tm1"
    "Addr_String no_i2p (tr_Addr ?t) = Some a"
    by (simp add: AddTransaction_def Addr_String_def)
  then show ?thesis
    using transaction_matched_once [OF _ a, of "UDPAddr [10, 0, 0, 1] 80" a "[49]"]
    by (auto simp: newTransactionManager_def)
qed

fun value36 :: "bytes \<Rightarrow> nat" where
  "value36 bs = foldl (\<lambda>n b. n * 36 + (unat b - (if b < 58 then 48 else 87))) 0 bs"

lemma value36_format: "value36 (format36 n) = n"
proof (induction n rule: format36.induct)
  case (1 n)
  have "unat (of_nat k :: byte) = k" if "k < 256" for k using that by (simp add: unat_of_nat)
  then have "unat (digit36 d) = (if d < 10 then 48 + d else 87 + d)" if "d < 36" for d
    using that by (simp add: digit36_def del: of_nat_add)
  then have d: "unat (digit36 d) - (if digit36 d < 58 then 48 else 87) = d" if "d < 36" for d
    using that by (simp add: word_less_nat_alt)
  show ?case
  proof (cases "n < 36")
    case True
    then show ?thesis using d [of n] by (subst format36.simps) simp
  next
    case False
    then show ?thesis using 1 d [of "n mod 36"] by (subst format36.simps) (simp add: foldl_append)
  qed
qed

text \<open>The identifiers of the next queries.\<close>

primrec take_ids :: "nat \<Rightarrow> transaction_manager \<Rightarrow> bytes list" where
  "take_ids 0 tm = []"
| "take_ids (Suc n) tm = (let (tid, tm') = GetTransactionID tm in tid # take_ids n tm')"

lemma take_ids_eq: "take_ids n tm = map (\<lambda>i. format36 (unat (tx_tid tm + 1 + of_nat i))) [0..<n]"
proof (induction n arbitrary: tm)
  case (Suc n)
  have "[0..<Suc n] = 0 # map Suc [0..<n]" by (simp only: upt_conv_Cons map_Suc_upt zero_less_Suc)
  then show ?case using Suc [of "tm\<lparr>tx_tid := tx_tid tm + 1\<rparr>"]
    by (simp add: GetTransactionID_def Let_def ac_simps del: upt_Suc)
qed simp

lemma format36_inj: "format36 m = format36 n \<Longrightarrow> m = n"
  using value36_format by metis

text \<open>Transaction identifiers do not repeat within \<open>2 ^ 32\<close> queries: the identifiers produced by
  fewer calls than that are all different.\<close>

theorem transaction_ids_distinct:
  assumes "n \<le> 2 ^ 32"
  shows "distinct (take_ids n tm)"
proof -
  have "i = j" if "i < n" "j < n"
    "format36 (unat (tx_tid tm + 1 + of_nat i)) = format36 (unat (tx_tid tm + 1 + of_nat j))" for i j
  proof -
    have "tx_tid tm + 1 + of_nat i = tx_tid tm + 1 + of_nat j"
      using format36_inj [OF that(3)] by (simp only: word_unat_eq_iff)
    then have "(of_nat i :: u32) = of_nat j" by simp
    then have "unat (of_nat i :: u32) = unat (of_nat j :: u32)" by simp
    then show ?thesis using that(1,2) assms by (simp add: unat_of_nat)
  qed
  then show ?thesis by (auto simp: take_ids_eq distinct_map inj_on_def)
qed

theorem transaction_ids_distinct_witness: "distinct (take_ids 1000 newTransactionManager)"
  by (rule transaction_ids_distinct) simp

text \<open>An announced peer is remembered with its token under its info hash and address, next to
  all the others, and a later clean-up keeps it exactly when no more than the interval has passed.\<close>

theorem announced_peer_lifetime:
  assumes "wf_peers tpm" "tokenPeerManager_Set L tpm h addr token now = Some tpm'"
    "Addr_String L addr = Some a" "Addr_String L other = Some b"
  shows "tokenPeerManager_Get L tpm' h' other =
      (if h' = h \<and> b = a then Some token else tokenPeerManager_Get L tpm h' other) \<and>
    tokenPeerManager_Get L (cleanupExpiredPeers tpm' later interval) h addr =
      Some (if later - now \<le> interval then token else []) \<and> wf_peers tpm'"
proof -
  obtain port where port: "utils_Port L addr = Some port"
    using assms(2,3) by (auto simp: tokenPeerManager_Set_def split: option.splits)
  define p where "p = \<lparr>p_ID = h, p_IP = addr, p_Port = of_int port, p_Token = token, p_Time = now\<rparr>"
  have tpm': "tpm' = mput tpm h (mput (case map_of tpm h of None \<Rightarrow> [] | Some ps \<Rightarrow> ps) a p)"
    using assms(2,3) port by (simp add: tokenPeerManager_Set_def p_def)
  have wf: "wf_peers tpm'" unfolding tpm' using assms(1) by (rule wf_peers_mput)
  have e: "peer_entry tpm' (h, a) = Some p" by (simp add: tpm' peer_entry_def)
  show ?thesis
    using wf announced.entry_sweep [OF wf, of later interval "(h, a)"] e assms(3,4)
    by (auto simp: Get_entry p_def) (auto simp: tpm' p_def peer_entry_def split: option.splits)
qed

theorem announced_peer_lifetime_witness:
  "\<exists>tpm. tokenPeerManager_Set no_i2p [] zeroHash (UDPAddr [10, 0, 0, 1] 80) [1] 5 = Some tpm \<and>
     tokenPeerManager_Get no_i2p tpm zeroHash (UDPAddr [10, 0, 0, 1] 80) = Some [1] \<and>
     tokenPeerManager_Get no_i2p (cleanupExpiredPeers tpm (5 + 11 * minute) (10 * minute)) zeroHash
       (UDPAddr [10, 0, 0, 1] 80) = Some []"
proof -
  obtain tpm a where "tokenPeerManager_Set no_i2p [] zeroHash (UDPAddr [10, 0, 0, 1] 80) [1] 5 = Some tpm"
    "Addr_String no_i2p (UDPAddr [10, 0, 0, 1] 80) = Some a"
    by (simp add: tokenPeerManager_Set_def Addr_String_def utils_Port_def)
  then show ?thesis
    using announced_peer_lifetime [of "[]" no_i2p zeroHash "UDPAddr [10, 0, 0, 1] 80" "[1]" 5 tpm a
        "UDPAddr [10, 0, 0, 1] 80" a zeroHash "5 + 11 * minute" "10 * minute"]
    by (simp add: wf_peers_def)
qed

text \<open>What the blacklist blocks. \<^verbatim>\<open>Add\<close> blocks the port, or every port of the address when it is
  given none, unless the list is full and the address new; it never unblocks anything. \<^verbatim>\<open>Del\<close> of
  an address without a port unblocks all of it. Neither changes anything for other addresses.\<close>

theorem blacklist_blocks:
  assumes "wf_map (bl_ips bl)"
  shows "(blacklist_In (blacklist_Add bl ip port now) ip' port' \<longleftrightarrow>
       blacklist_In bl ip' port' \<or>
       ip' = ip \<and> (port < 1 \<or> port' = port) \<and>
         (map_of (bl_ips bl) ip \<noteq> None \<or> \<not> (0 < bl_num bl \<and> bl_num bl \<le> int (length (bl_ips bl))))) \<and>
    (port < 1 \<longrightarrow> (blacklist_In (blacklist_Del bl ip port now) ip' port' \<longleftrightarrow> ip' \<noteq> ip \<and> blacklist_In bl ip' port')) \<and>
    (ip' \<noteq> ip \<longrightarrow> blacklist_In (blacklist_Del bl ip port now) ip' port' = blacklist_In bl ip' port')"
  by (auto simp: blacklist_In_def blacklist_Add_def blacklist_Del_def split: option.splits)

theorem blacklist_blocks_witness:
  "blacklist_In (blacklist_Add (NewMemoryBlacklist 2) (ascii ''a'') 80 0) (ascii ''a'') 80 \<and>
   \<not> blacklist_In (blacklist_Add (NewMemoryBlacklist 2) (ascii ''a'') 80 0) (ascii ''a'') 81"
  using blacklist_blocks [of "NewMemoryBlacklist 2" "ascii ''a''" 80 0 "ascii ''a''" 80]
    blacklist_blocks [of "NewMemoryBlacklist 2" "ascii ''a''" 80 0 "ascii ''a''" 81]
  by (simp add: NewMemoryBlacklist_def blacklist_In_def)

text \<open>Whatever is added, removed and cleaned up, a blacklist made for a positive number of addresses
  never holds more, and each entry blocks something: it blocks all ports or holds a port.\<close>

theorem blacklist_bounded:
  assumes "reach (\<lambda>bl. bl = NewMemoryBlacklist maxnum) (blacklist_step interval) bl"
  shows "(0 < maxnum \<longrightarrow> int (length (bl_ips bl)) \<le> maxnum) \<and>
    (map_of (bl_ips bl) ip \<noteq> None \<longrightarrow> (\<exists>port. blacklist_In bl ip port))"
proof -
  have inv: "blacklist_ok maxnum bl" using assms by (rule bounded.reach_inv)
  then have "\<exists>port. blacklist_In bl ip port" if "map_of (bl_ips bl) ip = Some wp" for wp
    using map_of_SomeD [OF that] that
    by (cases "wp_Ports wp") (force simp: blacklist_ok_def ports_ok_def blacklist_In_def)+
  then show ?thesis using inv by (auto simp: blacklist_ok_def)
qed

theorem blacklist_bounded_witness:
  "length (bl_ips (blacklist_Add (blacklist_Add (NewMemoryBlacklist 1) [1] 80 0) [2] 80 1)) \<le> 1"
proof -
  have "reach (\<lambda>bl. bl = NewMemoryBlacklist 1) (blacklist_step minute)
      (blacklist_Add (blacklist_Add (NewMemoryBlacklist 1) [1] 80 0) [2] 80 1)"
    by (rule reach_step [OF reach_step [OF reach_init]], rule refl, rule bl_add, rule bl_add)
  from blacklist_bounded [OF this] show ?thesis by simp
qed

end
