(* ===== verification/Sha.thy ===== *)
theory Sha
  imports Prelude
begin

unbundle bit_operations_syntax

text \<open>
  The two hash functions of Go's standard library that the code uses: \<^verbatim>\<open>crypto/sha1\<close> for info
  hashes and pieces, \<^verbatim>\<open>crypto/sha256\<close> for the targets of stored DHT data (FIPS 180-4). The
  components need no more of them than that they are functions with digests of fixed length.
\<close>

section \<open>Padding and blocks\<close>

definition sha_pad :: "bytes \<Rightarrow> bytes" where
  "sha_pad m =
     m @ [128] @ replicate ((119 - length m mod 64) mod 64) 0 @ be_put 8 (8 * length m)"

definition block_words :: "bytes \<Rightarrow> u32 list" where
  "block_words b = map (\<lambda>w. of_nat (be_get w)) (chunks 4 b)"

section \<open>SHA-1\<close>

text \<open>The message schedule, the newest word first.\<close>

primrec sha1_schedule :: "nat \<Rightarrow> u32 list \<Rightarrow> u32 list" where
  "sha1_schedule 0 ws = ws"
| "sha1_schedule (Suc n) ws =
     sha1_schedule n (word_rotl 1 (ws ! 2 XOR ws ! 7 XOR ws ! 13 XOR ws ! 15) # ws)"

definition sha1_round :: "u32 \<times> u32 \<times> u32 \<times> u32 \<times> u32 \<Rightarrow> nat \<times> u32 \<Rightarrow> u32 \<times> u32 \<times> u32 \<times> u32 \<times> u32" where
  "sha1_round = (\<lambda>(a, b, c, d, e) (t, w).
     let (f, k) =
       (if t < 20 then ((b AND c) OR (NOT b AND d), 0x5a827999)
        else if t < 40 then (b XOR c XOR d, 0x6ed9eba1)
        else if t < 60 then ((b AND c) OR (b AND d) OR (c AND d), 0x8f1bbcdc)
        else (b XOR c XOR d, 0xca62c1d6))
     in (word_rotl 5 a + f + e + k + w, a, word_rotl 30 b, c, d))"

definition sha1_block :: "u32 list \<Rightarrow> bytes \<Rightarrow> u32 list" where
  "sha1_block h b =
     (let (a, b, c, d, e) =
        foldl sha1_round (h ! 0, h ! 1, h ! 2, h ! 3, h ! 4)
          (List.enumerate 0 (rev (sha1_schedule 64 (rev (block_words b)))))
      in [h ! 0 + a, h ! 1 + b, h ! 2 + c, h ! 3 + d, h ! 4 + e])"

definition sha1 :: "bytes \<Rightarrow> bytes" where
  "sha1 m = concat (map put_u32 (foldl sha1_block
     [0x67452301, 0xefcdab89, 0x98badcfe, 0x10325476, 0xc3d2e1f0] (chunks 64 (sha_pad m))))"

section \<open>SHA-256\<close>

text \<open>
  The constants are the first 32 bits of the fractional parts of cube and square roots of the
  first primes. A root of a number below \<open>2 ^ (35 * k)\<close> is found bit by bit.
\<close>

definition primes_below :: "nat \<Rightarrow> nat list" where
  "primes_below n = filter (\<lambda>p. list_all (\<lambda>d. p mod d \<noteq> 0) [2..<p]) [2..<n]"

primrec root_bits :: "nat \<Rightarrow> nat \<Rightarrow> nat \<Rightarrow> nat \<Rightarrow> nat" where
  "root_bits k n 0 r = r"
| "root_bits k n (Suc b) r = root_bits k n b (if (r + 2 ^ b) ^ k \<le> n then r + 2 ^ b else r)"

definition root_fraction :: "nat \<Rightarrow> nat \<Rightarrow> u32" where
  "root_fraction k p = of_nat (root_bits k (p * 2 ^ (32 * k)) 35 0)"

definition sha256_k :: "u32 list" where
  "sha256_k = map (root_fraction 3) (primes_below 312)"

definition sha256_init :: "u32 list" where
  "sha256_init = map (root_fraction 2) (primes_below 20)"

primrec sha256_schedule :: "nat \<Rightarrow> u32 list \<Rightarrow> u32 list" where
  "sha256_schedule 0 ws = ws"
| "sha256_schedule (Suc n) ws =
     (let x = ws ! 14; y = ws ! 1;
          s0 = word_rotr 7 x XOR word_rotr 18 x XOR drop_bit 3 x;
          s1 = word_rotr 17 y XOR word_rotr 19 y XOR drop_bit 10 y
      in sha256_schedule n ((s1 + ws ! 6 + s0 + ws ! 15) # ws))"

definition sha256_round :: "u32 list \<Rightarrow> u32 \<times> u32 \<Rightarrow> u32 list" where
  "sha256_round h = (\<lambda>(k, w).
     let a = h ! 0; e = h ! 4;
         s1 = word_rotr 6 e XOR word_rotr 11 e XOR word_rotr 25 e;
         ch = (e AND h ! 5) XOR (NOT e AND h ! 6);
         t1 = h ! 7 + s1 + ch + k + w;
         s0 = word_rotr 2 a XOR word_rotr 13 a XOR word_rotr 22 a;
         maj = (a AND h ! 1) XOR (a AND h ! 2) XOR (h ! 1 AND h ! 2)
     in [t1 + s0 + maj, a, h ! 1, h ! 2, h ! 3 + t1, e, h ! 5, h ! 6])"

definition sha256_block :: "u32 list \<Rightarrow> bytes \<Rightarrow> u32 list" where
  "sha256_block h b =
     (let r = foldl sha256_round h (zip sha256_k (rev (sha256_schedule 48 (rev (block_words b)))))
      in map (\<lambda>i. h ! i + r ! i) [0..<8])"

definition sha256 :: "bytes \<Rightarrow> bytes" where
  "sha256 m = concat (map put_u32 (foldl sha256_block sha256_init (chunks 64 (sha_pad m))))"

section \<open>Lengths\<close>

lemma length_concat_put_u32: "length (concat (map put_u32 ws)) = 4 * length ws"
  by (induction ws) auto

lemma length_foldl_state: "\<forall>h b. length (f h b) = n \<Longrightarrow> length h = n \<Longrightarrow> length (foldl f h bs) = n"
  by (induction bs arbitrary: h) auto

lemma length_sha1 [simp]: "length (sha1 m) = 20"
proof -
  have "\<forall>h b. length (sha1_block h b) = 5" by (auto simp: sha1_block_def split: prod.split)
  from length_foldl_state [OF this] show ?thesis by (simp add: sha1_def length_concat_put_u32)
qed

lemma length_sha256 [simp]: "length (sha256 m) = 32"
proof -
  have "\<forall>h b. length (sha256_block h b) = 8" by (simp add: sha256_block_def Let_def)
  moreover have "length (primes_below 20) = 8" by code_simp
  then have "length sha256_init = 8" by (simp add: sha256_init_def)
  ultimately show ?thesis
    using length_foldl_state [of sha256_block 8] by (simp add: sha256_def length_concat_put_u32)
qed

end
