(* ===== verification/DataStorage.thy ===== *)
theory DataStorage
  imports DhtManagers Sha
begin

text \<open>
  The store for arbitrary data of the DHT, \<^verbatim>\<open>dht/data_storage.go\<close> (BEP 44). Signatures are
  checked by \<^verbatim>\<open>ed25519.Verify\<close>, which is the parameter \<open>verify\<close>: public key, message, signature.
  An error of \<^verbatim>\<open>Put\<close> is a value, and its text is what the server compares and sends.
\<close>

abbreviation MaxValueSize :: nat where
  "MaxValueSize \<equiv> 1000"

abbreviation MaxSaltSize :: nat where
  "MaxSaltSize \<equiv> 64"

abbreviation DataExpirationTime :: duration where
  "DataExpirationTime \<equiv> 2 * hour"

record storage_item =
  si_Value :: bytes
  si_IsMutable :: bool
  si_PublicKey :: bytes
  si_Signature :: bytes
  si_Seq :: int
  si_Salt :: bytes
  si_CAS :: int
  si_StoredAt :: time
  si_Target :: hash

type_synonym verifier = "bytes \<Rightarrow> bytes \<Rightarrow> bytes \<Rightarrow> bool"

definition StorageItem_IsExpired :: "storage_item \<Rightarrow> time \<Rightarrow> bool" where
  "StorageItem_IsExpired item now \<longleftrightarrow> DataExpirationTime < now - si_StoredAt item"

definition signature_dict :: "storage_item \<Rightarrow> gval" where
  "signature_dict item = GMap
     ([(ascii ''seq'', GIface (Some (GInt (si_Seq item)))),
       (ascii ''v'', GIface (Some (GBytes (si_Value item))))] @
      (if 0 < length (si_Salt item) then [(ascii ''salt'', GIface (Some (GBytes (si_Salt item))))] else []))"

definition CreateSignatureMessage :: "storage_item \<Rightarrow> bytes" where
  "CreateSignatureMessage item =
     (case encodeValue (signature_dict item) of Inl _ \<Rightarrow> [] | Inr b \<Rightarrow> b)"

definition VerifySignature :: "verifier \<Rightarrow> storage_item \<Rightarrow> bool" where
  "VerifySignature verify item =
     (if \<not> si_IsMutable item then True
      else if length (si_PublicKey item) \<noteq> 32 then False
      else if length (si_Signature item) \<noteq> 64 then False
      else verify (si_PublicKey item) (CreateSignatureMessage item) (si_Signature item))"

text \<open>The slice that \<^verbatim>\<open>NewHash\<close> gets has 32 bytes, so it cannot panic: see \<open>NewHash_sha256\<close>.\<close>

definition ComputeTarget :: "storage_item \<Rightarrow> hash" where
  "ComputeTarget item =
     (if \<not> si_IsMutable item then projr (NewHash (sha256 (si_Value item)))
      else projr (NewHash (sha256 (si_PublicKey item @
        (if 0 < length (si_Salt item) then si_Salt item else [])))))"

type_synonym data_store = "(hash, storage_item) gomap"

definition NewDataStore :: data_store where
  "NewDataStore = []"

datatype store_error =
    ValueTooLarge nat
  | SaltTooLarge nat
  | InvalidSignature
  | CASMismatch int int
  | SequenceNumber int int

definition store_error_Error :: "store_error \<Rightarrow> bytes" where
  "store_error_Error e =
     (case e of
        ValueTooLarge n \<Rightarrow> ascii ''value too large: '' @ dec_nat n @ ascii '' > '' @ dec_nat MaxValueSize
      | SaltTooLarge n \<Rightarrow> ascii ''salt too large: '' @ dec_nat n @ ascii '' > '' @ dec_nat MaxSaltSize
      | InvalidSignature \<Rightarrow> ascii ''invalid signature''
      | CASMismatch cas seq \<Rightarrow> ascii ''CAS mismatch: expected '' @ dec_int cas @ ascii '', got '' @ dec_int seq
      | SequenceNumber seq cur \<Rightarrow>
          ascii ''sequence number must be greater than current: '' @ dec_int seq @ ascii '' <= '' @ dec_int cur)"

text \<open>What is compared with the item that is stored under the target.\<close>

definition check_existing :: "storage_item option \<Rightarrow> storage_item \<Rightarrow> store_error option" where
  "check_existing old item =
     (case old of
        None \<Rightarrow> None
      | Some existing \<Rightarrow>
          if si_IsMutable existing \<and> si_IsMutable item then
            (if si_CAS item \<noteq> 0 \<and> si_CAS item \<noteq> si_Seq existing
             then Some (CASMismatch (si_CAS item) (si_Seq existing))
             else if si_Seq item \<le> si_Seq existing
             then Some (SequenceNumber (si_Seq item) (si_Seq existing))
             else None)
          else None)"

definition DataStore_Put ::
  "verifier \<Rightarrow> data_store \<Rightarrow> storage_item \<Rightarrow> time \<Rightarrow> store_error + data_store" where
  "DataStore_Put verify ds item now =
     (if MaxValueSize < length (si_Value item) then Inl (ValueTooLarge (length (si_Value item)))
      else if MaxSaltSize < length (si_Salt item) then Inl (SaltTooLarge (length (si_Salt item)))
      else if si_IsMutable item \<and> \<not> VerifySignature verify item then Inl InvalidSignature
      else let target = (if Hash_IsZero (si_Target item) then ComputeTarget item else si_Target item)
           in case check_existing (map_of ds target) item of
                Some e \<Rightarrow> Inl e
              | None \<Rightarrow> Inr (mput ds target (item\<lparr>si_Target := target, si_StoredAt := now\<rparr>)))"

definition DataStore_Get :: "data_store \<Rightarrow> hash \<Rightarrow> time \<Rightarrow> storage_item option" where
  "DataStore_Get ds target now =
     (case map_of ds target of
        None \<Rightarrow> None
      | Some item \<Rightarrow> if StorageItem_IsExpired item now then None else Some item)"

definition DataStore_CleanupExpired :: "data_store \<Rightarrow> time \<Rightarrow> data_store \<times> nat" where
  "DataStore_CleanupExpired ds now =
     (let ds' = mfilter (\<lambda>item. \<not> StorageItem_IsExpired item now) ds in (ds', length ds - length ds'))"

definition DataStore_Count :: "data_store \<Rightarrow> nat" where
  "DataStore_Count ds = length ds"

interpretation stored: expiring "\<lambda>now ds. fst (DataStore_CleanupExpired ds now)" "\<lambda>ds. map_of ds"
  "\<lambda>now item. StorageItem_IsExpired item now" "\<lambda>ds. wf_map ds"
  by unfold_locales
     (auto simp: DataStore_CleanupExpired_def Let_def StorageItem_IsExpired_def map_of_mfilter split: option.split)

section \<open>Targets and signatures\<close>

lemma NewHash_sha256: "NewHash (sha256 m) = Inr (take 20 (sha256 m))"
  by (simp add: NewHash_def HashSize_def)

lemma wf_ComputeTarget: "wf_hash (ComputeTarget item)"
  by (simp add: ComputeTarget_def NewHash_sha256 wf_hash_def HashSize_def)

definition signature_fields :: "storage_item \<Rightarrow> (bytes \<times> bval) list" where
  "signature_fields item =
     (if 0 < length (si_Salt item) then [(ascii ''salt'', BStr (si_Salt item))] else []) @
     [(ascii ''seq'', BInt (si_Seq item)), (ascii ''v'', BStr (si_Value item))]"

definition signable :: "storage_item \<Rightarrow> bool" where
  "signable item \<longleftrightarrow> is_int64 (si_Seq item) \<and> fits (si_Value item) \<and> fits (si_Salt item)"

lemma signature_dict_denotes:
  assumes "signable item"
  shows "denotes (signature_dict item) (BDict (signature_fields item))"
proof -
  let ?g = "(if 0 < length (si_Salt item) then [(ascii ''salt'', GIface (Some (GBytes (si_Salt item))))] else []) @
     [(ascii ''seq'', GIface (Some (GInt (si_Seq item)))), (ascii ''v'', GIface (Some (GBytes (si_Value item))))]"
  have i: "denotes (GIface (Some (GInt (si_Seq item)))) (BInt (si_Seq item))"
    by (intro d_iface d_int) (use assms in \<open>auto simp: signable_def is_int64_def\<close>)
  have b: "denotes (GIface (Some (GBytes x))) (BStr x)" if "fits x" for x
    by (intro d_bytes) (use that in \<open>auto simp: fits_def is_byte_slice_def\<close>)
  have "distinct (map fst (signature_fields item))" by (simp add: signature_fields_def ascii_def)
  from mk_dict_distinct [OF this] have m: "mk_dict (signature_fields item) = signature_fields item" .
  have k: "sort_key fst (case signature_dict item of GMap kgs \<Rightarrow> kgs) = ?g"
    by (cases "si_Salt item") (simp_all add: signature_dict_def ascii_def)
  have "denotes (GMap (case signature_dict item of GMap kgs \<Rightarrow> kgs)) (BDict (mk_dict (signature_fields item)))"
  proof (rule d_map)
    show "list_all2 (rel_prod (=) denotes)
        (filter (\<lambda>(k, g). \<not> isNilValue g) (sort_key fst (case signature_dict item of GMap kgs \<Rightarrow> kgs)))
        (signature_fields item)"
      unfolding k using i b assms by (simp add: signature_fields_def isNilValue_def signable_def)
  qed (simp add: signature_dict_def ascii_def)
  then show ?thesis unfolding m by (simp add: signature_dict_def)
qed

lemma signature_message_decodes:
  assumes "signable item"
  shows "Decode True (CreateSignatureMessage item) = Inr (BDict (signature_fields item), [])"
proof -
  obtain b where "encodeValue (signature_dict item) = Inr b"
    "\<And>s. Decode True (b @ s) = Inr (BDict (signature_fields item), s)"
    using denotes_transmits [OF signature_dict_denotes [OF assms]] by (auto simp: transmits_def)
  from this(1) this(2) [of "[]"] show ?thesis by (simp add: CreateSignatureMessage_def)
qed

section \<open>The store\<close>

lemma ComputeTarget_irrelevant [simp]:
  "ComputeTarget (item\<lparr>si_Target := t, si_StoredAt := now\<rparr>) = ComputeTarget item"
  by (simp add: ComputeTarget_def)

lemma VerifySignature_irrelevant [simp]:
  "VerifySignature verify (item\<lparr>si_Target := t, si_StoredAt := now\<rparr>) = VerifySignature verify item"
  by (simp add: VerifySignature_def CreateSignatureMessage_def signature_dict_def)

lemma Put_cases:
  assumes "DataStore_Put verify ds item now = Inr ds'"
  obtains target where "target = (if Hash_IsZero (si_Target item) then ComputeTarget item else si_Target item)"
    "ds' = mput ds target (item\<lparr>si_Target := target, si_StoredAt := now\<rparr>)"
    "length (si_Value item) \<le> MaxValueSize" "length (si_Salt item) \<le> MaxSaltSize"
    "VerifySignature verify item" "check_existing (map_of ds target) item = None"
  using assms by (auto simp: DataStore_Put_def Let_def VerifySignature_def split: if_splits option.splits)

text \<open>The store as a server uses it: items come without a target, as \<^verbatim>\<open>handlePutQuery\<close> makes them.
  A caller of \<^verbatim>\<open>Put\<close> that sets the target itself is outside this relation.\<close>

inductive ds_step :: "verifier \<Rightarrow> data_store \<Rightarrow> data_store \<Rightarrow> bool" for verify where
  ds_put: "Hash_IsZero (si_Target item) \<Longrightarrow> DataStore_Put verify ds item now = Inr ds' \<Longrightarrow> ds_step verify ds ds'"
| ds_clean: "ds_step verify ds (fst (DataStore_CleanupExpired ds now))"

definition valid_item :: "verifier \<Rightarrow> hash \<Rightarrow> storage_item \<Rightarrow> bool" where
  "valid_item verify target item \<longleftrightarrow>
     si_Target item = target \<and> target = ComputeTarget item \<and> length (si_Value item) \<le> MaxValueSize \<and>
     length (si_Salt item) \<le> MaxSaltSize \<and> VerifySignature verify item"

definition valid_store :: "verifier \<Rightarrow> data_store \<Rightarrow> bool" where
  "valid_store verify ds \<longleftrightarrow> wf_map ds \<and> (\<forall>t item. map_of ds t = Some item \<longrightarrow> valid_item verify t item)"

interpretation store: inductive_invariant "\<lambda>ds. ds = NewDataStore" "ds_step verify" "valid_store verify" for verify
proof
  fix ds ds' assume v: "valid_store verify ds" and "ds_step verify ds ds'"
  from this(2) show "valid_store verify ds'"
  proof cases
    case (ds_put item now)
    from ds_put(2) obtain target where "target = ComputeTarget item"
      "ds' = mput ds target (item\<lparr>si_Target := target, si_StoredAt := now\<rparr>)"
      "length (si_Value item) \<le> MaxValueSize" "length (si_Salt item) \<le> MaxSaltSize" "VerifySignature verify item"
      by (rule Put_cases) (use ds_put(1) in auto)
    then show ?thesis using v by (auto simp: valid_store_def valid_item_def)
  next
    case (ds_clean now)
    have "wf_map ds" using v by (simp add: valid_store_def)
    from stored.invar_sweep [OF this, of now] stored.sweep_alive [OF this, of now] ds_clean v
    show ?thesis by (auto simp: valid_store_def)
  qed
qed (simp add: NewDataStore_def valid_store_def)

section \<open>Properties\<close>

text \<open>C11: Whatever is put without a target and cleaned up, the store of a server only holds valid items: each is stored
  under the target its contents give, its value and salt are within the limits, and a mutable one
  carries a signature that verifies under its public key.\<close>

theorem stored_items_valid:
  assumes "reach (\<lambda>ds. ds = NewDataStore) (ds_step verify) ds" "DataStore_Get ds target now = Some item"
  shows "target = ComputeTarget item \<and> length (si_Value item) \<le> MaxValueSize \<and>
    length (si_Salt item) \<le> MaxSaltSize \<and> VerifySignature verify item \<and> \<not> StorageItem_IsExpired item now"
  using store.reach_inv [OF assms(1)] assms(2)
  by (auto simp: DataStore_Get_def valid_store_def valid_item_def split: option.splits if_splits)

definition example_item :: storage_item where
  "example_item = \<lparr>si_Value = ascii ''hello'', si_IsMutable = False, si_PublicKey = [], si_Signature = [],
     si_Seq = 0, si_Salt = [], si_CAS = 0, si_StoredAt = 0, si_Target = zeroHash\<rparr>"

lemma example_put:
  "DataStore_Put verify NewDataStore example_item now =
     Inr [(ComputeTarget example_item,
           example_item\<lparr>si_Target := ComputeTarget example_item, si_StoredAt := now\<rparr>)]"
  by (simp add: DataStore_Put_def NewDataStore_def example_item_def ascii_def Hash_IsZero_def
      check_existing_def mput_def Let_def)

theorem stored_items_valid_witness:
  "\<exists>ds item. DataStore_Put (\<lambda>_ _ _. False) NewDataStore example_item 0 = Inr ds \<and>
     DataStore_Get ds (ComputeTarget example_item) hour = Some item \<and>
     ComputeTarget example_item = ComputeTarget item \<and> VerifySignature (\<lambda>_ _ _. False) item"
proof -
  let ?i = "example_item\<lparr>si_Target := ComputeTarget example_item, si_StoredAt := 0\<rparr>"
  have p: "DataStore_Put (\<lambda>_ _ _. False) NewDataStore example_item 0 = Inr [(ComputeTarget example_item, ?i)]"
    by (rule example_put)
  have r: "reach (\<lambda>ds. ds = NewDataStore) (ds_step (\<lambda>_ _ _. False)) [(ComputeTarget example_item, ?i)]"
    by (rule reach_step [OF reach_init], rule refl, rule ds_put [OF _ p])
       (simp add: example_item_def Hash_IsZero_def)
  have g: "DataStore_Get [(ComputeTarget example_item, ?i)] (ComputeTarget example_item) hour = Some ?i"
    by (simp add: DataStore_Get_def StorageItem_IsExpired_def)
  show ?thesis using p g stored_items_valid [OF r g] by blast
qed

text \<open>The key an item is put under: the target it comes with, or the one its contents give.\<close>

definition put_target :: "storage_item \<Rightarrow> hash" where
  "put_target item = (if Hash_IsZero (si_Target item) then ComputeTarget item else si_Target item)"

text \<open>When an item is acceptable beside what is stored: the limits, the signature of a mutable item,
  and the order of two mutable items under the same key.\<close>

definition properly_signed :: "verifier \<Rightarrow> storage_item \<Rightarrow> bool" where
  "properly_signed verify item \<longleftrightarrow> length (si_PublicKey item) = 32 \<and> length (si_Signature item) = 64 \<and>
     verify (si_PublicKey item) (CreateSignatureMessage item) (si_Signature item)"

definition follows :: "storage_item \<Rightarrow> storage_item \<Rightarrow> bool" where
  "follows item old \<longleftrightarrow> si_CAS item \<in> {0, si_Seq old} \<and> si_Seq old < si_Seq item"

definition acceptable :: "verifier \<Rightarrow> data_store \<Rightarrow> storage_item \<Rightarrow> bool" where
  "acceptable verify ds item \<longleftrightarrow>
     length (si_Value item) \<le> MaxValueSize \<and> length (si_Salt item) \<le> MaxSaltSize \<and>
     (si_IsMutable item \<longrightarrow> properly_signed verify item) \<and>
     (\<forall>old. map_of ds (put_target item) = Some old \<and> si_IsMutable old \<and> si_IsMutable item \<longrightarrow> follows item old)"

text \<open>C18: Putting an item, with or without a target: every case. An item that is refused is not acceptable,
  and the error says why: the value or the salt is too large, the signature of a mutable item does
  not verify, or the item does not follow the mutable one that is stored under its target. An item that is
  stored is acceptable. It is then found under its target, as it was put, until two hours have passed,
  and every other target answers as before.\<close>

theorem put_then_get:
  "case DataStore_Put verify ds item now of
      Inl e \<Rightarrow> \<not> acceptable verify ds item \<and> (case e of
          ValueTooLarge n \<Rightarrow> n = length (si_Value item) \<and> MaxValueSize < n
        | SaltTooLarge n \<Rightarrow> n = length (si_Salt item) \<and> MaxSaltSize < n
        | InvalidSignature \<Rightarrow> si_IsMutable item \<and> \<not> properly_signed verify item
        | CASMismatch cas seq \<Rightarrow> cas = si_CAS item \<and> cas \<noteq> 0 \<and> cas \<noteq> seq \<and>
            (\<exists>old. map_of ds (put_target item) = Some old \<and> si_IsMutable old \<and> si_Seq old = seq)
        | SequenceNumber new seq \<Rightarrow> new = si_Seq item \<and> new \<le> seq \<and>
            (\<exists>old. map_of ds (put_target item) = Some old \<and> si_IsMutable old \<and> si_Seq old = seq))
    | Inr ds' \<Rightarrow> acceptable verify ds item \<and>
        DataStore_Get ds' target later =
          (if target = put_target item
           then (if DataExpirationTime < later - now then None
                 else Some (item\<lparr>si_Target := target, si_StoredAt := now\<rparr>))
           else DataStore_Get ds target later)"
proof (cases "DataStore_Put verify ds item now")
  case (Inl e)
  then show ?thesis
    by (auto simp: DataStore_Put_def Let_def check_existing_def acceptable_def follows_def properly_signed_def
        VerifySignature_def put_target_def split: if_splits option.splits)
next
  case (Inr ds')
  then obtain t where t: "t = put_target item" "ds' = mput ds t (item\<lparr>si_Target := t, si_StoredAt := now\<rparr>)"
    "length (si_Value item) \<le> MaxValueSize" "length (si_Salt item) \<le> MaxSaltSize"
    "VerifySignature verify item" "check_existing (map_of ds t) item = None"
    by (auto simp: put_target_def elim: Put_cases)
  have "acceptable verify ds item"
    using t by (auto simp: acceptable_def follows_def properly_signed_def VerifySignature_def check_existing_def
        split: if_splits)
  with Inr t show ?thesis by (simp add: DataStore_Get_def StorageItem_IsExpired_def)
qed

theorem put_then_get_witness:
  "\<exists>ds. DataStore_Put (\<lambda>_ _ _. False) NewDataStore example_item 0 = Inr ds \<and>
     acceptable (\<lambda>_ _ _. False) NewDataStore example_item \<and>
     DataStore_Get ds (ComputeTarget example_item) hour =
       Some (example_item\<lparr>si_Target := ComputeTarget example_item, si_StoredAt := 0\<rparr>) \<and>
     DataStore_Get ds (ComputeTarget example_item) (3 * hour) = None"
proof -
  have "put_target example_item = ComputeTarget example_item"
    by (simp add: put_target_def example_item_def Hash_IsZero_def)
  then show ?thesis
    using put_then_get [where item = example_item and verify = "\<lambda>_ _ _. False" and ds = NewDataStore and now = 0
        and later = hour and target = "ComputeTarget example_item"]
      put_then_get [where item = example_item and verify = "\<lambda>_ _ _. False" and ds = NewDataStore and now = 0
        and later = "3 * hour" and target = "ComputeTarget example_item"]
    unfolding example_put [of "\<lambda>_ _ _. False" 0] by simp
qed


definition signed_item :: "int \<Rightarrow> storage_item" where
  "signed_item seq = \<lparr>si_Value = [1], si_IsMutable = True, si_PublicKey = replicate 32 7,
     si_Signature = replicate 64 9, si_Seq = seq, si_Salt = [], si_CAS = 0, si_StoredAt = 0, si_Target = zeroHash\<rparr>"



text \<open>The message that is signed determines what it is about: items with the same message have
  the same sequence number, value and salt, so a signature cannot be moved to other data.\<close>

theorem signature_binds:
  assumes "signable a" "signable b" "CreateSignatureMessage a = CreateSignatureMessage b"
  shows "si_Seq a = si_Seq b \<and> si_Value a = si_Value b \<and> si_Salt a = si_Salt b"
proof -
  have "signature_fields a = signature_fields b"
    using signature_message_decodes [OF assms(1)] signature_message_decodes [OF assms(2)] assms(3) by simp
  then show ?thesis by (auto simp: signature_fields_def ascii_def split: if_splits)
qed

theorem signature_binds_witness:
  "CreateSignatureMessage (signed_item 1) \<noteq> CreateSignatureMessage (signed_item 2)"
  using signature_binds [of "signed_item 1" "signed_item 2"]
  by (auto simp: signable_def is_int64_def fits_def signed_item_def)

text \<open>The unsigned item whose value is the key and the salt of another item, put without a target.\<close>

definition key_as_value :: "storage_item \<Rightarrow> storage_item" where
  "key_as_value item =
     \<lparr>si_Value = si_PublicKey item @ si_Salt item, si_IsMutable = False, si_PublicKey = [], si_Signature = [],
      si_Seq = 0, si_Salt = [], si_CAS = 0, si_StoredAt = 0, si_Target = zeroHash\<rparr>"

text \<open>C37: A mutable item is not protected against immutable ones. Its target is the hash of its key and
  salt; the immutable item whose value is just these bytes, put without a target and without a signature,
  gets the same target, is accepted, and replaces the mutable item whatever its sequence number.\<close>

theorem mutable_item_replaced:
  assumes "map_of ds (ComputeTarget item) = Some item" "si_IsMutable item" "length (si_PublicKey item) = 32"
    "length (si_Salt item) \<le> MaxSaltSize"
  shows "ComputeTarget (key_as_value item) = ComputeTarget item \<and>
    (\<exists>ds'. DataStore_Put verify ds (key_as_value item) now = Inr ds' \<and>
      DataStore_Get ds' (ComputeTarget item) now =
        Some ((key_as_value item)\<lparr>si_Target := ComputeTarget item, si_StoredAt := now\<rparr>))"
proof -
  have "ComputeTarget (key_as_value item) = ComputeTarget item"
    using assms(2) by (simp add: ComputeTarget_def key_as_value_def)
  then show ?thesis using assms
    by (simp add: DataStore_Put_def Hash_IsZero_def check_existing_def DataStore_Get_def StorageItem_IsExpired_def
        Let_def) (simp add: key_as_value_def)
qed

theorem mutable_item_replaced_witness:
  "si_IsMutable (signed_item 1) \<and> \<not> si_IsMutable (key_as_value (signed_item 1)) \<and>
   (\<exists>ds'. DataStore_Put (\<lambda>_ _ _. True) [(ComputeTarget (signed_item 1), signed_item 1)]
       (key_as_value (signed_item 1)) 0 = Inr ds' \<and>
     DataStore_Get ds' (ComputeTarget (signed_item 1)) 0 =
       Some ((key_as_value (signed_item 1))\<lparr>si_Target := ComputeTarget (signed_item 1), si_StoredAt := 0\<rparr>))"
  using mutable_item_replaced [where item = "signed_item 1" and now = 0 and verify = "\<lambda>_ _ _. True" and
      ds = "[(ComputeTarget (signed_item 1), signed_item 1)]"]
  by (simp add: signed_item_def key_as_value_def)

end
