(* ===== verification/Resolver.thy ===== *)
theory Resolver
  imports Krpc
begin

text \<open>
  Addresses from text: \<^verbatim>\<open>net.ParseIP\<close> of the standard library, and the operations of
  \<^verbatim>\<open>metainfo/address.go\<close> that parse or look up a name. The answers of the resolvers,
  \<^verbatim>\<open>net.LookupIP\<close> and \<^verbatim>\<open>i2pkeys.Lookup\<close>, are the parameter \<open>R\<close>.
\<close>

section \<open>Parsing IP addresses\<close>

fun split_on :: "byte \<Rightarrow> bytes \<Rightarrow> bytes list" where
  "split_on c [] = [[]]"
| "split_on c (x # xs) =
     (if x = c then [] # split_on c xs
      else case split_on c xs of [] \<Rightarrow> [[x]] | f # fs \<Rightarrow> (x # f) # fs)"

definition decimal_octet :: "bytes \<Rightarrow> byte option" where
  "decimal_octet s =
     (if s = [] \<or> \<not> list_all (\<lambda>c. 48 \<le> c \<and> c \<le> 57) s \<or> (hd s = 48 \<and> 1 < length s) \<or> 3 < length s then None
      else let v = foldl (\<lambda>n c. n * 10 + (unat c - 48)) 0 s in if v > 255 then None else Some (of_nat v))"

definition parseIPv4 :: "bytes \<Rightarrow> ip option" where
  "parseIPv4 s =
     (case map decimal_octet (split_on 46 s) of
        [Some a, Some b, Some c, Some d] \<Rightarrow> Some [a, b, c, d]
      | _ \<Rightarrow> None)"

text \<open>The hexadecimal digits at the front: how many, and their value.\<close>

definition hex_prefix :: "bytes \<Rightarrow> bytes" where
  "hex_prefix s = takeWhile (\<lambda>c. fromHexChar c \<noteq> None) s"

definition hex_value :: "bytes \<Rightarrow> nat" where
  "hex_value s = foldl (\<lambda>n c. n * 16 + the (fromHexChar c)) 0 s"

text \<open>
  The loop of \<^verbatim>\<open>parseIPv6\<close> for at most \<open>n\<close> more groups: \<open>ipb\<close> are the bytes so far and
  \<open>ell\<close> is the place of the double colon. It returns the bytes, the place, and the rest.
\<close>

fun ipv6_groups :: "nat \<Rightarrow> bytes \<Rightarrow> nat option \<Rightarrow> bytes \<Rightarrow> (bytes \<times> nat option \<times> bytes) option" where
  "ipv6_groups 0 ipb ell s = Some (ipb, ell, s)"
| "ipv6_groups (Suc n) ipb ell s =
     (let h = hex_prefix s; r = drop (length h) s
      in if h = [] \<or> 4 < length h then None
         else if take 1 r = [46] then
           (if ell = None \<and> length ipb \<noteq> 12 then None
            else if 16 < length ipb + 4 then None
            else case parseIPv4 s of None \<Rightarrow> None | Some v4 \<Rightarrow> Some (ipb @ v4, ell, []))
         else let ipb' = ipb @ be_put 2 (hex_value h)
              in case r of
                   [] \<Rightarrow> Some (ipb', ell, [])
                 | c # r1 \<Rightarrow>
                     if c \<noteq> 58 \<or> r1 = [] then None
                     else if hd r1 = 58 then
                       (if ell \<noteq> None then None
                        else if tl r1 = [] then Some (ipb', Some (length ipb'), [])
                        else ipv6_groups n ipb' (Some (length ipb')) (tl r1))
                     else ipv6_groups n ipb' ell r1)"

definition parseIPv6 :: "bytes \<Rightarrow> ip option" where
  "parseIPv6 s =
     (if take 2 s = [58, 58] \<and> length s = 2 then Some (replicate 16 0)
      else case ipv6_groups 8 [] (if take 2 s = [58, 58] then Some 0 else None)
                  (if take 2 s = [58, 58] then drop 2 s else s) of
             None \<Rightarrow> None
           | Some (b, ell, rest) \<Rightarrow>
               if rest \<noteq> [] then None
               else (case ell of
                       None \<Rightarrow> if length b < 16 then None else Some b
                     | Some e \<Rightarrow>
                         if length b < 16 then Some (take e b @ replicate (16 - length b) 0 @ drop e b) else None))"

text \<open>The first dot or colon decides; an address with a zone is refused; the result has 16 bytes.\<close>

definition ParseIP :: "bytes \<Rightarrow> ip option" where
  "ParseIP s =
     (if 37 \<in> set s then None
      else case find (\<lambda>c. c = 46 \<or> c = 58) s of
             None \<Rightarrow> None
           | Some c \<Rightarrow>
               if c = 46 then map_option (\<lambda>p. v4InV6Prefix @ p) (parseIPv4 s) else parseIPv6 s)"

section \<open>Names\<close>

record resolver =
  r_LookupIP :: "bytes \<Rightarrow> ip list option"
  r_I2PLookup :: "bytes \<Rightarrow> bytes option"

datatype resolve_error = InvalidAddressText | LookupFailed | NoIPs

definition is_i2p :: "bytes \<Rightarrow> bool" where
  "is_i2p h \<longleftrightarrow> 4 \<le> length h \<and> drop (length h - 4) h = ascii ''.i2p''"

definition ip_or_v4 :: "ip \<Rightarrow> netaddr" where
  "ip_or_v4 ip = (if length (IP_To4 ip) \<noteq> 0 then IPAddr (IP_To4 ip) else IPAddr ip)"

definition Lookup :: "resolver \<Rightarrow> bytes \<Rightarrow> int \<Rightarrow> resolve_error + address list" where
  "Lookup R shost port =
     (if is_i2p shost then
        (case r_I2PLookup R shost of
           None \<Rightarrow> Inl LookupFailed
         | Some d \<Rightarrow> Inr [\<lparr>IP = I2PAddr d, Port = 6881\<rparr>])
      else (case r_LookupIP R shost of
              None \<Rightarrow> Inl LookupFailed
            | Some ips \<Rightarrow> Inr (map (\<lambda>ip. \<lparr>IP = ip_or_v4 ip, Port = of_int port\<rparr>) ips)))"

definition LookupNetAddr :: "resolver \<Rightarrow> bytes \<Rightarrow> resolve_error + netaddr list" where
  "LookupNetAddr R shost =
     (if is_i2p shost then
        (case r_I2PLookup R shost of None \<Rightarrow> Inl LookupFailed | Some d \<Rightarrow> Inr [I2PAddr d])
      else (case r_LookupIP R shost of None \<Rightarrow> Inl LookupFailed | Some ips \<Rightarrow> Inr (map ip_or_v4 ips)))"

text \<open>
  \<^verbatim>\<open>net.SplitHostPort\<close> returns empty strings with its error, so the exception for an I2P name
  without a port never applies.
\<close>

definition split_host_port :: "bytes \<Rightarrow> resolve_error + bytes \<times> bytes" where
  "split_host_port s =
     (case SplitHostPort s of
        Some hp \<Rightarrow> Inr hp
      | None \<Rightarrow> if is_i2p [] then Inr ([], ascii ''6881'') else Inl InvalidAddressText)"

definition parse_port :: "bytes \<Rightarrow> u16 \<Rightarrow> resolve_error + u16" where
  "parse_port port old =
     (if port = [] then Inr old
      else case ParseUint 16 port of Inl _ \<Rightarrow> Inl InvalidAddressText | Inr v \<Rightarrow> Inr (of_nat v))"

definition NewAddressesFromString :: "resolver \<Rightarrow> bytes \<Rightarrow> resolve_error + address list" where
  "NewAddressesFromString R s =
     (case split_host_port s of
        Inl e \<Rightarrow> Inl e
      | Inr (shost, sport) \<Rightarrow>
          (case parse_port sport 0 of
             Inl e \<Rightarrow> Inl e
           | Inr port \<Rightarrow> Lookup R shost (uint port)))"

definition Address_FromString :: "resolver \<Rightarrow> address \<Rightarrow> bytes \<Rightarrow> resolve_error + address" where
  "Address_FromString R a addr =
     (case split_host_port addr of
        Inl e \<Rightarrow> Inl e
      | Inr (host, port) \<Rightarrow>
          (case parse_port port (Port a) of
             Inl e \<Rightarrow> Inl e
           | Inr p \<Rightarrow>
               (case LookupNetAddr R host of
                  Inl e \<Rightarrow> Inl e
                | Inr [] \<Rightarrow> Inl NoIPs
                | Inr (ip # _) \<Rightarrow> Inr \<lparr>IP = ip, Port = p\<rparr>)))"

definition NewAddressFromString :: "resolver \<Rightarrow> bytes \<Rightarrow> resolve_error + address" where
  "NewAddressFromString R s = Address_FromString R \<lparr>IP = NilAddr, Port = 0\<rparr> s"

section \<open>Bencoded addresses\<close>

datatype unmarshal_error =
    UnmarshalBencodeError bencode_error
  | UnmarshalResolve resolve_error
  | UnmarshalPanic
  | UnmarshalI2P
  | UnmarshalInvalidAddr
  | UnsupportedIface

text \<open>A missing element or one of another type panics, which becomes the error.\<close>

definition Address_decode :: "i2p_lib \<Rightarrow> address \<Rightarrow> bval list \<Rightarrow> unmarshal_error + address" where
  "Address_decode L a vs =
     (case vs of
        BStr host # rest \<Rightarrow>
          if is_i2p host then
            (case i2p_FromBytes L host of
               None \<Rightarrow> Inl UnmarshalI2P
             | Some d \<Rightarrow> Inr \<lparr>IP = I2PAddr d, Port = 6881\<rparr>)
          else (case ParseIP host of
                  None \<Rightarrow> Inl UnmarshalInvalidAddr
                | Some ip \<Rightarrow>
                    (case rest of
                       BInt p # _ \<Rightarrow> Inr \<lparr>IP = ip_or_v4 ip, Port = of_int p\<rparr>
                     | _ \<Rightarrow> Inl UnmarshalPanic))
      | _ \<Rightarrow> Inl UnmarshalPanic)"

definition Address_UnmarshalBencode ::
  "i2p_lib \<Rightarrow> resolver \<Rightarrow> address \<Rightarrow> bytes \<Rightarrow> unmarshal_error + address" where
  "Address_UnmarshalBencode L R a b =
     (case Decode False b of
        Inl e \<Rightarrow> Inl (UnmarshalBencodeError e)
      | Inr (BStr v, _) \<Rightarrow>
          (case Address_FromString R a v of Inl e \<Rightarrow> Inl (UnmarshalResolve e) | Inr x \<Rightarrow> Inr x)
      | Inr (BList vs, _) \<Rightarrow> Address_decode L a vs
      | Inr _ \<Rightarrow> Inl UnsupportedIface)"

section \<open>The text of an IP address parses back\<close>

lemma split_on_nonempty: "split_on c s \<noteq> []"
  by (induction s) (auto split: list.split)

lemma split_on_join: "\<forall>x \<in> set xs. c \<notin> set x \<Longrightarrow> xs \<noteq> [] \<Longrightarrow> split_on c (join_with [c] xs) = xs"
proof -
  have single: "split_on c x = [x]" if "c \<notin> set x" for x using that by (induction x) auto
  have app: "split_on c (x @ c # s) = x # split_on c s" if "c \<notin> set x" for x s
    using that by (induction x) auto
  show "\<forall>x \<in> set xs. c \<notin> set x \<Longrightarrow> xs \<noteq> [] \<Longrightarrow> split_on c (join_with [c] xs) = xs"
    by (induction "[c]" xs rule: join_with.induct) (auto simp: single app)
qed

lemma decimal_octet_dec: "decimal_octet (dec_nat (unat b)) = Some b"
proof -
  have "list_all (\<lambda>n. decimal_octet (dec_nat n) = Some (of_nat n)) [0..<256]"
    by code_simp
  moreover have "unat b < 256" using unsigned_less [of b, where ?'a = nat] by simp
  ultimately show ?thesis by (simp add: list_all_iff)
qed

lemma parseIPv4_String:
  assumes "length p = 4"
  shows "parseIPv4 (join_with [46] (map (\<lambda>b. dec_nat (unat b)) p)) = Some p"
proof -
  obtain a b c d where p: "p = [a, b, c, d]" using assms by (auto simp: numeral_eq_Suc length_Suc_conv)
  have "46 \<notin> set (dec_nat n)" for n using set_dec_nat [of 46 n] by auto
  then have "split_on 46 (join_with [46] (map (\<lambda>b. dec_nat (unat b)) p)) = map (\<lambda>b. dec_nat (unat b)) p"
    by (intro split_on_join) (auto simp: p)
  then show ?thesis by (simp add: parseIPv4_def p decimal_octet_dec del: join_with.simps)
qed

lemma hex_nat_chars: "c \<in> set (hex_nat n) \<Longrightarrow> fromHexChar c \<noteq> None"
proof (induction n rule: hex_nat.induct)
  case (1 n)
  then show ?case
    by (subst (asm) (2) hex_nat.simps) (auto simp: fromHexChar_hexdigit split: if_splits)
qed

lemma hex_value_snoc: "hex_value (s @ [c]) = hex_value s * 16 + the (fromHexChar c)"
  by (simp add: hex_value_def)

lemma hex_value_hex_nat: "hex_value (hex_nat n) = n"
proof (induction n rule: hex_nat.induct)
  case (1 n)
  show ?case
  proof (cases "n < 16")
    case True
    then show ?thesis by (subst hex_nat.simps) (simp add: hex_value_def fromHexChar_hexdigit)
  next
    case False
    then show ?thesis using 1 by (subst hex_nat.simps) (simp add: hex_value_snoc fromHexChar_hexdigit)
  qed
qed

lemma hex_nat_length: "n < 16 ^ k \<Longrightarrow> 0 < k \<Longrightarrow> hex_nat n \<noteq> [] \<and> length (hex_nat n) \<le> k"
proof (induction k arbitrary: n)
  case (Suc k)
  show ?case
  proof (cases "n < 16")
    case True
    then show ?thesis by (subst (1 2) hex_nat.simps) simp
  next
    case False
    then have "0 < k" "n div 16 < 16 ^ k" using Suc(2) by (cases k; simp add: less_mult_imp_div_less)+
    then show ?thesis using Suc(1) [of "n div 16"] False by (subst (1 2) hex_nat.simps) simp
  qed
qed simp

lemma hex_prefix_hex_nat: "r = [] \<or> fromHexChar (hd r) = None \<Longrightarrow> hex_prefix (hex_nat n @ r) = hex_nat n"
  using hex_nat_chars [of _ n] by (cases r) (auto simp: hex_prefix_def takeWhile_append)

text \<open>One group of the loop, at the end of the text or before a colon.\<close>

lemma ipv6_group:
  assumes "x < 65536"
  shows "ipv6_groups (Suc n) b ell (hex_nat x) = Some (b @ be_put 2 x, ell, [])"
    "d \<noteq> 58 \<Longrightarrow> ipv6_groups (Suc n) b ell (hex_nat x @ 58 # d # s) = ipv6_groups n (b @ be_put 2 x) ell (d # s)"
    "ipv6_groups (Suc n) b None (hex_nat x @ [58, 58]) = Some (b @ be_put 2 x, Some (length b + 2), [])"
    "s \<noteq> [] \<Longrightarrow> ipv6_groups (Suc n) b None (hex_nat x @ 58 # 58 # s) =
       ipv6_groups n (b @ be_put 2 x) (Some (length b + 2)) s"
proof -
  have l: "hex_nat x \<noteq> []" "length (hex_nat x) \<le> 4" using hex_nat_length [of x 4] assms by simp_all
  have c: "fromHexChar 58 = None" by (simp add: fromHexChar_def)
  note p = hex_prefix_hex_nat [of "[]" x] hex_prefix_hex_nat [of "58 # _" x]
  note v = hex_value_hex_nat [of x]
  show "ipv6_groups (Suc n) b ell (hex_nat x) = Some (b @ be_put 2 x, ell, [])"
    using l p(1) v by simp
  show "d \<noteq> 58 \<Longrightarrow> ipv6_groups (Suc n) b ell (hex_nat x @ 58 # d # s) = ipv6_groups n (b @ be_put 2 x) ell (d # s)"
    "ipv6_groups (Suc n) b None (hex_nat x @ [58, 58]) = Some (b @ be_put 2 x, Some (length b + 2), [])"
    "s \<noteq> [] \<Longrightarrow> ipv6_groups (Suc n) b None (hex_nat x @ 58 # 58 # s) =
       ipv6_groups n (b @ be_put 2 x) (Some (length b + 2)) s"
    using l p(2) v c by simp_all
qed

abbreviation group_bytes :: "nat list \<Rightarrow> bytes" where
  "group_bytes gs \<equiv> concat (map (be_put 2) gs)"

abbreviation group_text :: "nat list \<Rightarrow> bytes" where
  "group_text gs \<equiv> join_with [58] (map hex_nat gs)"

lemma group_text_head:
  assumes "gs \<noteq> []" "\<forall>x \<in> set gs. x < 65536"
  shows "\<exists>d s. group_text gs @ t = d # s \<and> d \<noteq> 58"
proof -
  obtain x gs' where gs: "gs = x # gs'" using assms by (cases gs) auto
  obtain d s where d: "hex_nat x = d # s" using hex_nat_length [of x 4] assms gs by (cases "hex_nat x") auto
  have h: "fromHexChar d \<noteq> None" using hex_nat_chars [of d x] d by simp
  then have "d \<noteq> 58" by (auto simp: fromHexChar_def)
  then show ?thesis using d gs by (cases gs') auto
qed

lemma ipv6_groups_text:
  "gs \<noteq> [] \<Longrightarrow> \<forall>x \<in> set gs. x < 65536 \<Longrightarrow> length gs \<le> n \<Longrightarrow>
   ipv6_groups n b ell (group_text gs) = Some (b @ group_bytes gs, ell, [])"
proof (induction gs arbitrary: n b)
  case (Cons x gs)
  obtain m where n: "n = Suc m" using Cons(4) by (cases n) auto
  show ?case
  proof (cases "gs = []")
    case True
    then show ?thesis using Cons n ipv6_group(1) by simp
  next
    case False
    obtain d s where d: "group_text gs = d # s" "d \<noteq> 58"
      using group_text_head [OF False, of "[]"] Cons(3) by auto
    have "group_text (x # gs) = hex_nat x @ 58 # group_text gs" using False by (cases gs) auto
    then show ?thesis using Cons False n d ipv6_group(2) [of x d m b ell s] by simp
  qed
qed simp

lemma ipv6_groups_ellipsis:
  "gs \<noteq> [] \<Longrightarrow> \<forall>x \<in> set (gs @ hs). x < 65536 \<Longrightarrow> length (gs @ hs) \<le> n \<Longrightarrow>
   ipv6_groups n b None (group_text gs @ [58, 58] @ group_text hs) =
     Some (b @ group_bytes gs @ group_bytes hs, Some (length b + 2 * length gs), [])"
proof (induction gs arbitrary: n b)
  case (Cons x gs)
  obtain m where n: "n = Suc m" using Cons(4) by (cases n) auto
  show ?case
  proof (cases "gs = []")
    case True
    show ?thesis
    proof (cases "hs = []")
      case True
      then show ?thesis using Cons \<open>gs = []\<close> n ipv6_group(3) by simp
    next
      case False
      obtain d s where "group_text hs = d # s" using group_text_head [OF False, of "[]"] Cons(3) by auto
      then have "group_text hs \<noteq> []" by simp
      then show ?thesis
        using Cons(3,4) True False n ipv6_group(4) [of x "group_text hs" m b] ipv6_groups_text [OF False, of m]
        by simp
    qed
  next
    case False
    obtain d s where d: "group_text gs @ [58, 58] @ group_text hs = d # s" "d \<noteq> 58"
      using group_text_head [OF False, of "[58, 58] @ group_text hs"] Cons(3) by auto
    have "group_text (x # gs) = hex_nat x @ 58 # group_text gs" using False by (cases gs) auto
    then show ?thesis using Cons False n d ipv6_group(2) [of x d m b None s] by simp
  qed
qed simp

lemma zero_run_replicate: "take (zero_run g i) (drop i g) = replicate (zero_run g i) 0"
proof -
  have "takeWhile (\<lambda>x. x = 0) xs = replicate (length (takeWhile (\<lambda>x. x = 0) xs)) 0" for xs :: "nat list"
    by (induction xs) auto
  then show ?thesis unfolding zero_run_def by (metis takeWhile_eq_take)
qed

lemma best_run_zeros:
  "i + k = length g \<Longrightarrow> best_run g i k best = (e, n) \<Longrightarrow>
   take (snd best) (drop (fst best) g) = replicate (snd best) 0 \<Longrightarrow> fst best + snd best \<le> length g \<Longrightarrow>
   take n (drop e g) = replicate n 0 \<and> e + n \<le> length g"
proof (induction g i k best rule: best_run.induct)
  case (2 g i k best)
  have "zero_run g i \<le> length g - i" unfolding zero_run_def using length_takeWhile_le [of _ "drop i g"] by simp
  then show ?case using 2 zero_run_replicate [of g i] by (auto simp: Let_def split: if_splits)
qed auto

lemma group_text_chars: "c \<in> set (group_text gs) \<Longrightarrow> c = 58 \<or> fromHexChar c \<noteq> None"
proof (induction gs)
  case (Cons x gs)
  then show ?case using hex_nat_chars [of c x] by (cases gs) auto
qed simp

lemma find_colon: "46 \<notin> set s \<Longrightarrow> 58 \<in> set s \<Longrightarrow> find (\<lambda>c. c = 46 \<or> c = 58) s = Some (58 :: byte)"
  by (induction s) auto

lemma find_dot: "58 \<notin> set s \<Longrightarrow> 46 \<in> set s \<Longrightarrow> find (\<lambda>c. c = 46 \<or> c = 58) s = Some (46 :: byte)"
  by (induction s) auto

lemma group_bytes_chunks: "length p mod 2 = 0 \<Longrightarrow> group_bytes (map be_get (chunks 2 p)) = p"
proof -
  have "map (\<lambda>c. be_put 2 (be_get c)) (chunks 2 p) = chunks 2 p"
    by (rule map_idI) (metis be_put_get in_chunks_length)
  then show "length p mod 2 = 0 \<Longrightarrow> ?thesis" using concat_chunks [of 2 p] by (simp add: comp_def)
qed

lemma group_bytes_zero: "group_bytes (replicate n 0) = replicate (2 * n) 0"
  by (induction n) (simp_all add: numeral_2_eq_2)

lemma length_group_bytes: "length (group_bytes gs) = 2 * length gs"
  by (induction gs) auto

lemma parseIPv6_String:
  assumes "length p = 16"
  shows "parseIPv6 (IPv6_String p) = Some p"
proof -
  define g where "g = map be_get (chunks 2 p)"
  have len: "length g = 8" using assms length_chunks [of 2 p] by (simp add: g_def)
  have g: "group_bytes g = p" unfolding g_def by (rule group_bytes_chunks) (simp add: assms)
  have "be_get c < 65536" if "c \<in> set (chunks 2 p)" for c
    using be_get_bound [of c] in_chunks_length [OF that] by simp
  then have b: "\<forall>x \<in> set g. x < 65536" by (auto simp: g_def)
  obtain e n where en: "best_run g 0 8 (0, 0) = (e, n)" by fastforce
  have z: "take n (drop e g) = replicate n 0" "e + n \<le> 8"
    using best_run_zeros [of 0 8 g "(0, 0)" e n] en len by simp_all
  show ?thesis
  proof (cases "n < 2")
    case True
    then have t: "IPv6_String p = group_text g" using en by (simp add: IPv6_String_def g_def [symmetric])
    have ne: "g \<noteq> []" using len by auto
    then obtain d s where "group_text g = d # s" "d \<noteq> 58" using group_text_head [of g "[]"] b by auto
    then show ?thesis
      using ipv6_groups_text [OF ne b, of 8 "[]" None] len g assms
      by (simp add: t parseIPv6_def del: ipv6_groups.simps)
  next
    case False
    let ?a = "take e g" and ?h = "drop (e + n) g"
    have t: "IPv6_String p = group_text ?a @ [58, 58] @ group_text ?h"
      using en False by (simp add: IPv6_String_def g_def [symmetric])
    have ab: "\<forall>x \<in> set (?a @ ?h). x < 65536" using b by (auto dest: in_set_takeD in_set_dropD)
    have l: "length (?a @ ?h) = 8 - n" "length ?a = e" using z len by auto
    have split: "g = ?a @ replicate n 0 @ ?h"
      using z(1) by (metis append_take_drop_id drop_drop add.commute)
    have p: "p = group_bytes ?a @ replicate (2 * n) 0 @ group_bytes ?h"
      using g group_bytes_zero [of n] by (subst (asm) split) simp
    have l16: "length (group_bytes ?a @ group_bytes ?h) = 16 - 2 * n"
      using l by (simp add: length_group_bytes)
    have fin: "take (2 * e) (group_bytes ?a @ group_bytes ?h) @
        replicate (16 - length (group_bytes ?a @ group_bytes ?h)) 0 @
        drop (2 * e) (group_bytes ?a @ group_bytes ?h) = p"
      unfolding l16 using p l z False by (simp add: length_group_bytes)
    show ?thesis
    proof (cases "e = 0")
      case True
      show ?thesis
      proof (cases "?h = []")
        case True
        then have "IPv6_String p = [58, 58]" using t \<open>e = 0\<close> by simp
        moreover have "p = replicate 16 0" using p \<open>e = 0\<close> True assms by (metis append.right_neutral append_Nil
          concat.simps(1) length_replicate list.simps(8) take0)
        ultimately show ?thesis by (simp add: parseIPv6_def)
      next
        case False
        then have "group_text ?h \<noteq> []" using group_text_head [OF False, of "[]"] ab by auto
        then show ?thesis
          using ipv6_groups_text [OF False, of 8 "[]" "Some 0"] ab l l16 fin True \<open>\<not> n < 2\<close>
          by (simp add: t parseIPv6_def del: ipv6_groups.simps)
      qed
    next
      case False
      then have ne: "?a \<noteq> []" using l(2) by auto
      obtain d s where d: "group_text ?a @ [58, 58] @ group_text ?h = d # s" "d \<noteq> 58"
        using group_text_head [OF ne, of "[58, 58] @ group_text ?h"] ab by auto
      have r: "ipv6_groups 8 [] None (d # s) =
          Some (group_bytes ?a @ group_bytes ?h, Some (2 * e), [])"
        using ipv6_groups_ellipsis [OF ne ab, of 8 "[]"] l d by simp
      show ?thesis using r d l16 fin \<open>\<not> n < 2\<close> by (simp add: t parseIPv6_def del: ipv6_groups.simps)
    qed
  qed
qed

lemma IPv6_String_chars:
  assumes "length p = 16"
  shows "58 \<in> set (IPv6_String p)" "c \<in> set (IPv6_String p) \<Longrightarrow> c = 58 \<or> fromHexChar c \<noteq> None"
proof -
  have "length (map be_get (chunks 2 p)) = 8" using assms length_chunks [of 2 p] by simp
  then obtain a b gs where "map be_get (chunks 2 p) = a # b # gs"
    by (auto simp: numeral_eq_Suc length_Suc_conv)
  then show "58 \<in> set (IPv6_String p)"
    by (cases "best_run (map be_get (chunks 2 p)) 0 8 (0, 0)") (auto simp: IPv6_String_def Let_def)
  show "c \<in> set (IPv6_String p) \<Longrightarrow> c = 58 \<or> fromHexChar c \<noteq> None"
    using group_text_chars [of c]
    by (cases "best_run (map be_get (chunks 2 p)) 0 8 (0, 0)")
       (auto simp: IPv6_String_def Let_def simp del: map_map split: if_splits)
qed

lemma IP_String_chars:
  assumes "length p = 4 \<or> length p = 16 \<and> IP_To4 p = []" "c \<in> set (IP_String p)"
  shows "c = 46 \<or> c = 58 \<or> fromHexChar c \<noteq> None"
proof (cases "length p = 4")
  case True
  then obtain w x y z where p: "p = [w, x, y, z]" by (auto simp: numeral_eq_Suc length_Suc_conv)
  have "c = 46 \<or> 48 \<le> c \<and> c \<le> 57"
    using assms(2) set_dec_nat by (auto simp: p IP_String_def IP_To4_def)
  then show ?thesis by (auto simp: fromHexChar_def)
next
  case False
  then have "length p = 16" "IP_String p = IPv6_String p" using assms(1) by (auto simp: IP_String_def)
  then show ?thesis using IPv6_String_chars(2) assms(2) by simp
qed

lemma length_group_text: "\<forall>x \<in> set gs. x < 65536 \<Longrightarrow> length (group_text gs) \<le> 5 * length gs"
proof (induction gs)
  case (Cons x gs)
  then show ?case using hex_nat_length [of x 4] by (cases gs) auto
qed simp

lemma length_IP_String:
  assumes "length p = 4 \<or> length p = 16 \<and> IP_To4 p = []"
  shows "length (IP_String p) \<le> 100"
proof (cases "length p = 4")
  case True
  then obtain w x y z where p: "p = [w, x, y, z]" by (auto simp: numeral_eq_Suc length_Suc_conv)
  have "length (dec_nat (unat b)) \<le> 3" for b :: byte
    using decimal_octet_dec [of b] by (auto simp: decimal_octet_def split: if_splits)
  from this [of w] this [of x] this [of y] this [of z] show ?thesis
    by (simp add: p IP_String_def IP_To4_def)
next
  case False
  define g where "g = map be_get (chunks 2 p)"
  have p: "length p = 16" "IP_String p = IPv6_String p" using assms False by (auto simp: IP_String_def)
  then have l: "length g = 8" using length_chunks [of 2 p] by (simp add: g_def)
  have "be_get c < 65536" if "c \<in> set (chunks 2 p)" for c
    using be_get_bound [of c] in_chunks_length [OF that] by simp
  then have b: "\<forall>x \<in> set g. x < 65536" by (auto simp: g_def)
  have "length (group_text (take k g)) \<le> 40" "length (group_text (drop k g)) \<le> 40" for k
  proof -
    have "\<forall>x \<in> set (take k g). x < 65536" "\<forall>x \<in> set (drop k g). x < 65536"
      using b by (auto dest: in_set_takeD in_set_dropD)
    then show "length (group_text (take k g)) \<le> 40" "length (group_text (drop k g)) \<le> 40"
      using length_group_text [of "take k g"] length_group_text [of "drop k g"] l by auto
  qed
  from this(1) [of "fst (best_run g 0 8 (0, 0))"]
    this(2) [of "fst (best_run g 0 8 (0, 0)) + snd (best_run g 0 8 (0, 0))"] this(1) [of 8]
  show ?thesis using p(2) l
    by (auto simp: IPv6_String_def g_def [symmetric] Let_def split: prod.split)
qed

lemma ParseIP_String:
  assumes "length p = 4 \<or> length p = 16 \<and> IP_To4 p = []"
  shows "ParseIP (IP_String p) = Some (IP_To16 p)"
proof -
  have no: "37 \<notin> set (IP_String p)" using IP_String_chars [OF assms, of 37] by (auto simp: fromHexChar_def)
  show ?thesis
  proof (cases "length p = 4")
    case True
    then obtain w x y z where p: "p = [w, x, y, z]" by (auto simp: numeral_eq_Suc length_Suc_conv)
    have s: "IP_String p = join_with [46] (map (\<lambda>b. dec_nat (unat b)) p)"
      using True p by (simp add: IP_String_def IP_To4_def)
    have "58 \<notin> set (IP_String p)" "46 \<in> set (IP_String p)"
      unfolding s using set_dec_nat [of 58] by (auto simp: p)
    from find_dot [OF this] show ?thesis using True parseIPv4_String [OF True] no
      by (simp add: ParseIP_def s IP_To16_def)
  next
    case False
    then have p: "length p = 16" "IP_String p = IPv6_String p" using assms by (auto simp: IP_String_def)
    have "46 \<notin> set (IPv6_String p)"
      using IPv6_String_chars(2) [OF p(1), of 46] by (auto simp: fromHexChar_def)
    from find_colon [OF this IPv6_String_chars(1) [OF p(1)]]
    show ?thesis using p parseIPv6_String [OF p(1)] no by (simp add: ParseIP_def IP_To16_def)
  qed
qed

lemma ip_or_v4_IP_To16: "length p = 4 \<or> length p = 16 \<and> IP_To4 p = [] \<Longrightarrow> ip_or_v4 (IP_To16 p) = IPAddr p"
  by (auto simp: ip_or_v4_def IP_To16_def IP_To4_def v4InV6Prefix_def)

lemma address_reads:
  assumes "length p = 4 \<or> length p = 16 \<and> IP_To4 p = []"
  shows "\<exists>b. Address_MarshalBencode L \<lparr>IP = IPAddr p, Port = port\<rparr> = Some (Inr b) \<and>
    Decode True b = Inr (BList [BStr (IP_String p), BInt (int (unat port))], []) \<and>
    Address_UnmarshalBencode L R a (b @ s) = Inr \<lparr>IP = IPAddr p, Port = port\<rparr>"
proof -
  let ?t = "IP_String p"
  have "112 \<in> set ?t" if "is_i2p ?t"
  proof -
    have "112 \<in> set (drop (length ?t - 4) ?t)" using that by (simp add: is_i2p_def ascii_def)
    then show ?thesis by (rule in_set_dropD)
  qed
  then have i: "\<not> is_i2p ?t" using IP_String_chars [OF assms, of 112] by (auto simp: fromHexChar_def)
  have "length ?t < 2 ^ 31" using length_IP_String [OF assms] by simp
  have str: "Addr_String L (IPAddr p) = Some ?t"
    using assms by (auto simp: Addr_String_def ipEmptyString_def)
  from denotes_transmits [OF pair_denotes [OF \<open>length ?t < 2 ^ 31\<close>, of port]] obtain b where
    b: "Address_MarshalBencode L \<lparr>IP = IPAddr p, Port = port\<rparr> = Some (Inr b)"
    "\<And>s. Decode True (b @ s) = Inr (BList [BStr ?t, BInt (int (unat port))], s)"
    unfolding transmits_def by (auto simp: Address_MarshalBencode_def str)
  have "Decode False (b @ s) = Inr (BList [BStr ?t, BInt (int (unat port))], s)"
    using Decode_lenient [OF b(2)] by simp
  then show ?thesis
    using b(1) b(2) [of "[]"] i ParseIP_String [OF assms] ip_or_v4_IP_To16 [OF assms]
    by (auto simp: Address_UnmarshalBencode_def Address_decode_def)
qed

section \<open>Properties\<close>

text \<open>An address with an IPv4 or an IPv6 address survives its bencoded form, the pair of the text
  of the IP and the port: the text is the canonical one with the longest run of zeros left out, and
  it is read back to the same bytes.\<close>

theorem address_bencode_roundtrip:
  assumes "length p = 4 \<or> length p = 16 \<and> IP_To4 p = []"
  shows "\<exists>b. Address_MarshalBencode L \<lparr>IP = IPAddr p, Port = port\<rparr> = Some (Inr b) \<and>
    Address_UnmarshalBencode L R a (b @ s) = Inr \<lparr>IP = IPAddr p, Port = port\<rparr>"
  using address_reads [OF assms] by blast

theorem address_bencode_roundtrip_witness:
  "\<exists>b. Address_MarshalBencode no_i2p \<lparr>IP = IPAddr (254 # 128 # replicate 13 0 @ [1]), Port = 80\<rparr> = Some (Inr b) \<and>
     Address_UnmarshalBencode no_i2p \<lparr>r_LookupIP = \<lambda>_. None, r_I2PLookup = \<lambda>_. None\<rparr> \<lparr>IP = NilAddr, Port = 0\<rparr>
       (b @ []) = Inr \<lparr>IP = IPAddr (254 # 128 # replicate 13 0 @ [1]), Port = 80\<rparr>"
  by (rule address_bencode_roundtrip) code_simp

end
