(* ===== verification/DhtServer.thy ===== *)
theory DhtServer
  imports DataStorage Resolver
begin

text \<open>
  The DHT server, \<^verbatim>\<open>dht/dht_server.go\<close>: its configuration, its state, the handlers of queries,
  responses, errors and timeouts, and the operations of its users. A handler is a function from
  the state to the state after it, with its result; \<open>None\<close> is a panic. The messages that were
  sent, the calls of callbacks and of \<^verbatim>\<open>OnSearch\<close> and \<^verbatim>\<open>OnTorrent\<close> are recorded in the state in
  their order; log lines are left out, but a panic in one of them is not.

  The environment is a parameter: the library of I2P addresses, the check of signatures, what
  \<^verbatim>\<open>WriteTo\<close> of the packet connection returns, and the time at which the event is handled. The
  interfaces of the configuration (blacklist, peer manager, interceptors, storage) are their
  defaults.
\<close>

section \<open>Configuration and state\<close>

record dht_config =
  cK :: int
  cID :: hash
  cIPProtocols :: "nat list"
  cReadOnly :: bool
  cMsgSize :: int
  cSearchDepth :: int
  cRespTimeout :: duration

definition setBasicDefaults :: "dht_config \<Rightarrow> hash \<Rightarrow> dht_config" where
  "setBasicDefaults c random =
     c\<lparr>cK := (if cK c \<le> 0 then 8 else cK c),
       cID := (if Hash_IsZero (cID c) then random else cID c),
       cMsgSize := (if cMsgSize c \<le> 0 then 4096 else cMsgSize c)\<rparr>"

definition setNetworkDefaults :: "dht_config \<Rightarrow> dht_config" where
  "setNetworkDefaults c =
     c\<lparr>cSearchDepth := (if cSearchDepth c < 1 then 8 else cSearchDepth c),
       cRespTimeout := (if cRespTimeout c = 0 then 10 * second else cRespTimeout c)\<rparr>"

text \<open>\<^verbatim>\<open>Config.set\<close>; the zero configuration when none is given.\<close>

definition zeroConfig :: dht_config where
  "zeroConfig = \<lparr>cK = 0, cID = zeroHash, cIPProtocols = [], cReadOnly = False, cMsgSize = 0,
     cSearchDepth = 0, cRespTimeout = 0\<rparr>"

definition Config_set :: "dht_config list \<Rightarrow> hash \<Rightarrow> dht_config" where
  "Config_set conf random =
     setNetworkDefaults (setBasicDefaults (case conf of [] \<Rightarrow> zeroConfig | c # _ \<Rightarrow> c) random)"

abbreviation IPv4Protocol :: nat where
  "IPv4Protocol \<equiv> 4"

abbreviation IPv6Protocol :: nat where
  "IPv6Protocol \<equiv> 6"

fun buildWantAndFlags :: "nat list \<Rightarrow> bool \<times> bool \<times> bytes list" where
  "buildWantAndFlags [] = (False, False, [])"
| "buildWantAndFlags (ip # ips) =
     (let (v4, v6, want) = buildWantAndFlags ips
      in if ip = IPv4Protocol then (True, v6, WantNodes # want)
         else if ip = IPv6Protocol then (v4, True, WantNodes6 # want)
         else (v4, v6, want))"

text \<open>From the text of the local address; a text without a port panics.\<close>

definition detectIPProtocols :: "bytes \<Rightarrow> nat list option" where
  "detectIPProtocols local =
     (case SplitHostPort local of
        None \<Rightarrow> None
      | Some (host, _) \<Rightarrow>
          let ip = (case ParseIP host of None \<Rightarrow> [] | Some p \<Rightarrow> p)
          in Some (if IpIsZero ip then [IPv4Protocol, IPv6Protocol]
                   else if IP_To4 ip \<noteq> [] then [IPv4Protocol] else [IPv6Protocol]))"

record result =
  res_Addr :: "netaddr option"
  res_Code :: int
  res_Reason :: bytes
  res_Timeout :: bool
  res_Peers :: "address list"

definition noResultR :: result where
  "noResultR = \<lparr>res_Addr = None, res_Code = 0, res_Reason = [], res_Timeout = False, res_Peers = []\<rparr>"

text \<open>What can be seen from outside: a callback is named by a number.\<close>

datatype effect =
    Sent netaddr message
  | Called nat result
  | OnSearch bytes netaddr
  | OnTorrent bytes netaddr

record server =
  s_conf :: dht_config
  s_ipv4 :: bool
  s_ipv6 :: bool
  s_want :: "bytes list"
  s_rt4 :: routing_table
  s_rt6 :: routing_table
  s_tokens :: token_manager
  s_peers :: token_peer_manager
  s_trans :: transaction_manager
  s_data :: data_store
  s_blacklist :: blacklist
  s_out :: "effect list"

datatype write_result = Wrote nat | WriteError

record dht_env =
  e_i2p :: i2p_lib
  e_verify :: verifier
  e_write :: "netaddr \<Rightarrow> bytes \<Rightarrow> write_result"
  e_now :: time

definition emit :: "effect \<Rightarrow> server \<Rightarrow> server" where
  "emit e s = s\<lparr>s_out := s_out s @ [e]\<rparr>"

text \<open>\<^verbatim>\<open>NewServer\<close>: the stored nodes of both tables come from the storage, none from the default one.\<close>

definition initializeServer ::
  "dht_env \<Rightarrow> dht_config \<Rightarrow> bytes \<Rightarrow> (node \<times> time) list option \<Rightarrow> (node \<times> time) list option \<Rightarrow>
   bool \<Rightarrow> bool \<Rightarrow> bytes list \<Rightarrow> server option" where
  "initializeServer E conf token stored4 stored6 v4 v6 want =
     do {
        rt4 \<leftarrow> newRoutingTable (e_i2p E) (cK conf) (cID conf) stored4 (e_now E);
        rt6 \<leftarrow> newRoutingTable (e_i2p E) (cK conf) (cID conf) stored6 (e_now E);
        Some \<lparr>s_conf = conf, s_ipv4 = v4, s_ipv6 = v6, s_want = want, s_rt4 = rt4, s_rt6 = rt6,
          s_tokens = newTokenManager token, s_peers = [], s_trans = newTransactionManager,
          s_data = NewDataStore, s_blacklist = NewMemoryBlacklist 1024, s_out = []\<rparr>
      }"

definition NewServer ::
  "dht_env \<Rightarrow> bytes \<Rightarrow> dht_config list \<Rightarrow> hash \<Rightarrow> bytes \<Rightarrow> (node \<times> time) list option \<Rightarrow>
   (node \<times> time) list option \<Rightarrow> server option" where
  "NewServer E local config random token stored4 stored6 =
     (let conf = Config_set config random
      in do {
        protocols \<leftarrow> (if cIPProtocols conf = [] then detectIPProtocols local else Some (cIPProtocols conf));
        let (v4, v6, want) = buildWantAndFlags protocols;
        initializeServer E (conf\<lparr>cIPProtocols := protocols\<rparr>) token stored4 stored6 v4 v6 want
      })"

definition Node4Num :: "server \<Rightarrow> nat" where
  "Node4Num s = rt_Len (s_rt4 s)"

definition Node6Num :: "server \<Rightarrow> nat" where
  "Node6Num s = rt_Len (s_rt6 s)"

section \<open>Nodes\<close>

definition Server_AddNode :: "dht_env \<Rightarrow> server \<Rightarrow> node \<Rightarrow> (add_status \<times> server) option" where
  "Server_AddNode E s n =
     (if Address_IsIPv6 (Addr n) then
        (if s_ipv6 s
         then do { (rt, r) \<leftarrow> rt_AddNode (e_i2p E) (s_rt6 s) n (e_now E); Some (r, s\<lparr>s_rt6 := rt\<rparr>) }
         else Some (NodeNotAdded, s))
      else if s_ipv4 s
      then do { (rt, r) \<leftarrow> rt_AddNode (e_i2p E) (s_rt4 s) n (e_now E); Some (r, s\<lparr>s_rt4 := rt\<rparr>) }
      else Some (NodeNotAdded, s))"

definition server_addNode ::
  "dht_env \<Rightarrow> server \<Rightarrow> netaddr \<Rightarrow> hash \<Rightarrow> bool \<Rightarrow> (add_status \<times> server) option" where
  "server_addNode E s a nid ro =
     (if ro then Some (NodeNotAdded, s)
      else do {
        n \<leftarrow> NewNodeByUDPAddr (e_i2p E) nid a;
        (r, s1) \<leftarrow> Server_AddNode E s n;
        if r = NodeExistAndChanged
        then do {
          ip \<leftarrow> utils_IPAddr (e_i2p E) a;
          port \<leftarrow> utils_Port (e_i2p E) a;
          Some (r, s1\<lparr>s_blacklist := blacklist_Add (s_blacklist s1) ip port (e_now E)\<rparr>)
        }
        else Some (r, s1)
      })"

definition server_addNode2 :: "dht_env \<Rightarrow> server \<Rightarrow> node \<Rightarrow> bool \<Rightarrow> (add_status \<times> server) option" where
  "server_addNode2 E s n ro = (if ro then Some (NodeNotAdded, s) else Server_AddNode E s n)"

definition isDisabled :: "server \<Rightarrow> netaddr \<Rightarrow> bool" where
  "isDisabled s raddr = (if IsIPv6Addr raddr then \<not> s_ipv6 s else \<not> s_ipv4 s)"

section \<open>Sending\<close>

text \<open>
  \<^verbatim>\<open>_send\<close>: an error of the encoder or an empty field panics; an error of the connection puts
  the address on the blacklist. The result is whether there was an error.
\<close>

definition server_send0 :: "dht_env \<Rightarrow> server \<Rightarrow> netaddr \<Rightarrow> message \<Rightarrow> (bool \<times> server) option" where
  "server_send0 E s raddr m =
     (if mT m = [] \<or> mY m = [] then None
      else case Message_Encode (e_i2p E) m of
             Inl _ \<Rightarrow> None
           | Inr b \<Rightarrow>
               (case e_write E raddr b of
                  WriteError \<Rightarrow> do {
                    ip \<leftarrow> utils_IPAddr (e_i2p E) raddr;
                    Some (True, s\<lparr>s_blacklist := blacklist_Add (s_blacklist s) ip 0 (e_now E)\<rparr>)
                  }
                | Wrote n \<Rightarrow> Some (n \<noteq> length b, emit (Sent raddr m) s)))"

definition server_send :: "dht_env \<Rightarrow> server \<Rightarrow> netaddr \<Rightarrow> message \<Rightarrow> (bool \<times> server) option" where
  "server_send E s raddr m = server_send0 E s raddr (m\<lparr>mRO := cReadOnly (s_conf s)\<rparr>)"

text \<open>The log line for an error calls \<^verbatim>\<open>String\<close> on the address.\<close>

definition log_addr :: "dht_env \<Rightarrow> netaddr \<Rightarrow> bool \<Rightarrow> server \<Rightarrow> server option" where
  "log_addr E a err s = (if err then map_option (\<lambda>_. s) (Addr_String (e_i2p E) a) else Some s)"

definition sendError :: "dht_env \<Rightarrow> server \<Rightarrow> netaddr \<Rightarrow> bytes \<Rightarrow> bytes \<Rightarrow> int \<Rightarrow> server option" where
  "sendError E s raddr tid reason code =
     do { (err, s1) \<leftarrow> server_send E s raddr (NewErrorMsg tid code reason); log_addr E raddr err s1 }"

definition reply :: "dht_env \<Rightarrow> server \<Rightarrow> netaddr \<Rightarrow> bytes \<Rightarrow> response_result \<Rightarrow> server option" where
  "reply E s raddr tid r =
     do {
       (err, s1) \<leftarrow> server_send E s raddr (NewResponseMsg tid (r\<lparr>rID := cID (s_conf s)\<rparr>));
       log_addr E raddr err s1
     }"

datatype request_error = UnsupportedIPProtocol | SendError

definition newTransaction ::
  "dht_env \<Rightarrow> netaddr \<Rightarrow> bytes \<Rightarrow> query_arg \<Rightarrow> nat option \<Rightarrow> transaction" where
  "newTransaction E a q qa cb =
     \<lparr>tr_ID = [], tr_Query = q, tr_Arg = qa, tr_Addr = a, tr_Time = e_now E, tr_Depth = 0, tr_Visited = [],
      tr_Callback = cb, tr_OnResponse = noopResponse\<rparr>"

text \<open>The transaction is remembered after the message was sent. A response that arrives between the two is not
  described: handling a packet and sending a query exclude each other here.\<close>

definition request :: "dht_env \<Rightarrow> server \<Rightarrow> transaction \<Rightarrow> (request_error option \<times> server) option" where
  "request E s t =
     (if isDisabled s (tr_Addr t) then Some (Some UnsupportedIPProtocol, s)
      else
        let t1 = t\<lparr>tr_Arg := (tr_Arg t)\<lparr>aID := cID (s_conf s)\<rparr>\<rparr>;
            (tid, tm) = (if tr_ID t = [] then GetTransactionID (s_trans s) else (tr_ID t, s_trans s));
            t2 = t1\<lparr>tr_ID := tid\<rparr>; s1 = s\<lparr>s_trans := tm\<rparr>
        in do {
          (err, s2) \<leftarrow> server_send E s1 (tr_Addr t2) (NewQueryMsg (tr_ID t2) (tr_Query t2) (tr_Arg t2));
          if err
          then do { s3 \<leftarrow> log_addr E (tr_Addr t2) True s2; Some (Some SendError, s3) }
          else do {
            tm' \<leftarrow> AddTransaction (e_i2p E) (s_trans s2) t2;
            Some (None, s2\<lparr>s_trans := tm'\<rparr>)
          }
        })"

section \<open>Queries\<close>

definition populateNodesBasedOnAddress ::
  "server \<Rightarrow> netaddr \<Rightarrow> hash \<Rightarrow> response_result \<Rightarrow> response_result" where
  "populateNodesBasedOnAddress s raddr infoHash r =
     (if IsIPv6Addr raddr then r\<lparr>rNodes6 := rt_Closest (s_rt6 s) infoHash (cK (s_conf s))\<rparr>
      else r\<lparr>rNodes := rt_Closest (s_rt4 s) infoHash (cK (s_conf s))\<rparr>)"

definition populateRequestedNodes ::
  "server \<Rightarrow> bool \<Rightarrow> bool \<Rightarrow> hash \<Rightarrow> response_result \<Rightarrow> response_result" where
  "populateRequestedNodes s n4 n6 infoHash r =
     (let r1 = (if n4 then r\<lparr>rNodes := rt_Closest (s_rt4 s) infoHash (cK (s_conf s))\<rparr> else r)
      in if n6 then r1\<lparr>rNodes6 := rt_Closest (s_rt6 s) infoHash (cK (s_conf s))\<rparr> else r1)"

definition populateNodes ::
  "server \<Rightarrow> netaddr \<Rightarrow> query_arg \<Rightarrow> hash \<Rightarrow> response_result \<Rightarrow> response_result" where
  "populateNodes s raddr a h r =
     (let n4 = ContainsWant a WantNodes; n6 = ContainsWant a WantNodes6
      in if \<not> n4 \<and> \<not> n6 then populateNodesBasedOnAddress s raddr h r
         else populateRequestedNodes s n4 n6 h r)"

definition populatePeersResponse ::
  "server \<Rightarrow> bool \<Rightarrow> bool \<Rightarrow> netaddr \<Rightarrow> hash \<Rightarrow> response_result \<Rightarrow> response_result option" where
  "populatePeersResponse s n4 n6 raddr infoHash r =
     (let get = tokenPeerManager_GetPeers (s_peers s) infoHash (cK (s_conf s))
      in if \<not> n4 \<and> \<not> n6 then do { vs \<leftarrow> get (IsIPv6Addr raddr); Some (r\<lparr>rValues := vs\<rparr>) }
         else do {
           r1 \<leftarrow> (if n4 then do { vs \<leftarrow> get False; Some (r\<lparr>rValues := vs\<rparr>) } else Some r);
           if n6
           then do { vs \<leftarrow> get True;
                     Some (if rValues r1 = [] then r1\<lparr>rValues := vs\<rparr> else r1\<lparr>rValues := rValues r1 @ vs\<rparr>) }
           else Some r1
         })"

definition handleFindNodeQuery :: "dht_env \<Rightarrow> server \<Rightarrow> netaddr \<Rightarrow> message \<Rightarrow> server option" where
  "handleFindNodeQuery E s raddr m =
     reply E s raddr (mT m) (populateNodes s raddr (mA m) (aInfoHash (mA m)) noResult)"

definition handleGetPeersQuery :: "dht_env \<Rightarrow> server \<Rightarrow> netaddr \<Rightarrow> message \<Rightarrow> server option" where
  "handleGetPeersQuery E s raddr m =
     (let h = aInfoHash (mA m)
      in do {
        r \<leftarrow> populatePeersResponse s (ContainsWant (mA m) WantNodes) (ContainsWant (mA m) WantNodes6) raddr h noResult;
        let r1 = (if rValues r = [] then populateNodes s raddr (mA m) h r else r);
        a \<leftarrow> Addr_String (e_i2p E) raddr;
        let (token, tm) = tokenManager_Token (s_tokens s) a (e_now E);
        s1 \<leftarrow> reply E (s\<lparr>s_tokens := tm\<rparr>) raddr (mT m) (r1\<lparr>rToken := token\<rparr>);
        Some (emit (OnSearch (Hash_HexString h) raddr) s1)
      })"

text \<open>The address is only asked for its text when the token is one of the two.\<close>

definition token_known :: "dht_env \<Rightarrow> server \<Rightarrow> netaddr \<Rightarrow> bytes \<Rightarrow> bool option" where
  "token_known E s raddr token =
     (if tm_last (s_tokens s) = token \<or> tm_new (s_tokens s) = token
      then map_option (\<lambda>a. tokenManager_Check (s_tokens s) a token) (Addr_String (e_i2p E) raddr)
      else Some False)"

definition handleAnnouncePeerQuery :: "dht_env \<Rightarrow> server \<Rightarrow> netaddr \<Rightarrow> message \<Rightarrow> server option" where
  "handleAnnouncePeerQuery E s raddr m =
     do {
       ok \<leftarrow> token_known E s raddr (aToken (mA m));
       if ok then Some s
       else do {
         s1 \<leftarrow> reply E s raddr (mT m) noResult;
         Some (emit (OnTorrent (Hash_HexString (aInfoHash (mA m))) raddr) s1)
       }
     }"

definition handleSampleInfoHashQuery :: "dht_env \<Rightarrow> server \<Rightarrow> netaddr \<Rightarrow> message \<Rightarrow> server option" where
  "handleSampleInfoHashQuery E s raddr m =
     do {
       (samples, num) \<leftarrow> GetSampleInfoHashes (s_peers s) (aTarget (mA m)) (cK (s_conf s));
       let r = noResult\<lparr>rSamples := samples, rNum := int num, rInterval := 300\<rparr>;
       reply E s raddr (mT m) (populateNodes s raddr (mA m) (aTarget (mA m)) r)
     }"

definition put_item :: "query_arg \<Rightarrow> storage_item" where
  "put_item a = \<lparr>si_Value = aV a, si_IsMutable = aK a \<noteq> [], si_PublicKey = aK a, si_Signature = aSig a,
     si_Seq = aSeq a, si_Salt = aSalt a, si_CAS = aCAS a, si_StoredAt = 0, si_Target = zeroHash\<rparr>"

text \<open>The code of the error reply, by comparing texts as the code does.\<close>

definition put_error_code :: "bytes \<Rightarrow> int" where
  "put_error_code err =
     (if err = ascii ''invalid signature'' then 206
      else if err = ascii ''CAS mismatch: '' @ err then 301
      else if err = ascii ''sequence number must be greater than current: '' @ err then 302
      else 202)"

definition handlePutQuery :: "dht_env \<Rightarrow> server \<Rightarrow> netaddr \<Rightarrow> message \<Rightarrow> server option" where
  "handlePutQuery E s raddr m =
     (if MaxValueSize < length (aV (mA m)) then sendError E s raddr (mT m) (ascii ''value too large'') 205
      else if MaxSaltSize < length (aSalt (mA m)) then sendError E s raddr (mT m) (ascii ''salt too large'') 207
      else case DataStore_Put (e_verify E) (s_data s) (put_item (mA m)) (e_now E) of
             Inl e \<Rightarrow> sendError E s raddr (mT m) (store_error_Error e) (put_error_code (store_error_Error e))
           | Inr ds \<Rightarrow> reply E (s\<lparr>s_data := ds\<rparr>) raddr (mT m) noResult)"

definition item_result :: "storage_item option \<Rightarrow> response_result" where
  "item_result item =
     (case item of
        None \<Rightarrow> noResult
      | Some i \<Rightarrow>
          if si_IsMutable i
          then noResult\<lparr>rV := si_Value i, rK := si_PublicKey i, rSig := si_Signature i, rSeq := si_Seq i\<rparr>
          else noResult\<lparr>rV := si_Value i\<rparr>)"

definition handleGetQuery :: "dht_env \<Rightarrow> server \<Rightarrow> netaddr \<Rightarrow> message \<Rightarrow> server option" where
  "handleGetQuery E s raddr m =
     reply E s raddr (mT m) (populateNodes s raddr (mA m) (aTarget (mA m))
       (item_result (DataStore_Get (s_data s) (aTarget (mA m)) (e_now E))))"

definition handleQuery :: "dht_env \<Rightarrow> server \<Rightarrow> netaddr \<Rightarrow> message \<Rightarrow> server option" where
  "handleQuery E s raddr m =
     (if mQ m = ascii ''ping'' then reply E s raddr (mT m) noResult
      else if mQ m = ascii ''find_node'' then handleFindNodeQuery E s raddr m
      else if mQ m = ascii ''get_peers'' then handleGetPeersQuery E s raddr m
      else if mQ m = ascii ''announce_peer'' then handleAnnouncePeerQuery E s raddr m
      else if mQ m = ascii ''sample_infohashes'' then handleSampleInfoHashQuery E s raddr m
      else if mQ m = ascii ''put'' then handlePutQuery E s raddr m
      else if mQ m = ascii ''get'' then handleGetQuery E s raddr m
      else sendError E s raddr (mT m) (ascii ''unknown query method'') 204)"

section \<open>Requests of users\<close>

definition Done :: "transaction \<Rightarrow> result \<Rightarrow> server \<Rightarrow> server" where
  "Done t r s =
     (case tr_Callback t of None \<Rightarrow> s | Some cb \<Rightarrow> emit (Called cb (r\<lparr>res_Addr := Some (tr_Addr t)\<rparr>)) s)"

definition Ping :: "dht_env \<Rightarrow> server \<Rightarrow> netaddr \<Rightarrow> nat option \<Rightarrow> (request_error option \<times> server) option" where
  "Ping E s addr cb =
     request E s ((newTransaction E addr (ascii ''ping'') noArg cb)\<lparr>tr_OnResponse := onPingResp\<rparr>)"

text \<open>The error of the request only goes to the log, which asks for the text of the address.\<close>

definition getPeers ::
  "dht_env \<Rightarrow> server \<Rightarrow> hash \<Rightarrow> address \<Rightarrow> int \<Rightarrow> hash list \<Rightarrow> nat option \<Rightarrow> server option" where
  "getPeers E s info addr depth ids cb =
     (let arg = noArg\<lparr>aInfoHash := info, aWants := s_want s\<rparr>;
          t = newTransaction E (Address_Addr addr) (ascii ''get_peers'') arg cb
      in do {
        (err, s1) \<leftarrow> request E s (t\<lparr>tr_OnResponse := onGetPeersResp, tr_Depth := depth, tr_Visited := ids\<rparr>);
        if err = None then Some s1
        else map_option (\<lambda>_. s1) (Address_String (e_i2p E) addr)
      })"

fun getPeers_all ::
  "dht_env \<Rightarrow> server \<Rightarrow> hash \<Rightarrow> node list \<Rightarrow> int \<Rightarrow> hash list \<Rightarrow> nat option \<Rightarrow> server option" where
  "getPeers_all E s info [] depth ids cb = Some s"
| "getPeers_all E s info (n # ns) depth ids cb =
     do { s1 \<leftarrow> getPeers E s info (Addr n) depth ids cb; getPeers_all E s1 info ns depth ids cb }"

definition collectClosestNodes :: "server \<Rightarrow> hash \<Rightarrow> node list" where
  "collectClosestNodes s infohash =
     (if s_ipv4 s then rt_Closest (s_rt4 s) infohash (cK (s_conf s)) else []) @
     (if s_ipv6 s then rt_Closest (s_rt6 s) infohash (cK (s_conf s)) else [])"

text \<open>A zero info hash panics; without nodes the callback is called at once.\<close>

definition GetPeers :: "dht_env \<Rightarrow> server \<Rightarrow> hash \<Rightarrow> nat option \<Rightarrow> server option" where
  "GetPeers E s infohash cb =
     (if Hash_IsZero infohash then None
      else let nodes = collectClosestNodes s infohash
           in if nodes = []
              then Some (case cb of None \<Rightarrow> s | Some c \<Rightarrow> emit (Called c noResultR) s)
              else getPeers_all E s infohash nodes (cSearchDepth (s_conf s)) (map ID nodes) cb)"

fun announce_all ::
  "dht_env \<Rightarrow> server \<Rightarrow> hash \<Rightarrow> u16 \<Rightarrow> bool \<Rightarrow> node list \<Rightarrow> (node list \<times> server) option" where
  "announce_all E s infohash port impliedPort [] = Some ([], s)"
| "announce_all E s infohash port impliedPort (n # ns) =
     do {
       token \<leftarrow> tokenPeerManager_Get (e_i2p E) (s_peers s) infohash (Address_Addr (Addr n));
       if token = [] then announce_all E s infohash port impliedPort ns
       else do {
         let arg = noArg\<lparr>aImpliedPort := impliedPort, aInfoHash := infohash, aPort := port, aToken := token\<rparr>;
         (err, s1) \<leftarrow> request E s (newTransaction E (Address_Addr (Addr n)) (ascii ''announce_peer'') arg None);
         s2 \<leftarrow> log_addr E (Address_Addr (Addr n)) (err \<noteq> None) s1;
         (sent, s3) \<leftarrow> announce_all E s2 infohash port impliedPort ns;
         Some (if err = None then n # sent else sent, s3)
       }
     }"

definition AnnouncePeer ::
  "dht_env \<Rightarrow> server \<Rightarrow> hash \<Rightarrow> u16 \<Rightarrow> bool \<Rightarrow> (node list \<times> server) option" where
  "AnnouncePeer E s infohash port impliedPort =
     (if Hash_IsZero infohash then None
      else announce_all E s infohash port impliedPort (collectClosestNodes s infohash))"

text \<open>The depth that \<^verbatim>\<open>findNode\<close> is given is not stored in the transaction.\<close>

definition findNode ::
  "dht_env \<Rightarrow> server \<Rightarrow> hash \<Rightarrow> netaddr \<Rightarrow> int \<Rightarrow> hash list \<Rightarrow> (request_error option \<times> server) option" where
  "findNode E s target addr depth ids =
     (let arg = noArg\<lparr>aTarget := target, aWants := s_want s\<rparr>;
          t = newTransaction E addr (ascii ''find_node'') arg None
      in request E s (t\<lparr>tr_OnResponse := onFindNodeResp, tr_Visited := ids\<rparr>))"

datatype find_error = TargetIsZero | FindRequestError request_error

definition FindNode ::
  "dht_env \<Rightarrow> server \<Rightarrow> netaddr \<Rightarrow> hash \<Rightarrow> (find_error option \<times> server) option" where
  "FindNode E s addr target =
     (if Hash_IsZero target then Some (Some TargetIsZero, s)
      else do {
        (err, s1) \<leftarrow> findNode E s target addr (cSearchDepth (s_conf s)) [];
        Some (map_option FindRequestError err, s1)
      })"

text \<open>
  \<^verbatim>\<open>Bootstrap\<close>: names that do not resolve are logged and skipped, as are errors of the query.
\<close>

fun bootstrap_addrs :: "dht_env \<Rightarrow> server \<Rightarrow> address list \<Rightarrow> server option" where
  "bootstrap_addrs E s [] = Some s"
| "bootstrap_addrs E s (a # as) =
     do {
       (err, s1) \<leftarrow> FindNode E s (Address_Addr a) (cID (s_conf s));
       s2 \<leftarrow> (if err = None then Some s1 else map_option (\<lambda>_. s1) (Address_String (e_i2p E) a));
       bootstrap_addrs E s2 as
     }"

fun bootstrap_names :: "dht_env \<Rightarrow> resolver \<Rightarrow> server \<Rightarrow> bytes list \<Rightarrow> server option" where
  "bootstrap_names E R s [] = Some s"
| "bootstrap_names E R s (addr # addrs) =
     (case NewAddressesFromString R addr of
        Inl _ \<Rightarrow> bootstrap_names E R s addrs
      | Inr as \<Rightarrow> do { s1 \<leftarrow> bootstrap_addrs E s as; bootstrap_names E R s1 addrs })"

definition Bootstrap :: "dht_env \<Rightarrow> resolver \<Rightarrow> server \<Rightarrow> bytes list \<Rightarrow> server option" where
  "Bootstrap E R s addrs =
     (if s_ipv4 s \<and> rt_Len (s_rt4 s) = 0 \<or> s_ipv6 s \<and> rt_Len (s_rt6 s) = 0
      then bootstrap_names E R s addrs else Some s)"

section \<open>Responses\<close>

text \<open>
  The loop over the nodes of a response: whether the target was among them, the nodes that were
  new, and the state. \<open>ids\<close> is the list that was visited before the loop; it is not extended
  while the loop runs.
\<close>

fun processNodeList ::
  "dht_env \<Rightarrow> server \<Rightarrow> node list \<Rightarrow> hash \<Rightarrow> hash list \<Rightarrow> bool \<Rightarrow> (bool \<times> node list \<times> server) option" where
  "processNodeList E s [] target ids readOnly = Some (False, [], s)"
| "processNodeList E s (n # ns) target ids readOnly =
     (if Hashes_Contains ids (ID n)
      then do {
        (found, new, s1) \<leftarrow> processNodeList E s ns target ids readOnly;
        Some (ID n = target \<or> found, new, s1)
      }
      else do {
        (r, s1) \<leftarrow> server_addNode2 E s n readOnly;
        (found, new, s2) \<leftarrow> processNodeList E s1 ns target ids readOnly;
        Some (ID n = target \<or> found, (if r = NodeAdded then n # new else new), s2)
      })"

text \<open>
  The IPv6 nodes are only looked at when the target was not among the IPv4 nodes. The second
  loop is given the list that the first one has extended. Lists are values here: that slices which grew from the
  same one may share their memory in Go is not described.
\<close>

definition process_both ::
  "dht_env \<Rightarrow> server \<Rightarrow> transaction \<Rightarrow> hash \<Rightarrow> message \<Rightarrow> (bool \<times> node list \<times> hash list \<times> server) option" where
  "process_both E s t target m =
     do {
       let ids = tr_Visited t;
       (found, new, s1) \<leftarrow> processNodeList E s (rNodes (mR m)) target ids (mRO m);
       let ids1 = ids @ map ID new;
       if found then Some (True, new, ids1, s1)
       else do {
         (found', new', s2) \<leftarrow> processNodeList E s1 (rNodes6 (mR m)) target ids1 (mRO m);
         Some (found', new @ new', ids1 @ map ID new', s2)
       }
     }"

definition processResponseNodes ::
  "dht_env \<Rightarrow> server \<Rightarrow> transaction \<Rightarrow> message \<Rightarrow> (bool \<times> node list \<times> hash list \<times> server) option" where
  "processResponseNodes E s t m = process_both E s t (aInfoHash (tr_Arg t)) m"

definition processFoundNodes ::
  "dht_env \<Rightarrow> server \<Rightarrow> transaction \<Rightarrow> message \<Rightarrow> (bool \<times> node list \<times> hash list \<times> server) option" where
  "processFoundNodes E s t m = process_both E s t (aTarget (tr_Arg t)) m"

definition storeTokenIfPresent :: "dht_env \<Rightarrow> server \<Rightarrow> message \<Rightarrow> netaddr \<Rightarrow> server option" where
  "storeTokenIfPresent E s m a =
     (if rToken (mR m) \<noteq> []
      then do {
        peers \<leftarrow> tokenPeerManager_Set (e_i2p E) (s_peers s) (rID (mR m)) a (rToken (mR m)) (e_now E);
        Some (s\<lparr>s_peers := peers\<rparr>)
      }
      else Some s)"

definition handlePeersIfFound :: "server \<Rightarrow> transaction \<Rightarrow> message \<Rightarrow> bool \<times> server" where
  "handlePeersIfFound s t m =
     (if rValues (mR m) \<noteq> []
      then (True, fold (\<lambda>addr. emit (OnTorrent (Hash_HexString (aInfoHash (tr_Arg t))) (IP addr)))
                    (rValues (mR m)) (Done t (noResultR\<lparr>res_Peers := rValues (mR m)\<rparr>) s))
      else (False, s))"

definition onGetPeersResponse :: "dht_env \<Rightarrow> server \<Rightarrow> transaction \<Rightarrow> netaddr \<Rightarrow> message \<Rightarrow> server option" where
  "onGetPeersResponse E s t a m =
     do {
       s1 \<leftarrow> storeTokenIfPresent E s m a;
       let (handled, s2) = handlePeersIfFound s1 t m;
       if handled then Some s2
       else do {
         let s3 = Done t noResultR s2;
         let t1 = t\<lparr>tr_Depth := tr_Depth t - 1\<rparr>;
         if tr_Depth t1 < 1 then Some s3
         else do {
           (found, nodes, ids, s4) \<leftarrow> processResponseNodes E s3 t1 m;
           if found \<or> nodes = [] then Some s4
           else getPeers_all E s4 (aInfoHash (tr_Arg t1)) nodes (tr_Depth t1) ids (tr_Callback t1)
         }
       }
     }"

fun sendFindNodeQueries ::
  "dht_env \<Rightarrow> server \<Rightarrow> transaction \<Rightarrow> node list \<Rightarrow> hash list \<Rightarrow> server option" where
  "sendFindNodeQueries E s t [] ids = Some s"
| "sendFindNodeQueries E s t (n # ns) ids =
     do {
       (err, s1) \<leftarrow> findNode E s (aTarget (tr_Arg t)) (Address_Addr (Addr n)) (tr_Depth t) ids;
       s2 \<leftarrow> (if err = None then Some s1 else map_option (\<lambda>_. s1) (Address_String (e_i2p E) (Addr n)));
       sendFindNodeQueries E s2 t ns ids
     }"

definition onFindNodeResponse :: "dht_env \<Rightarrow> server \<Rightarrow> transaction \<Rightarrow> netaddr \<Rightarrow> message \<Rightarrow> server option" where
  "onFindNodeResponse E s t a m =
     (let t1 = t\<lparr>tr_Depth := tr_Depth t - 1\<rparr>
      in if tr_Depth t1 < 1 then Some s
         else do {
           (found, nodes, ids, s1) \<leftarrow> processFoundNodes E s t1 m;
           if found \<or> nodes = [] then Some s1 else sendFindNodeQueries E s1 t1 nodes ids
         })"

definition OnResponse :: "dht_env \<Rightarrow> server \<Rightarrow> transaction \<Rightarrow> netaddr \<Rightarrow> message \<Rightarrow> server option" where
  "OnResponse E s t a m =
     (case tr_OnResponse t of
        noopResponse \<Rightarrow> Some s
      | onPingResp \<Rightarrow> Some (Done t noResultR s)
      | onFindNodeResp \<Rightarrow> onFindNodeResponse E s t a m
      | onGetPeersResp \<Rightarrow> onGetPeersResponse E s t a m)"

definition onError :: "dht_env \<Rightarrow> server \<Rightarrow> transaction \<Rightarrow> int \<Rightarrow> bytes \<Rightarrow> server option" where
  "onError E s t code reason =
     do {
       s1 \<leftarrow> log_addr E (tr_Addr t) True s;
       Some (Done t (noResultR\<lparr>res_Code := code, res_Reason := reason\<rparr>) s1)
     }"

definition onTimeout :: "dht_env \<Rightarrow> server \<Rightarrow> transaction \<Rightarrow> server option" where
  "onTimeout E s t = log_addr E (tr_Addr t) True (Done t (noResultR\<lparr>res_Timeout := True\<rparr>) s)"

section \<open>Messages\<close>

definition processTransaction :: "dht_env \<Rightarrow> server \<Rightarrow> netaddr \<Rightarrow> message \<Rightarrow> server option" where
  "processTransaction E s raddr m =
     do {
       (t, tm) \<leftarrow> PopTransaction (e_i2p E) (s_trans s) (mT m) raddr;
       case t of
         None \<Rightarrow> Some (s\<lparr>s_trans := tm\<rparr>)
       | Some t \<Rightarrow> OnResponse E (s\<lparr>s_trans := tm\<rparr>) t raddr m
     }"

definition handleQueryMessage :: "dht_env \<Rightarrow> server \<Rightarrow> netaddr \<Rightarrow> message \<Rightarrow> server option" where
  "handleQueryMessage E s raddr m =
     (if \<not> Hash_IsZero (aID (mA m))
      then do {
        (r, s1) \<leftarrow> server_addNode E s raddr (aID (mA m)) (mRO m);
        if r \<noteq> NodeExistAndChanged \<and> \<not> cReadOnly (s_conf s1) then handleQuery E s1 raddr m else Some s1
      }
      else Some s)"

definition handleResponseMessage :: "dht_env \<Rightarrow> server \<Rightarrow> netaddr \<Rightarrow> message \<Rightarrow> server option" where
  "handleResponseMessage E s raddr m =
     (if \<not> Hash_IsZero (rID (mR m))
      then do {
        (r, s1) \<leftarrow> server_addNode E s raddr (rID (mR m)) (mRO m);
        if r = NodeExistAndChanged then Some s1 else processTransaction E s1 raddr m
      }
      else Some s)"

definition handleErrorMessage :: "dht_env \<Rightarrow> server \<Rightarrow> netaddr \<Rightarrow> message \<Rightarrow> server option" where
  "handleErrorMessage E s raddr m =
     do {
       (t, tm) \<leftarrow> PopTransaction (e_i2p E) (s_trans s) (mT m) raddr;
       case t of
         None \<Rightarrow> Some (s\<lparr>s_trans := tm\<rparr>)
       | Some t \<Rightarrow> onError E (s\<lparr>s_trans := tm\<rparr>) t (Code (mE m)) (Reason (mE m))
     }"

definition handleMessage :: "dht_env \<Rightarrow> server \<Rightarrow> netaddr \<Rightarrow> message \<Rightarrow> server option" where
  "handleMessage E s raddr m =
     (if mY m = ascii ''q'' then handleQueryMessage E s raddr m
      else if mY m = ascii ''r'' then handleResponseMessage E s raddr m
      else if mY m = ascii ''e'' then handleErrorMessage E s raddr m
      else Some s)"

section \<open>The periodic tasks\<close>

fun ping_all :: "dht_env \<Rightarrow> server \<Rightarrow> netaddr list \<Rightarrow> server option" where
  "ping_all E s [] = Some s"
| "ping_all E s (a # as) = do { (_, s1) \<leftarrow> Ping E s a None; ping_all E s1 as }"

text \<open>The check of a routing table with the queries it sends. The queries are sent after the removals here
  and among them in the code; they neither read nor change the routing table. \<^verbatim>\<open>checkAllBuckets\<close>
  recovers from a panic of a query, which is \<open>None\<close> here, so that no statement relies on the recovery.\<close>

definition check_table4 :: "dht_env \<Rightarrow> server \<Rightarrow> server option" where
  "check_table4 E s =
     (let (rt, pings) = rt_checkAllBuckets (s_rt4 s) (e_now E) in ping_all E (s\<lparr>s_rt4 := rt\<rparr>) pings)"

definition check_table6 :: "dht_env \<Rightarrow> server \<Rightarrow> server option" where
  "check_table6 E s =
     (let (rt, pings) = rt_checkAllBuckets (s_rt6 s) (e_now E) in ping_all E (s\<lparr>s_rt6 := rt\<rparr>) pings)"

fun timeout_all :: "dht_env \<Rightarrow> server \<Rightarrow> transaction list \<Rightarrow> server option" where
  "timeout_all E s [] = Some s"
| "timeout_all E s (t # ts) = do { s1 \<leftarrow> onTimeout E s t; timeout_all E s1 ts }"

definition transaction_tick :: "dht_env \<Rightarrow> server \<Rightarrow> server option" where
  "transaction_tick E s =
     (let (tm, expired) = cleanupExpiredTransactions (s_trans s) (e_now E) (cRespTimeout (s_conf s))
      in timeout_all E (s\<lparr>s_trans := tm\<rparr>) expired)"

end
