(* ===== verification/DhtServer_Inv.thy ===== *)
theory DhtServer_Inv
  imports DhtServer
begin

text \<open>
  What the operations of the DHT server keep: an invariant that joins those of its components,
  shown for every handler, every periodic task and every call of a user.
\<close>

section \<open>What one step can change\<close>

text \<open>Sending changes the output or, when the connection fails, the blacklist.\<close>

lemma send_cases:
  assumes "server_send E s a m = Some (err, s')"
  obtains (sent) "s' = emit (Sent a (m\<lparr>mRO := cReadOnly (s_conf s)\<rparr>)) s"
  | (failed) ip where "err" "s' = s\<lparr>s_blacklist := blacklist_Add (s_blacklist s) ip 0 (e_now E)\<rparr>"
  using assms
  by (auto simp: server_send_def server_send0_def bind_eq_Some_conv split: if_splits sum.splits write_result.splits)

lemma log_addr_SomeD: "log_addr E a err s = Some s' \<Longrightarrow> s' = s"
  by (auto simp: log_addr_def split: if_splits)

definition server_ok :: "verifier \<Rightarrow> server \<Rightarrow> bool" where
  "server_ok v s \<longleftrightarrow> placed (s_rt4 s) \<and> placed (s_rt6 s) \<and>
     (\<forall>n \<in> set (rt_nodes (s_rt4 s)). \<not> Address_IsIPv6 (Addr n) \<and> IP (Addr n) \<noteq> NilAddr) \<and>
     (\<forall>n \<in> set (rt_nodes (s_rt6 s)). Address_IsIPv6 (Addr n)) \<and>
     wf_map (tm_addrs (s_tokens s)) \<and> wf_peers (s_peers s) \<and> wf_map (tx_trans (s_trans s)) \<and>
     valid_store v (s_data s) \<and> blacklist_ok 1024 (s_blacklist s) \<and> wf_hash (cID (s_conf s))"

named_theorems server_ok_intros \<open>operations that keep the invariant of the server\<close>

lemma ok_emit [server_ok_intros]: "server_ok v s \<Longrightarrow> server_ok v (emit e s)"
  by (simp add: server_ok_def emit_def)

lemma ok_blacklist [server_ok_intros]:
  "server_ok v s \<Longrightarrow> server_ok v (s\<lparr>s_blacklist := blacklist_Add (s_blacklist s) ip port now\<rparr>)"
  using bounded.inv_step [OF _ bl_add, of 1024 "s_blacklist s"] by (simp add: server_ok_def)

lemma ok_trans [server_ok_intros]:
  "server_ok v s \<Longrightarrow> wf_map (tx_trans tm) \<Longrightarrow> server_ok v (s\<lparr>s_trans := tm\<rparr>)"
  by (simp add: server_ok_def)

lemma ok_send:
  assumes "server_send E s a m = Some (err, s')" "server_ok v s"
  shows "server_ok v s'"
  using assms(1) by (cases rule: send_cases) (auto intro: server_ok_intros assms(2))

lemma ok_sendError: "sendError E s a tid reason code = Some s' \<Longrightarrow> server_ok v s \<Longrightarrow> server_ok v s'"
  by (auto simp: sendError_def bind_eq_Some_conv dest!: log_addr_SomeD intro: ok_send)

lemma ok_reply: "reply E s a tid r = Some s' \<Longrightarrow> server_ok v s \<Longrightarrow> server_ok v s'"
  by (auto simp: reply_def bind_eq_Some_conv dest!: log_addr_SomeD intro: ok_send)

lemma ok_wf_trans: "server_ok v s \<Longrightarrow> wf_map (tx_trans (s_trans s))"
  by (simp add: server_ok_def)

lemma wf_AddTransaction: "AddTransaction L tm t = Some tm' \<Longrightarrow> wf_map (tx_trans tm) \<Longrightarrow> wf_map (tx_trans tm')"
  by (auto simp: AddTransaction_def split: option.splits)

lemma wf_PopTransaction: "PopTransaction L tm tid a = Some (t, tm') \<Longrightarrow> wf_map (tx_trans tm) \<Longrightarrow> wf_map (tx_trans tm')"
  by (auto simp: PopTransaction_def split: option.splits)

lemma request_cases:
  assumes "request E s t = Some (err, s')"
  obtains (disabled) "err = Some UnsupportedIPProtocol" "s' = s"
  | (failed) tid tm t' where "err = Some SendError"
      "(if tr_ID t = [] then GetTransactionID (s_trans s) else (tr_ID t, s_trans s)) = (tid, tm)"
      "t' = t\<lparr>tr_Arg := (tr_Arg t)\<lparr>aID := cID (s_conf s)\<rparr>, tr_ID := tid\<rparr>"
      "server_send E (s\<lparr>s_trans := tm\<rparr>) (tr_Addr t) (NewQueryMsg tid (tr_Query t) (tr_Arg t')) = Some (True, s')"
  | (sent) tid tm t' s1 tm' where "err = None"
      "(if tr_ID t = [] then GetTransactionID (s_trans s) else (tr_ID t, s_trans s)) = (tid, tm)"
      "t' = t\<lparr>tr_Arg := (tr_Arg t)\<lparr>aID := cID (s_conf s)\<rparr>, tr_ID := tid\<rparr>"
      "server_send E (s\<lparr>s_trans := tm\<rparr>) (tr_Addr t) (NewQueryMsg tid (tr_Query t) (tr_Arg t')) = Some (False, s1)"
      "AddTransaction (e_i2p E) (s_trans s1) t' = Some tm'" "s' = s1\<lparr>s_trans := tm'\<rparr>"
proof (cases "isDisabled s (tr_Addr t)")
  case False
  obtain tid tm where tid: "(if tr_ID t = [] then GetTransactionID (s_trans s) else (tr_ID t, s_trans s)) = (tid, tm)"
    by fastforce
  define t' where "t' = t\<lparr>tr_Arg := (tr_Arg t)\<lparr>aID := cID (s_conf s)\<rparr>, tr_ID := tid\<rparr>"
  have r: "do {
      (err, s2) \<leftarrow> server_send E (s\<lparr>s_trans := tm\<rparr>) (tr_Addr t) (NewQueryMsg tid (tr_Query t) (tr_Arg t'));
      if err then do { s3 \<leftarrow> log_addr E (tr_Addr t) True s2; Some (Some SendError, s3) }
      else do { tm' \<leftarrow> AddTransaction (e_i2p E) (s_trans s2) t'; Some (None, s2\<lparr>s_trans := tm'\<rparr>) }
    } = Some (err, s')"
    using assms False tid by (simp add: request_def Let_def t'_def cong: if_cong)
  then obtain e s1 where "server_send E (s\<lparr>s_trans := tm\<rparr>) (tr_Addr t) (NewQueryMsg tid (tr_Query t) (tr_Arg t')) = Some (e, s1)"
    by (auto simp: bind_eq_Some_conv)
  with r show thesis
    using failed [OF _ tid t'_def] sent [OF _ tid t'_def]
    by (cases e) (auto simp: bind_eq_Some_conv dest!: log_addr_SomeD)
qed (use assms disabled in \<open>auto simp: request_def\<close>)

lemma ok_request:
  assumes "request E s t = Some (err, s')" "server_ok v s"
  shows "server_ok v s'"
  using assms(1)
proof (cases rule: request_cases)
  case disabled
  then show ?thesis using assms(2) by simp
next
  case (failed tid tm t')
  have "wf_map (tx_trans tm)"
    using failed(2) ok_wf_trans [OF assms(2)] by (auto simp: GetTransactionID_def Let_def split: if_splits)
  then show ?thesis using failed(4) assms(2) by (blast intro: ok_send ok_trans)
next
  case (sent tid tm t' s1 tm')
  have "wf_map (tx_trans tm)"
    using sent(2) ok_wf_trans [OF assms(2)] by (auto simp: GetTransactionID_def Let_def split: if_splits)
  then have "server_ok v s1" using sent(4) assms(2) by (blast intro: ok_send ok_trans)
  then show ?thesis unfolding sent(6) using sent(5) by (blast intro: ok_trans wf_AddTransaction ok_wf_trans)
qed

lemma ok_AddNode:
  assumes "Server_AddNode E s n = Some (r, s')" "server_ok v s" "wf_hash (ID n)"
    "IP (Addr n) \<noteq> NilAddr"
  shows "server_ok v s'"
proof -
  have add: "placed rt'" "set (rt_nodes rt') \<subseteq> insert n (set (rt_nodes rt))"
    if "rt_AddNode (e_i2p E) rt n (e_now E) = Some (rt', r)" "placed rt" for rt rt'
    using table.inv_step [OF that(2) add [OF assms(3) that(1)]] AddNode_effect [OF that(2) assms(3) that(1)]
    by (auto split: if_splits)
  show ?thesis
    using assms(1,2,4) add by (fastforce simp: Server_AddNode_def server_ok_def bind_eq_Some_conv split: if_splits)
qed

lemma ok_addNode:
  assumes "server_addNode E s a nid ro = Some (r, s')" "server_ok v s" "wf_hash nid" "a \<noteq> NilAddr"
  shows "server_ok v s'"
  using assms
  by (auto simp: server_addNode_def NewNodeByUDPAddr_def Address_FromAddr_def bind_eq_Some_conv split: if_splits option.splits
      intro!: ok_blacklist intro: ok_AddNode)

lemma ok_handleQuery:
  assumes "handleQuery E s a m = Some s'" "server_ok (e_verify E) s"
  shows "server_ok (e_verify E) s'"
proof -
  have tok: "server_ok (e_verify E) (s\<lparr>s_tokens := snd (tokenManager_Token (s_tokens s) x now)\<rparr>)" for x now
    using assms(2) by (simp add: server_ok_def tokenManager_Token_def)
  have put: "server_ok (e_verify E) (s\<lparr>s_data := ds\<rparr>)"
    if "DataStore_Put (e_verify E) (s_data s) (put_item (mA m)) (e_now E) = Inr ds" for ds
    using assms(2) store.inv_step [OF _ ds_put [OF _ that]]
    by (simp add: server_ok_def put_item_def Hash_IsZero_def)
  note reply = ok_reply [OF _ assms(2)] ok_reply [OF _ tok] ok_reply [OF _ put] ok_sendError [OF _ assms(2)]
  have "server_ok (e_verify E) s'" if "handleFindNodeQuery E s a m = Some s'"
    using that by (auto simp: handleFindNodeQuery_def intro: reply)
  moreover have "server_ok (e_verify E) s'" if "handleGetPeersQuery E s a m = Some s'"
    using that by (auto simp: handleGetPeersQuery_def bind_eq_Some_conv Let_def split_beta
        intro!: ok_emit intro: reply)
  moreover have "server_ok (e_verify E) s'" if "handleAnnouncePeerQuery E s a m = Some s'"
    using that assms(2) by (auto simp: handleAnnouncePeerQuery_def bind_eq_Some_conv split: if_splits
        intro!: ok_emit intro: reply)
  moreover have "server_ok (e_verify E) s'" if "handleSampleInfoHashQuery E s a m = Some s'"
    using that by (auto simp: handleSampleInfoHashQuery_def bind_eq_Some_conv Let_def intro: reply)
  moreover have "server_ok (e_verify E) s'" if "handlePutQuery E s a m = Some s'"
    using that by (auto simp: handlePutQuery_def split: if_splits sum.splits intro: reply)
  moreover have "server_ok (e_verify E) s'" if "handleGetQuery E s a m = Some s'"
    using that by (auto simp: handleGetQuery_def intro: reply)
  ultimately show ?thesis using assms(1) reply by (auto simp: handleQuery_def split: if_splits)
qed

lemma ok_getPeers: "getPeers E s info a d ids cb = Some s' \<Longrightarrow> server_ok v s \<Longrightarrow> server_ok v s'"
  by (auto simp: getPeers_def bind_eq_Some_conv Let_def split: if_splits dest: ok_request)

lemma ok_getPeers_all: "getPeers_all E s info ns d ids cb = Some s' \<Longrightarrow> server_ok v s \<Longrightarrow> server_ok v s'"
  by (induction ns arbitrary: s) (auto simp: bind_eq_Some_conv dest: ok_getPeers)

lemma ok_Done: "server_ok v s \<Longrightarrow> server_ok v (Done t r s)"
  by (auto simp: Done_def intro: ok_emit split: option.split)

lemma ok_processNodeList:
  "processNodeList E s ns target ids ro = Some (found, new, s') \<Longrightarrow> server_ok v s \<Longrightarrow>
   \<forall>n \<in> set ns. wf_hash (ID n) \<and> IP (Addr n) \<noteq> NilAddr \<Longrightarrow> server_ok v s'"
  by (induction ns arbitrary: s found new)
     (auto simp: bind_eq_Some_conv server_addNode2_def split: if_splits dest: ok_AddNode)

definition wf_ids :: "message \<Rightarrow> bool" where
  "wf_ids m \<longleftrightarrow> wf_hash (aID (mA m)) \<and> wf_hash (rID (mR m)) \<and>
     (\<forall>n \<in> set (rNodes (mR m) @ rNodes6 (mR m)). wf_hash (ID n) \<and> IP (Addr n) \<noteq> NilAddr)"

lemma ok_process_both:
  assumes "process_both E s t target m = Some (found, new, ids, s')" "server_ok v s" "wf_ids m"
  shows "server_ok v s'"
  using assms
  by (auto simp: process_both_def wf_ids_def bind_eq_Some_conv Let_def split: if_splits dest: ok_processNodeList)

lemma ok_findNode: "findNode E s target a d ids = Some (err, s') \<Longrightarrow> server_ok v s \<Longrightarrow> server_ok v s'"
  by (auto simp: findNode_def Let_def intro: ok_request)

lemma ok_sendFindNodeQueries: "sendFindNodeQueries E s t ns ids = Some s' \<Longrightarrow> server_ok v s \<Longrightarrow> server_ok v s'"
  by (induction ns arbitrary: s) (auto simp: bind_eq_Some_conv split: if_splits dest: ok_findNode)

lemma ok_storeToken:
  assumes "storeTokenIfPresent E s m a = Some s'" "server_ok v s"
  shows "server_ok v s'"
proof -
  have "wf_peers tpm'" if "tokenPeerManager_Set L tpm h addr token now = Some tpm'" "wf_peers tpm" for L tpm h addr token now tpm'
    using that
    by (cases "Addr_String L addr"; cases "utils_Port L addr")
       (auto simp: tokenPeerManager_Set_def Let_def wf_peers_mput)
  then show ?thesis using assms
    by (auto simp: storeTokenIfPresent_def bind_eq_Some_conv server_ok_def split: if_splits)
qed

lemma ok_handlePeers: "server_ok v s \<Longrightarrow> server_ok v (snd (handlePeersIfFound s t m))"
proof -
  have "server_ok v s \<Longrightarrow> server_ok v (fold (\<lambda>a. emit (f a)) xs s)" for f :: "address \<Rightarrow> effect" and xs s
    by (induction xs arbitrary: s) (auto intro: ok_emit)
  then show "server_ok v s \<Longrightarrow> ?thesis" by (simp add: handlePeersIfFound_def ok_Done)
qed

lemma ok_OnResponse:
  assumes "OnResponse E s t a m = Some s'" "server_ok v s" "wf_ids m"
  shows "server_ok v s'"
proof (cases "tr_OnResponse t")
  case onGetPeersResp
  obtain s1 where s1: "storeTokenIfPresent E s m a = Some s1" and
    r: "(let (handled, s2) = handlePeersIfFound s1 t m in
       if handled then Some s2
       else do {
         let s3 = Done t noResultR s2;
         let t1 = t\<lparr>tr_Depth := tr_Depth t - 1\<rparr>;
         if tr_Depth t1 < 1 then Some s3
         else do {
           (found, nodes, ids, s4) \<leftarrow> processResponseNodes E s3 t1 m;
           if found \<or> nodes = [] then Some s4
           else getPeers_all E s4 (aInfoHash (tr_Arg t1)) nodes (tr_Depth t1) ids (tr_Callback t1)
         }
       }) = Some s'"
    using assms(1) onGetPeersResp by (auto simp: OnResponse_def onGetPeersResponse_def bind_eq_Some_conv)
  have ok1: "server_ok v (snd (handlePeersIfFound s1 t m))" by (rule ok_handlePeers [OF ok_storeToken [OF s1 assms(2)]])
  obtain h s2 where h: "handlePeersIfFound s1 t m = (h, s2)" by fastforce
  have ok: "server_ok v s2" "server_ok v (Done t noResultR s2)" using ok1 h by (auto intro: ok_Done)
  show ?thesis using r ok h
    by (auto simp: processResponseNodes_def bind_eq_Some_conv Let_def split: if_splits
        dest: ok_process_both [OF _ _ assms(3)] ok_getPeers_all)
next
  case onFindNodeResp
  then show ?thesis using assms
    by (auto simp: OnResponse_def onFindNodeResponse_def processFoundNodes_def bind_eq_Some_conv Let_def
        split: if_splits dest: ok_process_both [OF _ _ assms(3)] ok_sendFindNodeQueries)
qed (use assms in \<open>auto simp: OnResponse_def intro: ok_Done\<close>)

lemma ok_handleMessage:
  assumes "handleMessage E s a m = Some s'" "server_ok (e_verify E) s" "wf_ids m" "a \<noteq> NilAddr"
  shows "server_ok (e_verify E) s'"
proof -
  let ?v = "e_verify E"
  have pop: "server_ok ?v (s\<lparr>s_trans := tm\<rparr>)" if "PopTransaction L (s_trans s) tid x = Some (t, tm)" "server_ok ?v s"
    for L tid x t tm s
    using that wf_PopTransaction [OF that(1) ok_wf_trans [OF that(2)]] by (intro ok_trans)
  have "server_ok ?v s'" if "handleQueryMessage E s a m = Some s'"
    using that assms(2-4)
    by (auto simp: handleQueryMessage_def wf_ids_def bind_eq_Some_conv split: if_splits
        dest: ok_addNode ok_handleQuery)
  moreover have "server_ok ?v s'" if r: "processTransaction E s1 a m = Some s'" "server_ok ?v s1" for s1
    using r assms(3)
    by (auto simp: processTransaction_def bind_eq_Some_conv split: option.splits dest: pop ok_OnResponse)
  then have "server_ok ?v s'" if "handleResponseMessage E s a m = Some s'"
    using that assms(2-4)
    by (auto simp: handleResponseMessage_def wf_ids_def bind_eq_Some_conv split: if_splits dest: ok_addNode)
  moreover have "server_ok ?v s'" if "handleErrorMessage E s a m = Some s'"
    using that assms(2)
    by (auto simp: handleErrorMessage_def onError_def bind_eq_Some_conv split: option.splits
        dest!: log_addr_SomeD intro: ok_Done dest: pop)
  ultimately show ?thesis using assms(1,2) by (auto simp: handleMessage_def split: if_splits)
qed

lemma nodes_after_check:
  assumes "rt_checkAllBuckets rt now = (rt', pings)"
  shows "set (rt_nodes rt') \<subseteq> set (rt_nodes rt)"
proof
  fix n assume "n \<in> set (rt_nodes rt')"
  have rt': "rt' = rt\<lparr>rt_bkts := fst (checkAllBuckets (rt_bkts rt) now)\<rparr>"
    using assms by (auto simp: rt_checkAllBuckets_def Let_def split_beta)
  then obtain i w where "i < length (rt_bkts rt)" "n = WNode w"
    "w \<in> set (Nodes (fst (checkAllBuckets (rt_bkts rt) now) ! i))"
    using \<open>n \<in> set (rt_nodes rt')\<close> checkAllBuckets_nth [of "rt_bkts rt" now]
    by (auto simp: rt_nodes_def in_set_conv_nth [of _ "fst _"])
  then have "w \<in> set (Nodes (rt_bkts rt ! i))" using checkAllBuckets_nth [of "rt_bkts rt" now] by blast
  then show "n \<in> set (rt_nodes rt)"
    using \<open>i < length (rt_bkts rt)\<close> \<open>n = WNode w\<close> by (force simp: rt_nodes_def)
qed

lemma ok_ping_all: "ping_all E s as = Some s' \<Longrightarrow> server_ok v s \<Longrightarrow> server_ok v s'"
  by (induction as arbitrary: s) (auto simp: bind_eq_Some_conv Ping_def dest: ok_request)

lemma ok_check_table4:
  assumes "server_ok v s" "check_table4 E s = Some s'"
  shows "server_ok v s'"
proof -
  obtain rt pings where c: "rt_checkAllBuckets (s_rt4 s) (e_now E) = (rt, pings)" by fastforce
  have "placed rt" using table.inv_step [OF _ check [OF c]] assms(1) by (simp add: server_ok_def)
  then have "server_ok v (s\<lparr>s_rt4 := rt\<rparr>)"
    using assms(1) nodes_after_check [OF c] by (auto simp: server_ok_def)
  then show ?thesis using assms(2) c by (auto simp: check_table4_def intro: ok_ping_all)
qed

lemma ok_check_table6:
  assumes "server_ok v s" "check_table6 E s = Some s'"
  shows "server_ok v s'"
proof -
  obtain rt pings where c: "rt_checkAllBuckets (s_rt6 s) (e_now E) = (rt, pings)" by fastforce
  have "placed rt" using table.inv_step [OF _ check [OF c]] assms(1) by (simp add: server_ok_def)
  then have "server_ok v (s\<lparr>s_rt6 := rt\<rparr>)"
    using assms(1) nodes_after_check [OF c] by (auto simp: server_ok_def)
  then show ?thesis using assms(2) c by (auto simp: check_table6_def intro: ok_ping_all)
qed

lemma ok_timeout_all: "timeout_all E s ts = Some s' \<Longrightarrow> server_ok v s \<Longrightarrow> server_ok v s'"
  by (induction ts arbitrary: s) (auto simp: bind_eq_Some_conv onTimeout_def dest!: log_addr_SomeD intro: ok_Done)

lemma ok_announce_all: "announce_all E s h port ip ns = Some (sent, s') \<Longrightarrow> server_ok v s \<Longrightarrow> server_ok v s'"
  by (induction ns arbitrary: s sent)
     (auto simp: bind_eq_Some_conv Let_def split: if_splits dest!: log_addr_SomeD dest: ok_request)

text \<open>
  The life of a server: the messages it handles, the periodic tasks, and the calls of its users,
  with any clock and any behaviour of the connection at each of them.
\<close>

inductive server_step :: "i2p_lib \<Rightarrow> verifier \<Rightarrow> server \<Rightarrow> server \<Rightarrow> bool" for L v where
  step_message: "e_i2p E = L \<Longrightarrow> e_verify E = v \<Longrightarrow> wf_ids m \<Longrightarrow> raddr \<noteq> NilAddr \<Longrightarrow>
    handleMessage E s raddr m = Some s' \<Longrightarrow>
    server_step L v s s'"
| step_check4: "e_i2p E = L \<Longrightarrow> check_table4 E s = Some s' \<Longrightarrow> server_step L v s s'"
| step_check6: "e_i2p E = L \<Longrightarrow> check_table6 E s = Some s' \<Longrightarrow> server_step L v s s'"
| step_rotate: "server_step L v s (s\<lparr>s_tokens := tokenManager_updateToken (s_tokens s) token\<rparr>)"
| step_clear: "server_step L v s (s\<lparr>s_tokens := tokenManager_clear (s_tokens s) now expired\<rparr>)"
| step_peers: "server_step L v s (s\<lparr>s_peers := cleanupExpiredPeers (s_peers s) now interval\<rparr>)"
| step_blacklist: "server_step L v s (s\<lparr>s_blacklist := cleanExpiredEntries (s_blacklist s) now interval\<rparr>)"
| step_timeout: "e_i2p E = L \<Longrightarrow> transaction_tick E s = Some s' \<Longrightarrow> server_step L v s s'"
| step_ping: "e_i2p E = L \<Longrightarrow> Ping E s a cb = Some (err, s') \<Longrightarrow> server_step L v s s'"
| step_get_peers: "e_i2p E = L \<Longrightarrow> GetPeers E s h cb = Some s' \<Longrightarrow> server_step L v s s'"
| step_announce: "e_i2p E = L \<Longrightarrow> AnnouncePeer E s h port implied = Some (sent, s') \<Longrightarrow> server_step L v s s'"
| step_find_node: "e_i2p E = L \<Longrightarrow> FindNode E s a h = Some (ferr, s') \<Longrightarrow> server_step L v s s'"
| step_add_node: "e_i2p E = L \<Longrightarrow> wf_hash (ID n) \<Longrightarrow> IP (Addr n) \<noteq> NilAddr \<Longrightarrow>
    Server_AddNode E s n = Some (r, s') \<Longrightarrow> server_step L v s s'"

definition server_init :: "i2p_lib \<Rightarrow> server \<Rightarrow> bool" where
  "server_init L s \<longleftrightarrow> (\<exists>E local config random token stored4 stored6.
     e_i2p E = L \<and> wf_hash random \<and> (\<forall>c \<in> set config. wf_hash (cID c)) \<and>
     (\<forall>(n, t) \<in> set (case stored4 of None \<Rightarrow> [] | Some ns \<Rightarrow> ns). wf_hash (ID n) \<and>
       \<not> Address_IsIPv6 (Addr n) \<and> IP (Addr n) \<noteq> NilAddr) \<and>
     (\<forall>(n, t) \<in> set (case stored6 of None \<Rightarrow> [] | Some ns \<Rightarrow> ns). wf_hash (ID n) \<and> Address_IsIPv6 (Addr n)) \<and>
     NewServer E local config random token stored4 stored6 = Some s)"

lemma addNode_subset:
  assumes "placed rt" "wf_hash (ID n)" "rt_addNode L rt n now = Some (rt', r)"
  shows "set (rt_nodes rt') \<subseteq> insert n (set (rt_nodes rt))"
proof -
  let ?i = "bucketid (rt_root rt) (ID n)"
  obtain b where b: "bucket_AddNode L (rt_k rt) (rt_bkts rt ! ?i) n now = Some (b, r)"
    "rt' = rt\<lparr>rt_bkts := (rt_bkts rt)[?i := b]\<rparr>"
    using assms(3) by (auto simp: rt_addNode_def Let_def split: option.splits)
  have i: "?i < length (rt_bkts rt)"
    using bucketid_bound [OF placedD(1) [OF assms(1)] assms(2)] placedD(2) [OF assms(1)] by simp
  have "set (map WNode (Nodes b)) \<subseteq> insert n (set (map WNode (Nodes (rt_bkts rt ! ?i))))"
    using bucket_AddNode_nodes [OF b(1)] by (metis subset_insertI)
  then show ?thesis
    unfolding b(2) rt_nodes_update(1) [OF i] rt_nodes_update(2) [OF i] set_append by blast
qed

lemma load_nodes_subset:
  "placed rt \<Longrightarrow> \<forall>(n, t) \<in> set ns. wf_hash (ID n) \<Longrightarrow> load_nodes L rt ns now = Some rt' \<Longrightarrow>
   set (rt_nodes rt') \<subseteq> set (rt_nodes rt) \<union> fst ` set ns"
proof (induction ns arbitrary: rt)
  case (Cons nt ns)
  obtain n t where nt: "nt = (n, t)" by (cases nt)
  show ?case
  proof (cases "now - t < dubiousTimeout")
    case True
    then obtain rt1 r where a: "rt_addNode L rt n t = Some (rt1, r)" "load_nodes L rt1 ns now = Some rt'"
      using Cons(4) nt by (auto split: option.splits)
    have p: "placed rt1" by (rule addNode_placed [OF Cons(2) _ a(1)]) (use Cons(3) nt in simp)
    have "set (rt_nodes rt1) \<subseteq> insert n (set (rt_nodes rt))"
      by (rule addNode_subset [OF Cons(2) _ a(1)]) (use Cons(3) nt in simp)
    then show ?thesis using Cons(1) [OF p _ a(2)] Cons(3) nt by auto
  next
    case False
    then show ?thesis using Cons nt by auto
  qed
qed simp

lemma newRoutingTable_ok:
  assumes "newRoutingTable L k root stored now = Some rt" "wf_hash root"
    "\<forall>(n, t) \<in> set (case stored of None \<Rightarrow> [] | Some ns \<Rightarrow> ns). wf_hash (ID n) \<and> P n"
  shows "placed rt" "\<forall>n \<in> set (rt_nodes rt). P n"
proof -
  let ?rt = "\<lparr>rt_k = k, rt_root = root, rt_bkts = replicate bktlen \<lparr>Nodes = [], BChanged = 0\<rparr>\<rparr>"
  have e: "placed ?rt" using assms(2) by (intro placedI) simp_all
  have n: "rt_nodes ?rt = []" by (simp add: rt_nodes_def)
  have w: "\<forall>(n, t) \<in> set ns. wf_hash (ID n)" if "stored = Some ns" for ns using assms(3) that by auto
  show "placed rt" using assms(1) e load_placed [OF e w] by (cases stored) (auto simp: newRoutingTable_def)
  show "\<forall>n \<in> set (rt_nodes rt). P n"
    using assms(1,3) n load_nodes_subset [OF e w] by (cases stored) (fastforce simp: newRoutingTable_def)+
qed

lemma Config_set_id:
  "wf_hash random \<Longrightarrow> \<forall>c \<in> set config. wf_hash (cID c) \<Longrightarrow> wf_hash (cID (Config_set config random))"
  by (cases config) (auto simp: Config_set_def setNetworkDefaults_def setBasicDefaults_def zeroConfig_def Hash_IsZero_def)

interpretation dht: inductive_invariant "server_init L" "server_step L v" "server_ok v" for L v
proof
  fix s assume "server_init L s"
  then obtain E local config random token stored4 stored6 where
    *: "wf_hash random" "\<forall>c \<in> set config. wf_hash (cID c)"
    "\<forall>(n, t) \<in> set (case stored4 of None \<Rightarrow> [] | Some ns \<Rightarrow> ns). wf_hash (ID n) \<and>
       \<not> Address_IsIPv6 (Addr n) \<and> IP (Addr n) \<noteq> NilAddr"
    "\<forall>(n, t) \<in> set (case stored6 of None \<Rightarrow> [] | Some ns \<Rightarrow> ns). wf_hash (ID n) \<and> Address_IsIPv6 (Addr n)"
    "NewServer E local config random token stored4 stored6 = Some s"
    unfolding server_init_def by blast
  define conf where "conf = Config_set config random"
  have i: "wf_hash (cID conf)" unfolding conf_def using *(1,2) by (rule Config_set_id)
  obtain rt4 rt6 where rt: "newRoutingTable (e_i2p E) (cK conf) (cID conf) stored4 (e_now E) = Some rt4"
    "newRoutingTable (e_i2p E) (cK conf) (cID conf) stored6 (e_now E) = Some rt6"
    and s: "s_rt4 s = rt4" "s_rt6 s = rt6" "cID (s_conf s) = cID conf" "s_tokens s = newTokenManager token" "s_peers s = []"
      "s_trans s = newTransactionManager" "s_data s = NewDataStore" "s_blacklist s = NewMemoryBlacklist 1024"
    using *(5) by (auto simp: NewServer_def initializeServer_def conf_def [symmetric] Let_def bind_eq_Some_conv
        split_beta)
  show "server_ok v s"
    using newRoutingTable_ok [OF rt(1) i *(3)] newRoutingTable_ok [OF rt(2) i *(4)] s
      store.inv_init [OF refl, of v] bounded.inv_init [OF refl, of 1024] i
    by (simp add: server_ok_def newTokenManager_def newTransactionManager_def wf_peers_def)
next
  fix s s' assume ok: "server_ok v s" and "server_step L v s s'"
  from this(2) show "server_ok v s'"
  proof cases
    case (step_message E m raddr)
    then show ?thesis using ok ok_handleMessage by blast
  next
    case step_clear
    then show ?thesis using ok tokens.invar_sweep by (simp add: server_ok_def)
  next
    case step_peers
    then show ?thesis using ok announced.invar_sweep by (simp add: server_ok_def)
  next
    case step_blacklist
    then show ?thesis using ok bounded.inv_step [OF _ bl_clean] by (simp add: server_ok_def)
  next
    case (step_timeout E)
    obtain tm expired where c:
      "cleanupExpiredTransactions (s_trans s) (e_now E) (cRespTimeout (s_conf s)) = (tm, expired)" by fastforce
    have "wf_map (tx_trans tm)"
      using pending.invar_sweep [OF ok_wf_trans [OF ok], of "e_now E" "cRespTimeout (s_conf s)"] c by simp
    then have "server_ok v (s\<lparr>s_trans := tm\<rparr>)" using ok by (rule ok_trans [rotated])
    moreover have "timeout_all E (s\<lparr>s_trans := tm\<rparr>) expired = Some s'"
      using step_timeout c by (simp add: transaction_tick_def)
    ultimately show ?thesis by (rule ok_timeout_all [rotated])
  next
    case (step_get_peers E h cb)
    then show ?thesis using ok
      by (auto simp: GetPeers_def Let_def split: if_splits option.splits intro: ok_emit ok_getPeers_all)
  next
    case (step_announce E h port implied sent)
    then show ?thesis using ok by (auto simp: AnnouncePeer_def split: if_splits intro: ok_announce_all)
  next
    case (step_find_node E a h ferr)
    then show ?thesis using ok by (auto simp: FindNode_def bind_eq_Some_conv split: if_splits intro: ok_findNode)
  next
    case step_rotate
    then show ?thesis using ok by (simp add: server_ok_def tokenManager_updateToken_def)
  qed (use ok in \<open>auto simp: Ping_def
        intro: ok_check_table4 ok_check_table6 ok_request ok_AddNode\<close>)
qed

end
