(* ===== verification/DhtServer_Props.thy ===== *)
theory DhtServer_Props
  imports DhtServer_Inv
begin

text \<open>
  What the DHT server does with messages: the properties of its handlers and of their
  composition with the tables, the tokens and the data store.
\<close>

section \<open>Replies\<close>

definition writes_all :: "dht_env \<Rightarrow> bool" where
  "writes_all E \<longleftrightarrow> e_write E = (\<lambda>a b. Wrote (length b))"

lemma send_writes_all:
  assumes "writes_all E" "server_send E s a m = Some (err, s')"
  shows "s' = emit (Sent a (m\<lparr>mRO := cReadOnly (s_conf s)\<rparr>)) s" "\<not> err"
  using assms by (auto simp: server_send_def server_send0_def writes_all_def bind_eq_Some_conv split: if_splits sum.splits)

lemma reply_sent:
  assumes "writes_all E" "reply E s a tid r = Some s'"
  shows "s' = emit (Sent a ((NewResponseMsg tid (r\<lparr>rID := cID (s_conf s)\<rparr>))\<lparr>mRO := cReadOnly (s_conf s)\<rparr>)) s"
  using assms(2) send_writes_all [OF assms(1)]
  by (auto simp: reply_def bind_eq_Some_conv dest!: log_addr_SomeD)





definition answers :: "server \<Rightarrow> message \<Rightarrow> message \<Rightarrow> bool" where
  "answers s m r \<longleftrightarrow> mT r = mT m \<and>
     (mY r = ascii ''r'' \<and> rID (mR r) = cID (s_conf s) \<or> mY r = ascii ''e'' \<and> Code (mE r) \<noteq> 0)"



lemma answers_cong: "s_conf s = s_conf s' \<Longrightarrow> answers s m x = answers s' m x"
  by (simp add: answers_def)

section \<open>Answers do not fail\<close>

lemma send_total:
  assumes "writes_all E" "mT m \<noteq> []" "mY m \<noteq> []" "wf_message (e_i2p E) (m\<lparr>mRO := cReadOnly (s_conf s)\<rparr>)"
  shows "server_send E s a m = Some (False, emit (Sent a (m\<lparr>mRO := cReadOnly (s_conf s)\<rparr>)) s)"
proof -
  obtain b where "Message_Encode (e_i2p E) (m\<lparr>mRO := cReadOnly (s_conf s)\<rparr>) = Inr b"
    using denotes_transmits [OF Message_denotes [OF assms(4)]] by (auto simp: transmits_def Message_Encode_def)
  then show ?thesis using assms(1-3) by (simp add: server_send_def server_send0_def writes_all_def)
qed

lemma wf_message_plain: "wf_message L (m\<lparr>mRO := ro\<rparr>) = wf_message L m"
  by (simp add: wf_message_def)

lemma reply_total:
  assumes "writes_all E" "tid \<noteq> []" "fits tid" "wf_result (e_i2p E) (r\<lparr>rID := cID (s_conf s)\<rparr>)"
  shows "reply E s a tid r = Some (emit (Sent a ((NewResponseMsg tid (r\<lparr>rID := cID (s_conf s)\<rparr>))
    \<lparr>mRO := cReadOnly (s_conf s)\<rparr>)) s)"
proof -
  have "wf_message (e_i2p E) (NewResponseMsg tid (r\<lparr>rID := cID (s_conf s)\<rparr>))"
    using assms(3,4) by (simp add: wf_message_def NewResponseMsg_def zeroMessage_def noArg_def wf_arg_def fits_def
        is_int64_def wf_hash_def zeroHash_def ascii_def)
  moreover have "mT (NewResponseMsg tid r') \<noteq> []" "mY (NewResponseMsg tid r') \<noteq> []" for r'
    using assms(2) by (simp_all add: NewResponseMsg_def ascii_def)
  ultimately show ?thesis
    using assms(1) by (simp add: reply_def send_total wf_message_plain log_addr_def)
qed

lemma wf_noResult: "wf_hash h \<Longrightarrow> wf_result L (noResult\<lparr>rID := h\<rparr>)"
  by (simp add: wf_result_def noResult_def fits_def is_int64_def)

lemma Addr_total: "a \<noteq> NilAddr \<Longrightarrow> \<exists>t p i. Addr_String L a = Some t \<and> utils_Port L a = Some p \<and> utils_IPAddr L a = Some i"
  by (cases a) (auto simp: Addr_String_def utils_Port_def utils_IPAddr_def split: option.split sum.split)

lemma rt_AddNode_total:
  assumes "placed rt" "wf_hash (ID n)" "IP (Addr n) \<noteq> NilAddr" "\<forall>m \<in> set (rt_nodes rt). IP (Addr m) \<noteq> NilAddr"
  shows "\<exists>rt' r. rt_AddNode L rt n now = Some (rt', r)"
proof -
  let ?i = "bucketid (rt_root rt) (ID n)"
  have "?i < length (rt_bkts rt)"
    using bucketid_bound [OF placedD(1) [OF assms(1)] assms(2)] placedD(2) [OF assms(1)] by simp
  then have "\<forall>w \<in> set (Nodes (rt_bkts rt ! ?i)). IP (Addr (WNode w)) \<noteq> NilAddr"
    using assms(4) by (fastforce simp: rt_nodes_def)
  then obtain b r where "bucket_AddNode L (rt_k rt) (rt_bkts rt ! ?i) n now = Some (b, r)"
    using bucket_AddNode_total [OF _ assms(3)] by blast
  then show ?thesis by (simp add: rt_AddNode_def rt_addNode_def Let_def)
qed

lemma addNode_total:
  assumes "server_ok v s" "a \<noteq> NilAddr" "wf_hash nid"
  shows "\<exists>r s'. server_addNode E s a nid ro = Some (r, s') \<and> s_out s' = s_out s \<and> s_conf s' = s_conf s"
proof (cases ro)
  case False
  obtain t p i where a: "Addr_String (e_i2p E) a = Some t" "utils_Port (e_i2p E) a = Some p"
    "utils_IPAddr (e_i2p E) a = Some i" using Addr_total [OF assms(2)] by blast
  let ?n = "\<lparr>ID = nid, Addr = \<lparr>IP = a, Port = of_int p\<rparr>\<rparr>"
  have "\<forall>m \<in> set (rt_nodes (s_rt6 s)). IP (Addr m) \<noteq> NilAddr"
    using assms(1) by (force simp: server_ok_def Address_IsIPv6_def)
  then have "\<exists>rt' r. rt_AddNode (e_i2p E) rt ?n (e_now E) = Some (rt', r)" if "rt = s_rt4 s \<or> rt = s_rt6 s" for rt
    using assms that by (intro rt_AddNode_total) (auto simp: server_ok_def)
  from this [of "s_rt4 s"] this [of "s_rt6 s"]
  have "\<exists>r s1. Server_AddNode E s ?n = Some (r, s1) \<and> s_out s1 = s_out s \<and> s_conf s1 = s_conf s"
    by (cases "Address_IsIPv6 (Addr ?n)"; cases "s_ipv6 s"; cases "s_ipv4 s") (auto simp: Server_AddNode_def)
  then show ?thesis using False a
    by (auto simp: server_addNode_def NewNodeByUDPAddr_def Address_FromAddr_def)
qed (simp add: server_addNode_def)

section \<open>Properties\<close>

text \<open>C1: In every state that a DHT server can reach, whatever messages it gets, whatever the connection
  does and whatever its users call: the nodes it hands out have identifiers of 20 bytes and are of
  the family of the table they come from, no item that it serves is invalid or unsigned, and at
  most 1024 addresses are blocked.\<close>

theorem server_invariant:
  assumes "reach (server_init L) (server_step L v) s"
  shows "(n \<in> set (rt_Closest (s_rt4 s) target k) \<and> wf_hash target \<longrightarrow> wf_hash (ID n) \<and> \<not> Address_IsIPv6 (Addr n)) \<and>
    (n \<in> set (rt_Closest (s_rt6 s) target k) \<and> wf_hash target \<longrightarrow> wf_hash (ID n) \<and> Address_IsIPv6 (Addr n)) \<and>
    (DataStore_Get (s_data s) t now = Some item \<longrightarrow> t = ComputeTarget item \<and> VerifySignature v item) \<and>
    length (bl_ips (s_blacklist s)) \<le> 1024"
proof -
  have ok: "server_ok v s" using assms by (rule dht.reach_inv)
  have sub: "wf_hash (ID n) \<and> n \<in> set (rt_nodes rt)"
    if "placed rt" "n \<in> set (rt_Closest rt target k)" "wf_hash target" for rt
  proof -
    have l: "\<forall>m \<in> set (rt_nodes rt). length (ID m) = 20" using placed_ids [OF that(1)] by blast
    have "rt_Closest rt target k = take (nat k) (sort_key (dist target) (rt_nodes rt))"
      by (rule Closest_sort [OF _ l]) (use that(3) in \<open>simp add: wf_hash_def HashSize_def\<close>)
    then have "n \<in> set (rt_nodes rt)" using that(2) by (auto dest: in_set_takeD)
    then show ?thesis using l by (auto simp: wf_hash_def HashSize_def)
  qed
  show ?thesis using ok sub
    by (auto simp: server_ok_def valid_store_def valid_item_def DataStore_Get_def blacklist_ok_def
        split: option.splits if_splits)
qed

definition example_env :: dht_env where
  "example_env = \<lparr>e_i2p = no_i2p, e_verify = (\<lambda>_ _ _. False), e_write = (\<lambda>a b. Wrote (length b)), e_now = 0\<rparr>"

definition example_config :: dht_config where
  "example_config = zeroConfig\<lparr>cID := replicate 20 9, cIPProtocols := [IPv4Protocol]\<rparr>"

definition empty_table :: routing_table where
  "empty_table = \<lparr>rt_k = 8, rt_root = replicate 20 9, rt_bkts = replicate bktlen \<lparr>Nodes = [], BChanged = 0\<rparr>\<rparr>"

definition example_server :: server where
  "example_server = \<lparr>s_conf = \<lparr>cK = 8, cID = replicate 20 9, cIPProtocols = [4], cReadOnly = False, cMsgSize = 4096,
     cSearchDepth = 8, cRespTimeout = 10 * second\<rparr>, s_ipv4 = True, s_ipv6 = False, s_want = [WantNodes],
     s_rt4 = empty_table, s_rt6 = empty_table, s_tokens = newTokenManager (ascii ''t''), s_peers = [],
     s_trans = newTransactionManager, s_data = [], s_blacklist = NewMemoryBlacklist 1024, s_out = []\<rparr>"

lemma example_server_new:
  "NewServer example_env [] [example_config] zeroHash (ascii ''t'') None None = Some example_server"
  by (simp add: NewServer_def initializeServer_def example_env_def example_config_def example_server_def
      Config_set_def setNetworkDefaults_def setBasicDefaults_def zeroConfig_def newRoutingTable_def
      Hash_IsZero_def zeroHash_def HashSize_def NewDataStore_def empty_table_def)

lemma example_server_reach: "reach (server_init no_i2p) (server_step no_i2p (\<lambda>_ _ _. False)) example_server"
proof (rule reach_init)
  show "server_init no_i2p example_server"
    unfolding server_init_def using example_server_new
    by (intro exI [of _ example_env] exI [of _ "[]"] exI [of _ "[example_config]"] exI [of _ zeroHash]
        exI [of _ "ascii ''t''"] exI [of _ None])
       (simp add: example_env_def example_config_def wf_hash_def zeroHash_def HashSize_def)
qed

theorem server_invariant_witness: "length (bl_ips (s_blacklist example_server)) \<le> 1024"
  using server_invariant [OF example_server_reach] by simp

text \<open>A server that is not read-only answers every ping. Whatever its state and whoever asks, the
  handler comes to an end without a panic and exactly the response with its own identifier and
  the transaction identifier of the query goes back; only when the asking node is already known
  under another address nothing is sent.\<close>

theorem ping_answered:
  assumes "reach (server_init L) (server_step L v) s" "writes_all E" "raddr \<noteq> NilAddr"
    "mY m = ascii ''q''" "mQ m = ascii ''ping''" "wf_hash (aID (mA m))" "\<not> Hash_IsZero (aID (mA m))"
    "mT m \<noteq> []" "fits (mT m)" "\<not> cReadOnly (s_conf s)"
  shows "\<exists>r s1 s'. server_addNode E s raddr (aID (mA m)) (mRO m) = Some (r, s1) \<and>
    handleMessage E s raddr m = Some s' \<and>
    s_out s' = s_out s @ (if r = NodeExistAndChanged then []
      else [Sent raddr (NewResponseMsg (mT m) (noResult\<lparr>rID := cID (s_conf s)\<rparr>))])"
proof -
  have ok: "server_ok v s" using assms(1) by (rule dht.reach_inv)
  obtain r s1 where a: "server_addNode E s raddr (aID (mA m)) (mRO m) = Some (r, s1)"
    "s_out s1 = s_out s" "s_conf s1 = s_conf s"
    using addNode_total [OF ok assms(3,6)] by blast
  have "wf_hash (cID (s_conf s1))" using ok a(3) by (simp add: server_ok_def)
  from reply_total [OF assms(2,8,9) wf_noResult [OF this], of raddr] show ?thesis
    using a assms(4-7,10)
    by (auto simp: handleMessage_def handleQueryMessage_def handleQuery_def emit_def NewResponseMsg_def zeroMessage_def)
qed

theorem ping_answered_witness:
  "\<exists>r s1 s'. server_addNode example_env example_server (UDPAddr [10, 0, 0, 1] 80) (replicate 20 1) False = Some (r, s1) \<and>
    handleMessage example_env example_server (UDPAddr [10, 0, 0, 1] 80)
      (NewQueryMsg (ascii ''aa'') (ascii ''ping'') (noArg\<lparr>aID := replicate 20 1\<rparr>)) = Some s' \<and>
    s_out s' = s_out example_server @ (if r = NodeExistAndChanged then []
      else [Sent (UDPAddr [10, 0, 0, 1] 80)
        (NewResponseMsg (ascii ''aa'') (noResult\<lparr>rID := cID (s_conf example_server)\<rparr>))])"
proof -
  let ?m = "NewQueryMsg (ascii ''aa'') (ascii ''ping'') (noArg\<lparr>aID := replicate 20 1\<rparr>)"
  have m: "mT ?m = ascii ''aa''" "mY ?m = ascii ''q''" "mQ ?m = ascii ''ping''"
    "aID (mA ?m) = replicate 20 1" "mRO ?m = False"
    by (simp_all add: NewQueryMsg_def zeroMessage_def)
  have "writes_all example_env" "\<not> cReadOnly (s_conf example_server)" "ascii ''aa'' \<noteq> []" "fits (ascii ''aa'')"
    "wf_hash (replicate 20 1)" "\<not> Hash_IsZero (replicate 20 1)"
    by (simp_all add: writes_all_def example_env_def example_server_def fits_def ascii_def wf_hash_def HashSize_def
        Hash_IsZero_def zeroHash_def)
  then show ?thesis
    using ping_answered [OF example_server_reach, of example_env "UDPAddr [10, 0, 0, 1] 80" ?m]
    unfolding m by simp
qed







section \<open>Searches\<close>

definition pending_queries :: "server \<Rightarrow> transaction set" where
  "pending_queries s = snd ` set (tx_trans (s_trans s))"

text \<open>What a query keeps while it is sent.\<close>

definition same_query :: "transaction \<Rightarrow> transaction \<Rightarrow> bool" where
  "same_query t u \<longleftrightarrow> tr_Query u = tr_Query t \<and> tr_OnResponse u = tr_OnResponse t \<and> tr_Depth u = tr_Depth t \<and>
     aInfoHash (tr_Arg u) = aInfoHash (tr_Arg t) \<and> tr_Callback u = tr_Callback t"

lemma pending_cong: "s_trans s = s_trans s' \<Longrightarrow> pending_queries s = pending_queries s'"
  by (simp add: pending_queries_def)

lemma pending_send: "server_send E s a m = Some (err, s') \<Longrightarrow> s_trans s' = s_trans s \<and> s_conf s' = s_conf s"
  by (erule send_cases) (simp_all add: emit_def)

lemma pending_request:
  assumes "request E s t = Some (err, s')" "u \<in> pending_queries s'"
  shows "u \<in> pending_queries s \<or> same_query t u"
  using assms(1)
proof (cases rule: request_cases)
  case disabled
  then show ?thesis using assms(2) by simp
next
  case (failed tid tm t')
  have "tx_trans tm = tx_trans (s_trans s)" using failed(2) by (auto simp: GetTransactionID_def Let_def split: if_splits)
  then show ?thesis using pending_send [OF failed(4)] assms(2) by (simp add: pending_queries_def)
next
  case (sent tid tm t' s1 tm')
  have "tx_trans tm = tx_trans (s_trans s)" using sent(2) by (auto simp: GetTransactionID_def Let_def split: if_splits)
  then have "tx_trans (s_trans s1) = tx_trans (s_trans s)" using pending_send [OF sent(4)] by simp
  moreover obtain k where "tx_trans tm' = mput (tx_trans (s_trans s1)) k t'"
    using sent(5) by (auto simp: AddTransaction_def split: option.splits)
  ultimately have "u = t' \<or> u \<in> pending_queries s"
    using assms(2) sent(6) set_mput_subset [of "tx_trans (s_trans s1)" k t'] by (auto simp: pending_queries_def)
  then show ?thesis using sent(3) by (auto simp: same_query_def)
qed

definition continues :: "transaction \<Rightarrow> transaction \<Rightarrow> bool" where
  "continues t u \<longleftrightarrow> tr_Query u = ascii ''get_peers'' \<and> tr_OnResponse u = onGetPeersResp \<and>
     tr_Depth u = tr_Depth t - 1 \<and> 1 \<le> tr_Depth u \<and> aInfoHash (tr_Arg u) = aInfoHash (tr_Arg t) \<and>
     tr_Callback u = tr_Callback t"

lemma pending_getPeers_all:
  "getPeers_all E s h ns d ids cb = Some s' \<Longrightarrow> u \<in> pending_queries s' \<Longrightarrow>
   u \<in> pending_queries s \<or> tr_Query u = ascii ''get_peers'' \<and> tr_OnResponse u = onGetPeersResp \<and> tr_Depth u = d \<and>
     aInfoHash (tr_Arg u) = h \<and> tr_Callback u = cb"
proof (induction ns arbitrary: s)
  case (Cons n ns)
  let ?t = "(newTransaction E (Address_Addr (Addr n)) (ascii ''get_peers'') (noArg\<lparr>aInfoHash := h, aWants := s_want s\<rparr>) cb)
    \<lparr>tr_OnResponse := onGetPeersResp, tr_Depth := d, tr_Visited := ids\<rparr>"
  obtain err s1 where r: "request E s ?t = Some (err, s1)" "getPeers_all E s1 h ns d ids cb = Some s'"
    using Cons(2) by (auto simp: getPeers_def bind_eq_Some_conv split: if_splits)
  from Cons(1) [OF r(2) Cons(3)] pending_request [OF r(1), of u] show ?case
    by (auto simp: newTransaction_def same_query_def)
qed simp

lemma trans_AddNode: "Server_AddNode E s n = Some (r, s') \<Longrightarrow> s_trans s' = s_trans s"
  by (auto simp: Server_AddNode_def bind_eq_Some_conv split: if_splits)

lemma trans_processNodeList:
  "processNodeList E s ns target ids ro = Some (found, new, s') \<Longrightarrow> s_trans s' = s_trans s"
  by (induction ns arbitrary: s found new)
     (auto simp: bind_eq_Some_conv server_addNode2_def split: if_splits dest: trans_AddNode)

lemma trans_process_both: "process_both E s t target m = Some (found, new, ids, s') \<Longrightarrow> s_trans s' = s_trans s"
  by (auto simp: process_both_def bind_eq_Some_conv Let_def split: if_splits dest!: trans_processNodeList)

lemma trans_Done: "s_trans (Done t r s) = s_trans s"
  by (auto simp: Done_def emit_def split: option.split)

lemma trans_handlePeers: "s_trans (snd (handlePeersIfFound s t m)) = s_trans s"
proof -
  have "s_trans (fold (\<lambda>a. emit (f a)) xs s) = s_trans s" for f :: "address \<Rightarrow> effect" and xs s
    by (induction xs arbitrary: s) (auto simp: emit_def)
  then show ?thesis by (simp add: handlePeersIfFound_def trans_Done)
qed

section \<open>Examples for the witnesses\<close>

lemma example_facts [simp]:
  "writes_all example_env" "e_i2p example_env = no_i2p" "s_conf example_server = \<lparr>cK = 8, cID = replicate 20 9,
     cIPProtocols = [4], cReadOnly = False, cMsgSize = 4096, cSearchDepth = 8, cRespTimeout = 10 * second\<rparr>"
  "s_ipv4 example_server" "s_trans example_server = newTransactionManager" "s_rt4 example_server = empty_table"
  "s_want example_server = [WantNodes]" "s_out example_server = []" "s_data example_server = []"
  "s_peers example_server = []" "s_tokens example_server = newTokenManager (ascii ''t'')"
  "s_blacklist example_server = NewMemoryBlacklist 1024"
  by (simp_all add: writes_all_def example_env_def example_server_def)

lemma empty_table_add:
  assumes "wf_hash (ID n)" "ID n \<noteq> replicate 20 9" "\<not> Address_IsIPv6 (Addr n)"
  shows "\<exists>rt. Server_AddNode example_env example_server n = Some (NodeAdded, example_server\<lparr>s_rt4 := rt\<rparr>)"
proof -
  have "wf_hash (replicate 20 9)" by (simp add: wf_hash_def HashSize_def)
  then have "bucketid (replicate 20 9) (ID n) < 160" using bucketid_bound assms(1) by simp
  then show ?thesis using assms(2,3)
    by (simp add: Server_AddNode_def rt_AddNode_def rt_addNode_def bucket_AddNode_def empty_table_def)
       (rule exI, rule refl)
qed

lemma example_request:
  assumes "s_trans s = newTransactionManager" "s_conf s = s_conf example_server" "s_ipv4 s" "tr_ID t = []"
    "tr_Addr t = UDPAddr p q" "length p = 4" "tr_Query t \<noteq> []" "fits (tr_Query t)" "wf_arg (tr_Arg t)"
  shows "\<exists>s' u. request example_env s t = Some (None, s') \<and> u \<in> pending_queries s'"
proof -
  let ?s = "s\<lparr>s_trans := newTransactionManager\<lparr>tx_tid := 1\<rparr>\<rparr>"
  let ?a = "(tr_Arg t)\<lparr>aID := replicate 20 9\<rparr>"
  let ?m = "NewQueryMsg [49] (tr_Query t) ?a"
  have "format36 (Suc 0) = [49]" by (simp add: format36.simps digit36_def)
  then have id: "GetTransactionID newTransactionManager = ([49], newTransactionManager\<lparr>tx_tid := 1\<rparr>)"
    by (simp add: GetTransactionID_def newTransactionManager_def)
  have "wf_message no_i2p ?m"
    using assms(8,9) by (simp add: wf_message_def NewQueryMsg_def zeroMessage_def noResult_def wf_arg_def wf_result_def
        fits_def is_int64_def wf_hash_def zeroHash_def ascii_def HashSize_def)
  then have "server_send example_env ?s (UDPAddr p q) ?m = Some (False, emit (Sent (UDPAddr p q) (?m\<lparr>mRO := False\<rparr>)) ?s)"
    using send_total [of example_env ?m ?s "UDPAddr p q"] assms(2)
    by (simp add: wf_message_plain) (simp add: NewQueryMsg_def ascii_def)
  moreover have "p \<noteq> []" using assms(6) by auto
  ultimately show ?thesis
    using assms(1-6) id
    by (simp add: request_def isDisabled_def IsIPv6Addr_def IP_To4_def AddTransaction_def Addr_String_def
        pending_queries_def emit_def newTransactionManager_def mput_def)
qed

lemma no_nodes:
  assumes "s_rt4 s = empty_table" "aWants a = []" "rNodes r = []"
  shows "populateNodes s (UDPAddr [10, 0, 0, x] p) a h r = r"
  using assms by (cases r) (simp add: populateNodes_def ContainsWant_def populateNodesBasedOnAddress_def
      IsIPv6Addr_def IP_To4_def rt_Closest_def rt_nodes_def empty_table_def)

section \<open>More properties\<close>

text \<open>C23: The recursive search for peers comes to an end: the queries that a response to a query with
  depth \<open>d\<close> causes are \<^verbatim>\<open>get_peers\<close> queries for the same info hash and callback with depth
  \<open>d - 1\<close>, and when \<open>d\<close> is at most 1, or the response brings peers, there are none.\<close>

theorem search_depth_decreases:
  assumes "onGetPeersResponse E s t a m = Some s'" "u \<in> pending_queries s'" "u \<notin> pending_queries s"
  shows "continues t u \<and> rValues (mR m) = []"
proof -
  obtain s1 where s1: "storeTokenIfPresent E s m a = Some s1" "s_trans s1 = s_trans s"
    using assms(1) by (auto simp: onGetPeersResponse_def storeTokenIfPresent_def bind_eq_Some_conv split: if_splits)
  obtain handled s2 where h: "handlePeersIfFound s1 t m = (handled, s2)" by fastforce
  have s2: "s_trans s2 = s_trans s" using trans_handlePeers [of s1 t m] h s1(2) by simp
  let ?t = "t\<lparr>tr_Depth := tr_Depth t - 1\<rparr>"
  have "\<not> handled \<and> \<not> tr_Depth ?t < 1"
    using assms s1(1) h pending_cong [OF s2] pending_cong [of "Done t noResultR s2" s2]
    by (auto simp: onGetPeersResponse_def trans_Done split: if_splits)
  moreover from this obtain found nodes ids s4 where
    p: "process_both E (Done t noResultR s2) ?t (aInfoHash (tr_Arg t)) m = Some (found, nodes, ids, s4)"
    "(if found \<or> nodes = [] then Some s4
      else getPeers_all E s4 (aInfoHash (tr_Arg t)) nodes (tr_Depth t - 1) ids (tr_Callback t)) = Some s'"
    using assms(1) s1(1) h
    by (auto simp: onGetPeersResponse_def processResponseNodes_def bind_eq_Some_conv Let_def cong: if_cong)
  moreover have "pending_queries s4 = pending_queries s"
    using trans_process_both [OF p(1)] s2 by (intro pending_cong) (simp add: trans_Done)
  ultimately have "continues t u"
    using assms(2,3) pending_getPeers_all [of E s4 "aInfoHash (tr_Arg t)" nodes "tr_Depth t - 1" ids "tr_Callback t" s' u]
    by (auto simp: continues_def split: if_splits)
  moreover have "rValues (mR m) = []" using h \<open>\<not> handled \<and> _\<close> by (auto simp: handlePeersIfFound_def split: if_splits)
  ultimately show ?thesis by simp
qed

definition example_query :: transaction where
  "example_query = (newTransaction example_env (UDPAddr [10, 0, 0, 1] 80) (ascii ''get_peers'')
     (noArg\<lparr>aInfoHash := replicate 20 3\<rparr>) None)\<lparr>tr_OnResponse := onGetPeersResp, tr_Depth := 2\<rparr>"

theorem search_depth_decreases_witness:
  "\<exists>s' u. onGetPeersResponse example_env example_server example_query (UDPAddr [10, 0, 0, 1] 80)
      (NewResponseMsg [49] (noResult\<lparr>rNodes := [NewNode (replicate 20 5) [10, 0, 0, 2] 80]\<rparr>)) = Some s' \<and>
    u \<in> pending_queries s' \<and> continues example_query u"
proof -
  let ?n = "NewNode (replicate 20 5) [10, 0, 0, 2] 80"
  let ?m = "NewResponseMsg [49] (noResult\<lparr>rNodes := [?n]\<rparr>)"
  let ?t = "(newTransaction example_env (UDPAddr [10, 0, 0, 2] 80) (ascii ''get_peers'')
      (noArg\<lparr>aInfoHash := replicate 20 3, aWants := [WantNodes]\<rparr>) None)
      \<lparr>tr_OnResponse := onGetPeersResp, tr_Depth := 1, tr_Visited := [replicate 20 5]\<rparr>"
  obtain rt where a: "Server_AddNode example_env example_server ?n = Some (NodeAdded, example_server\<lparr>s_rt4 := rt\<rparr>)"
    using empty_table_add [of ?n]
    by (auto simp: NewNode_def NewAddress_def wf_hash_def HashSize_def Address_IsIPv6_def IP_To4_def)
  obtain s' u where r: "request example_env (example_server\<lparr>s_rt4 := rt\<rparr>) ?t = Some (None, s')" "u \<in> pending_queries s'"
    using example_request [of "example_server\<lparr>s_rt4 := rt\<rparr>" ?t "[10, 0, 0, 2]" 80]
    by (auto simp: newTransaction_def noArg_def wf_arg_def wf_hash_def zeroHash_def HashSize_def fits_def is_int64_def ascii_def)
  have m: "mRO ?m = False" "rNodes (mR ?m) = [?n]" "rNodes6 (mR ?m) = []" "rToken (mR ?m) = []" "rValues (mR ?m) = []"
    by (simp_all add: NewResponseMsg_def zeroMessage_def noResult_def)
  have n: "ID ?n = replicate 20 5" "Address_Addr (Addr ?n) = UDPAddr [10, 0, 0, 2] 80"
    by (simp_all add: NewNode_def NewAddress_def Address_Addr_def)
  have q: "tr_Depth example_query = 2" "tr_Callback example_query = None" "tr_Visited example_query = []"
    "aInfoHash (tr_Arg example_query) = replicate 20 3"
    by (simp_all add: example_query_def newTransaction_def)
  have "onGetPeersResponse example_env example_server example_query (UDPAddr [10, 0, 0, 1] 80) ?m = Some s'"
    using a r(1) m n q
    by (simp add: onGetPeersResponse_def storeTokenIfPresent_def handlePeersIfFound_def Done_def
        processResponseNodes_def process_both_def Hashes_Contains_def server_addNode2_def getPeers_def)
  moreover have "pending_queries example_server = {}"
    by (simp add: pending_queries_def newTransactionManager_def)
  ultimately show ?thesis using search_depth_decreases [of example_env example_server example_query] r(2) by fastforce
qed

text \<open>C40: A search for a node is not recursive, although it is meant to be: whatever nodes the response
  to a \<^verbatim>\<open>FindNode\<close> query holds, handling it changes nothing, because the depth of the search is not
  stored with the query.\<close>

theorem find_node_not_recursive:
  assumes "FindNode E s addr target = Some (None, s')" "t \<in> pending_queries s'" "t \<notin> pending_queries s"
  shows "OnResponse E' s2 t a m = Some s2"
proof -
  let ?t = "(newTransaction E addr (ascii ''find_node'') (noArg\<lparr>aTarget := target, aWants := s_want s\<rparr>) None)
    \<lparr>tr_OnResponse := onFindNodeResp, tr_Visited := []\<rparr>"
  obtain err where "request E s ?t = Some (err, s')"
    using assms(1) by (auto simp: FindNode_def findNode_def bind_eq_Some_conv Let_def split: if_splits)
  from pending_request [OF this assms(2)] assms(3) have "tr_OnResponse t = onFindNodeResp \<and> tr_Depth t = 0"
    by (simp add: newTransaction_def same_query_def)
  then show ?thesis by (simp add: OnResponse_def onFindNodeResponse_def)
qed

theorem find_node_not_recursive_witness:
  "\<exists>s' t. FindNode example_env example_server (UDPAddr [10, 0, 0, 1] 80) (replicate 20 3) = Some (None, s') \<and>
    t \<in> pending_queries s' \<and> OnResponse example_env s' t (UDPAddr [10, 0, 0, 1] 80)
      (NewResponseMsg [49] (noResult\<lparr>rNodes := [NewNode (replicate 20 5) [10, 0, 0, 2] 80]\<rparr>)) = Some s'"
proof -
  let ?t = "(newTransaction example_env (UDPAddr [10, 0, 0, 1] 80) (ascii ''find_node'')
      (noArg\<lparr>aTarget := replicate 20 3, aWants := [WantNodes]\<rparr>) None)
      \<lparr>tr_OnResponse := onFindNodeResp, tr_Visited := []\<rparr>"
  obtain s' t where r: "request example_env example_server ?t = Some (None, s')" "t \<in> pending_queries s'"
    using example_request [of example_server ?t "[10, 0, 0, 1]" 80]
    by (auto simp: newTransaction_def noArg_def wf_arg_def wf_hash_def zeroHash_def HashSize_def fits_def is_int64_def ascii_def)
  then have f: "FindNode example_env example_server (UDPAddr [10, 0, 0, 1] 80) (replicate 20 3) = Some (None, s')"
    by (simp add: FindNode_def findNode_def Hash_IsZero_def zeroHash_def HashSize_def)
  have "t \<notin> pending_queries example_server" by (simp add: pending_queries_def newTransactionManager_def)
  from find_node_not_recursive [OF f r(2) this] show ?thesis using f r(2) by blast
qed

text \<open>C34: The check of the token of an \<^verbatim>\<open>announce_peer\<close> query is the wrong way round. A \<^verbatim>\<open>get_peers\<close> query is
  answered with the current token. The announcement that brings it back, or the token before it, is ignored,
  without an answer, while an announcement from the same address with a token that is neither of the two
  is answered and reported to \<^verbatim>\<open>OnTorrent\<close>.\<close>

theorem announce_token_inverted:
  assumes "writes_all E" "handleGetPeersQuery E s raddr m = Some s1"
  shows "(\<exists>y. s_out s1 = s_out s @ [Sent raddr y, OnSearch (Hash_HexString (aInfoHash (mA m))) raddr] \<and>
      rToken (mR y) = tm_new (s_tokens s)) \<and>
    (aToken (mA m1) \<in> {tm_last (s_tokens s), tm_new (s_tokens s)} \<longrightarrow> handleAnnouncePeerQuery E s1 raddr m1 = Some s1) \<and>
    (aToken (mA m1) \<notin> {tm_last (s_tokens s), tm_new (s_tokens s)} \<and>
       handleAnnouncePeerQuery E s1 raddr m1 = Some s2 \<longrightarrow>
     (\<exists>x. s_out s2 = s_out s1 @ [Sent raddr x, OnTorrent (Hash_HexString (aInfoHash (mA m1))) raddr]))"
proof -
  obtain b r s0 where b: "Addr_String (e_i2p E) raddr = Some b"
    "reply E (s\<lparr>s_tokens := snd (tokenManager_Token (s_tokens s) b (e_now E))\<rparr>) raddr (mT m)
      (r\<lparr>rToken := tm_new (s_tokens s)\<rparr>) = Some s0"
    "s1 = emit (OnSearch (Hash_HexString (aInfoHash (mA m))) raddr) s0"
    using assms(2) by (auto simp: handleGetPeersQuery_def bind_eq_Some_conv Let_def split_beta tokenManager_Token_def)
  have tok: "s_tokens s1 = snd (tokenManager_Token (s_tokens s) b (e_now E))"
    using reply_sent [OF assms(1) b(2)] b(3) by (simp add: emit_def)
  have "\<exists>y. s_out s1 = s_out s @ [Sent raddr y, OnSearch (Hash_HexString (aInfoHash (mA m))) raddr] \<and>
      rToken (mR y) = tm_new (s_tokens s)"
    using reply_sent [OF assms(1) b(2)] b(3) by (simp add: emit_def NewResponseMsg_def)
  then show ?thesis
    using b(1) tok reply_sent [OF assms(1), of s1 raddr "mT m1" noResult]
    by (auto simp: handleAnnouncePeerQuery_def token_known_def tokenManager_Check_def tokenManager_Token_def
        bind_eq_Some_conv emit_def split: if_splits)
qed

theorem announce_token_inverted_witness:
  "\<exists>s1. handleGetPeersQuery example_env example_server (UDPAddr [10, 0, 0, 1] 80)
      (NewQueryMsg [49] (ascii ''get_peers'') (noArg\<lparr>aInfoHash := replicate 20 3\<rparr>)) = Some s1 \<and>
    handleAnnouncePeerQuery example_env s1 (UDPAddr [10, 0, 0, 1] 80)
      (NewQueryMsg [50] (ascii ''announce_peer'') (noArg\<lparr>aToken := ascii ''t''\<rparr>)) = Some s1"
proof -
  let ?a = "UDPAddr [10, 0, 0, 1] 80"
  let ?h = "replicate 20 3"
  let ?m = "NewQueryMsg [49] (ascii ''get_peers'') (noArg\<lparr>aInfoHash := ?h\<rparr>)"
  obtain b where b: "Addr_String no_i2p ?a = Some b" by (simp add: Addr_String_def)
  let ?s = "example_server\<lparr>s_tokens := snd (tokenManager_Token (s_tokens example_server) b (e_now example_env))\<rparr>"
  have "wf_result no_i2p (noResult\<lparr>rToken := ascii ''t'', rID := replicate 20 9\<rparr>)"
    by (simp add: wf_result_def noResult_def fits_def is_int64_def wf_hash_def HashSize_def ascii_def)
  then obtain s0 where r: "reply example_env ?s ?a [49] (noResult\<lparr>rToken := ascii ''t''\<rparr>) = Some s0"
    using reply_total [where E = example_env and tid = "[49]" and r = "noResult\<lparr>rToken := ascii ''t''\<rparr>" and
      s = ?s and a = ?a] by (simp add: fits_def)
  have m: "mA ?m = noArg\<lparr>aInfoHash := ?h\<rparr>" "mT ?m = [49]" by (simp_all add: NewQueryMsg_def)
  have w: "aWants (noArg\<lparr>aInfoHash := ?h\<rparr>) = []" "rNodes noResult = []" "rValues noResult = []"
    by (simp_all add: noArg_def noResult_def)
  have "populatePeersResponse example_server (ContainsWant (noArg\<lparr>aInfoHash := ?h\<rparr>) WantNodes)
      (ContainsWant (noArg\<lparr>aInfoHash := ?h\<rparr>) WantNodes6) ?a ?h noResult = Some noResult"
    using w by (simp add: populatePeersResponse_def ContainsWant_def tokenPeerManager_GetPeers_def noResult_def)
  then have g: "handleGetPeersQuery example_env example_server ?a ?m = Some (emit (OnSearch (Hash_HexString ?h) ?a) s0)"
    using b r w no_nodes [OF _ w(1,2), of example_server 1 80 ?h]
    by (simp add: handleGetPeersQuery_def m tokenManager_Token_def newTokenManager_def)
  have "aToken (mA (NewQueryMsg [50] (ascii ''announce_peer'') (noArg\<lparr>aToken := ascii ''t''\<rparr>))) =
      tm_new (s_tokens example_server)" by (simp add: NewQueryMsg_def newTokenManager_def)
  with announce_token_inverted [OF _ g] g show ?thesis by auto
qed

text \<open>The codes of the errors of \<^verbatim>\<open>put\<close>. Only a bad signature is reported with its own code: the code
  compares the text of the error with a longer text that ends in it, so an outdated sequence
  number and a failed compare-and-swap are reported as a general server error.\<close>

theorem put_error_codes:
  "put_error_code (store_error_Error e) = (if e = InvalidSignature then 206 else 202)"
proof -
  have "x \<noteq> ascii (c # cs) @ x" for x c cs
    using append_self_conv2 [of "ascii (c # cs)" x] by (auto simp: ascii_def)
  moreover have "e = InvalidSignature" if "store_error_Error e = ascii ''invalid signature''"
    using that by (cases e) (simp_all add: store_error_Error_def ascii_def)
  moreover have "store_error_Error InvalidSignature = ascii ''invalid signature''" by (simp add: store_error_Error_def)
  ultimately show ?thesis unfolding put_error_code_def by auto
qed

text \<open>C21: What is put with a query can be read with another. When a \<^verbatim>\<open>put\<close> query is accepted, a \<^verbatim>\<open>get\<close>
  query for its target within two hours, from anywhere, is answered with the value, and for a
  mutable item with the key, the signature and the sequence number it was put with.\<close>

theorem put_query_then_get_query:
  assumes "writes_all E" "writes_all E'" "handlePutQuery E s raddr m = Some s1"
    "DataStore_Put (e_verify E) (s_data s) (put_item (mA m)) (e_now E) = Inr ds"
    "e_now E' - e_now E \<le> DataExpirationTime" "aTarget (mA m') = ComputeTarget (put_item (mA m))"
    "handleGetQuery E' s1 raddr' m' = Some s2"
  shows "\<exists>x. s_out s2 = s_out s1 @ [Sent raddr' x] \<and> mT x = mT m' \<and> rV (mR x) = aV (mA m) \<and>
    (aK (mA m) \<noteq> [] \<longrightarrow> rK (mR x) = aK (mA m) \<and> rSig (mR x) = aSig (mA m) \<and> rSeq (mR x) = aSeq (mA m))"
proof -
  let ?t = "ComputeTarget (put_item (mA m))"
  let ?i = "(put_item (mA m))\<lparr>si_Target := ?t, si_StoredAt := e_now E\<rparr>"
  from assms(4) have ds: "ds = mput (s_data s) ?t ?i"
    and l: "length (aV (mA m)) \<le> MaxValueSize" "length (aSalt (mA m)) \<le> MaxSaltSize"
    by (auto elim!: Put_cases simp: put_item_def Hash_IsZero_def)
  have "s_data s1 = ds"
    using assms(3,4) l reply_sent [OF assms(1), of "s\<lparr>s_data := ds\<rparr>" raddr "mT m" noResult s1]
    by (auto simp: handlePutQuery_def emit_def)
  then have "DataStore_Get (s_data s1) (aTarget (mA m')) (e_now E') = Some ?i"
    using assms(5,6) by (simp add: ds DataStore_Get_def StorageItem_IsExpired_def)
  then have g: "reply E' s1 raddr' (mT m') (populateNodes s1 raddr' (mA m') (aTarget (mA m')) (item_result (Some ?i))) = Some s2"
    using assms(7) by (simp add: handleGetQuery_def)
  have keep: "rV (populateNodes s1 a q h r) = rV r" "rK (populateNodes s1 a q h r) = rK r"
    "rSig (populateNodes s1 a q h r) = rSig r" "rSeq (populateNodes s1 a q h r) = rSeq r" for a q h r
    by (simp_all add: populateNodes_def populateNodesBasedOnAddress_def populateRequestedNodes_def Let_def)
  show ?thesis using reply_sent [OF assms(2) g]
    by (auto simp: emit_def NewResponseMsg_def keep item_result_def put_item_def)
qed

theorem put_query_then_get_query_witness:
  "\<exists>s1 s2 x. handlePutQuery example_env example_server (UDPAddr [10, 0, 0, 1] 80)
      (NewQueryMsg [49] (ascii ''put'') (noArg\<lparr>aV := [7]\<rparr>)) = Some s1 \<and>
    handleGetQuery example_env s1 (UDPAddr [10, 0, 0, 2] 80) (NewQueryMsg [50] (ascii ''get'')
      (noArg\<lparr>aTarget := ComputeTarget (put_item (noArg\<lparr>aV := [7]\<rparr>))\<rparr>)) = Some s2 \<and>
    s_out s2 = s_out s1 @ [Sent (UDPAddr [10, 0, 0, 2] 80) x] \<and> rV (mR x) = [7]"
proof -
  define i where "i = put_item (noArg\<lparr>aV := [7]\<rparr>)"
  let ?m = "NewQueryMsg [49] (ascii ''put'') (noArg\<lparr>aV := [7]\<rparr>)"
  let ?g = "NewQueryMsg [50] (ascii ''get'') (noArg\<lparr>aTarget := ComputeTarget i\<rparr>)"
  have m: "mA ?m = noArg\<lparr>aV := [7]\<rparr>" "mT ?m = [49]" "mT ?g = [50]" "mA ?g = noArg\<lparr>aTarget := ComputeTarget i\<rparr>"
    by (simp_all add: NewQueryMsg_def)
  have i: "si_Value i = [7]" "\<not> si_IsMutable i" "Hash_IsZero (si_Target i)" "si_Salt i = []"
    by (simp_all add: i_def put_item_def noArg_def Hash_IsZero_def)
  let ?ds = "mput [] (ComputeTarget i) (i\<lparr>si_Target := ComputeTarget i, si_StoredAt := 0\<rparr>)"
  have now: "e_now example_env = 0" by (simp add: example_env_def)
  have ds: "DataStore_Put (e_verify example_env) [] i 0 = Inr ?ds"
    using i by (simp add: DataStore_Put_def check_existing_def Let_def)
  let ?s = "example_server\<lparr>s_data := ?ds\<rparr>"
  have "wf_result no_i2p (noResult\<lparr>rV := v, rID := replicate 20 9\<rparr>)" if "v \<in> {[], [7]}" for v
    using that by (auto simp: wf_result_def noResult_def fits_def is_int64_def wf_hash_def HashSize_def)
  then have w: "wf_result no_i2p (noResult\<lparr>rID := replicate 20 9\<rparr>)" "wf_result no_i2p (noResult\<lparr>rV := [7], rID := replicate 20 9\<rparr>)"
    using wf_noResult by (auto simp: wf_hash_def HashSize_def)
  obtain s1 where r: "reply example_env ?s (UDPAddr [10, 0, 0, 1] 80) [49] noResult = Some s1"
    and s1: "s_rt4 s1 = empty_table" "s_conf s1 = s_conf example_server" "s_data s1 = ?ds"
    using w(1) reply_total [where E = example_env and tid = "[49]" and r = noResult and s = ?s and
      a = "UDPAddr [10, 0, 0, 1] 80"] by (simp add: fits_def emit_def)
  have p: "handlePutQuery example_env example_server (UDPAddr [10, 0, 0, 1] 80) ?m = Some s1"
    using ds r by (simp add: handlePutQuery_def m now i_def [symmetric]) (simp add: noArg_def)
  have "item_result (DataStore_Get ?ds (ComputeTarget i) 0) = noResult\<lparr>rV := [7]\<rparr>"
    using i by (simp add: item_result_def DataStore_Get_def StorageItem_IsExpired_def)
  moreover have "aWants (noArg\<lparr>aTarget := ComputeTarget i\<rparr>) = []" "rNodes (noResult\<lparr>rV := [7]\<rparr>) = []"
    by (simp_all add: noArg_def noResult_def)
  ultimately obtain s2 where g: "handleGetQuery example_env s1 (UDPAddr [10, 0, 0, 2] 80) ?g = Some s2"
    using s1 w(2) reply_total [where E = example_env and tid = "[50]" and r = "noResult\<lparr>rV := [7]\<rparr>" and s = s1 and
      a = "UDPAddr [10, 0, 0, 2] 80"] by (simp add: handleGetQuery_def m now no_nodes fits_def)
  have "DataStore_Put (e_verify example_env) (s_data example_server) (put_item (mA ?m)) (e_now example_env) = Inr ?ds"
    using ds by (simp add: m now i_def)
  moreover have "aTarget (mA ?g) = ComputeTarget (put_item (mA ?m))" unfolding m by (simp add: i_def)
  moreover have "e_now example_env - e_now example_env \<le> DataExpirationTime" by simp
  ultimately obtain x where "s_out s2 = s_out s1 @ [Sent (UDPAddr [10, 0, 0, 2] 80) x]" "rV (mR x) = aV (mA ?m)"
    using put_query_then_get_query [OF example_facts(1) example_facts(1) p _ _ _ g] by blast
  moreover have "aV (mA ?m) = [7]" by (simp add: m)
  ultimately show ?thesis using p g unfolding i_def by metis
qed

lemma same_node_differs:
  assumes "p \<noteq> []"
  shows "Address_Equal L \<lparr>IP = IPAddr p, Port = port\<rparr> \<lparr>IP = UDPAddr p q, Port = port\<rparr> = Some False"
proof -
  have "JoinHostPort h d \<noteq> h" for h d
  proof
    assume "JoinHostPort h d = h"
    then have "length (JoinHostPort h d) = length h" by simp
    then show False by (simp add: JoinHostPort_def split: if_splits)
  qed
  then show ?thesis by (auto simp: Address_Equal_def Addr_String_def eq_commute)
qed

lemma bucket_AddNode_added:
  assumes "bucket_AddNode L k b n now = Some (b', NodeAdded)"
  shows "find (\<lambda>w. ID (WNode w) = ID n) (Nodes b') = Some \<lparr>WNode = n, WChanged = now\<rparr>"
proof -
  have f: "find P (xs @ [y]) = Some y" if "\<forall>x \<in> set xs. \<not> P x" "P y" for P xs and y :: wrapped_node
    using that by (induction xs) auto
  have none: "find (\<lambda>w. ID (WNode w) = ID n) (Nodes b) = None"
    using assms by (auto simp: bucket_AddNode_def split: option.splits bool.splits)
  then have no: "\<forall>w \<in> set (Nodes b). ID (WNode w) \<noteq> ID n" by (auto simp: find_None_iff)
  show ?thesis
  proof (cases "int (length (Nodes b)) < k")
    case True
    then show ?thesis using assms none no f by (auto simp: bucket_AddNode_def)
  next
    case False
    then obtain i where i: "index_of (\<lambda>w. wrappedNode_IsBad w now) (Nodes b) = Some i"
      "Nodes b' = (take i (Nodes b) @ drop (Suc i) (Nodes b) @ [last (Nodes b)]) @ [\<lparr>WNode = n, WChanged = now\<rparr>]"
      using assms none by (auto simp: bucket_AddNode_def split: option.splits)
    have ne: "Nodes b \<noteq> []" using i(1) by auto
    have "\<forall>w \<in> set (take i (Nodes b) @ drop (Suc i) (Nodes b) @ [last (Nodes b)]). ID (WNode w) \<noteq> ID n"
      using no ne by (auto dest: in_set_takeD in_set_dropD)
    then show ?thesis unfolding i(2) by (intro f) auto
  qed
qed

text \<open>C39: A node that was learned from a list of compact nodes and then sends a query from that very
  address is taken for an impostor: it is put on the blacklist and its query is not answered. The
  stored address is an IP, the address of the query an IP with a port, and their texts differ.\<close>

theorem learned_node_blacklisted:
  assumes "server_ok v s" "Server_AddNode E s (NewNode nid p port) = Some (NodeAdded, s1)"
    "length p = 4" "wf_hash nid" "\<not> Hash_IsZero nid" "0 < port" "port < 65536"
    "length (bl_ips (s_blacklist s)) < 1024"
    "mY m = ascii ''q''" "aID (mA m) = nid" "\<not> mRO m"
  shows "\<exists>s2. handleMessage E' s1 (UDPAddr p port) m = Some s2 \<and> s_out s2 = s_out s1 \<and>
    blacklist_In (s_blacklist s2) (IP_String p) port"
proof -
  let ?n = "\<lparr>ID = nid, Addr = \<lparr>IP = IPAddr p, Port = of_int port\<rparr>\<rparr>"
  let ?i = "bucketid (rt_root (s_rt4 s)) nid"
  have n: "NewNode nid p port = ?n" by (simp add: NewNode_def NewAddress_def)
  have p: "\<not> Address_IsIPv6 \<lparr>IP = IPAddr p, Port = q\<rparr>" "\<not> Address_IsIPv6 \<lparr>IP = UDPAddr p r, Port = q\<rparr>" "p \<noteq> []" for q r
    using assms(3) by (auto simp: Address_IsIPv6_def IP_To4_def)
  obtain rt where rt: "s_ipv4 s" "rt_AddNode (e_i2p E) (s_rt4 s) ?n (e_now E) = Some (rt, NodeAdded)" "s1 = s\<lparr>s_rt4 := rt\<rparr>"
    using assms(2) p by (auto simp: Server_AddNode_def n bind_eq_Some_conv split: if_splits)
  then obtain b where b: "nid \<noteq> rt_root (s_rt4 s)" "rt = (s_rt4 s)\<lparr>rt_bkts := (rt_bkts (s_rt4 s))[?i := b]\<rparr>"
    "bucket_AddNode (e_i2p E) (rt_k (s_rt4 s)) (rt_bkts (s_rt4 s) ! ?i) ?n (e_now E) = Some (b, NodeAdded)"
    by (auto simp: rt_AddNode_def rt_addNode_def Let_def split: if_splits option.splits)
  have i: "?i < length (rt_bkts (s_rt4 s))"
    using assms(1,4) bucketid_bound placedD(1,2) by (metis server_ok_def)
  have "find (\<lambda>w. ID (WNode w) = nid) (Nodes b) = Some \<lparr>WNode = ?n, WChanged = e_now E\<rparr>"
    using bucket_AddNode_added [OF b(3)] by simp
  then have "rt_AddNode (e_i2p E') rt \<lparr>ID = nid, Addr = \<lparr>IP = UDPAddr p port, Port = of_int port\<rparr>\<rparr> (e_now E') =
      Some (rt, NodeExistAndChanged)"
    using b(1) i same_node_differs [OF p(3)]
    by (simp add: b(2) rt_AddNode_def rt_addNode_def bucket_AddNode_def)
  then have "server_addNode E' s1 (UDPAddr p port) nid False = Some (NodeExistAndChanged,
      s1\<lparr>s_blacklist := blacklist_Add (s_blacklist s1) (IP_String p) port (e_now E')\<rparr>)"
    using rt(1,3) p by (simp add: server_addNode_def NewNodeByUDPAddr_def Address_FromAddr_def utils_Port_def
        utils_IPAddr_def Server_AddNode_def)
  moreover have "blacklist_In (blacklist_Add (s_blacklist s1) (IP_String p) port now) (IP_String p) port" for now
    using assms(1,6,8) rt(3) by (auto simp: server_ok_def blacklist_ok_def blacklist_In_def blacklist_Add_def split: option.split)
  ultimately show ?thesis
    using assms(5,9-11) by (simp add: handleMessage_def handleQueryMessage_def)
qed

theorem learned_node_blacklisted_witness:
  "\<exists>s1 s2. Server_AddNode example_env example_server (NewNode (replicate 20 5) [10, 0, 0, 2] 80) = Some (NodeAdded, s1) \<and>
    handleMessage example_env s1 (UDPAddr [10, 0, 0, 2] 80)
      (NewQueryMsg [49] (ascii ''ping'') (noArg\<lparr>aID := replicate 20 5\<rparr>)) = Some s2 \<and> s_out s2 = s_out s1 \<and>
    blacklist_In (s_blacklist s2) (IP_String [10, 0, 0, 2]) 80"
proof -
  let ?n = "NewNode (replicate 20 5) [10, 0, 0, 2] 80"
  obtain rt where a: "Server_AddNode example_env example_server ?n = Some (NodeAdded, example_server\<lparr>s_rt4 := rt\<rparr>)"
    using empty_table_add [of ?n]
    by (auto simp: NewNode_def NewAddress_def wf_hash_def HashSize_def Address_IsIPv6_def IP_To4_def)
  have ok: "server_ok (\<lambda>_ _ _. False) example_server" by (rule dht.reach_inv [OF example_server_reach])
  show ?thesis
    using a learned_node_blacklisted [OF ok a, where E' = example_env and
      m = "NewQueryMsg [49] (ascii ''ping'') (noArg\<lparr>aID := replicate 20 5\<rparr>)"]
    by (simp add: NewQueryMsg_def zeroMessage_def wf_hash_def HashSize_def Hash_IsZero_def zeroHash_def
        NewMemoryBlacklist_def)
qed

end
