(* ===== verification/StructDecode.thy ===== *)
theory StructDecode
  imports Krpc "HOL-Library.Multiset"
begin

text \<open>
  Decoding into typed values, the rest of \<^verbatim>\<open>bencode/decode.go\<close>: structs with field tags, slices,
  maps, and the scalar kinds. A target is a function from its current value and the input to its new
  value and what is left, as \<^verbatim>\<open>reflect\<close> stores into a value in place; after an error
  the partly filled value is dropped, as all callers in the repository do. A struct type is the list
  of its fields, each with its tag and the decoder of its type.
\<close>

type_synonym 'a decoder = "'a \<Rightarrow> bytes \<Rightarrow> bencode_error + 'a \<times> bytes"

section \<open>Kinds\<close>

text \<open>
  \<^verbatim>\<open>dispatchDecodeByType\<close> for a target that stores the digits of an integer with \<open>num\<close>, a string with
  \<open>str\<close>, and continues behind the token of a list or a dictionary with \<open>lst\<close> and \<open>dict\<close>.
\<close>

definition dispatchDecodeByType ::
  "(bytes \<Rightarrow> bencode_error + 'a) \<Rightarrow> (bytes \<Rightarrow> bencode_error + 'a) \<Rightarrow>
   (bytes \<Rightarrow> bencode_error + 'a \<times> bytes) \<Rightarrow> (bytes \<Rightarrow> bencode_error + 'a \<times> bytes) \<Rightarrow>
   bytes \<Rightarrow> bencode_error + 'a \<times> bytes" where
  "dispatchDecodeByType num str lst dict bs =
     (case bs of
        [] \<Rightarrow> Inl EOF
      | c # r \<Rightarrow>
          if c = 105 then
            (case readIntegerDigits r of
               Inl e \<Rightarrow> Inl e
             | Inr (digits, r') \<Rightarrow> (case num digits of Inl e \<Rightarrow> Inl e | Inr v \<Rightarrow> Inr (v, r')))
          else if 48 \<le> c \<and> c \<le> 57 then
            (case decodeString bs of
               Inl e \<Rightarrow> Inl e
             | Inr (s, r') \<Rightarrow> (case str s of Inl e \<Rightarrow> Inl e | Inr v \<Rightarrow> Inr (v, r')))
          else if c = 108 then lst r
          else if c = 100 then dict r
          else Inl InvalidInput)"

definition cannot :: "bytes \<Rightarrow> bencode_error + 'a" where
  "cannot _ = Inl CannotStore"

definition into_int :: "nat \<Rightarrow> int decoder" where
  "into_int w cur = dispatchDecodeByType
     (\<lambda>ds. case assignIntegerValue (ToInt w) ds of Inr (GInt i) \<Rightarrow> Inr i | Inr _ \<Rightarrow> Inl CannotStore | Inl e \<Rightarrow> Inl e)
     cannot cannot cannot"

definition into_uint :: "nat \<Rightarrow> nat decoder" where
  "into_uint w cur = dispatchDecodeByType
     (\<lambda>ds. case assignIntegerValue (ToUint w) ds of Inr (GUint n) \<Rightarrow> Inr n | Inr _ \<Rightarrow> Inl CannotStore | Inl e \<Rightarrow> Inl e)
     cannot cannot cannot"

definition into_bool :: "bool decoder" where
  "into_bool cur = dispatchDecodeByType
     (\<lambda>ds. case assignIntegerValue ToBool ds of Inr (GBool b) \<Rightarrow> Inr b | Inr _ \<Rightarrow> Inl CannotStore | Inl e \<Rightarrow> Inl e)
     cannot cannot cannot"

definition into_string :: "bytes decoder" where
  "into_string cur = dispatchDecodeByType cannot Inr cannot cannot"

section \<open>Slices\<close>

text \<open>
  The element \<open>i\<close> is decoded into the one that is there, or into a zero value when the slice had to
  grow; elements of the old slice behind the last one decoded stay.
\<close>

fun into_elements :: "nat \<Rightarrow> 'a \<Rightarrow> 'a decoder \<Rightarrow> 'a list decoder" where
  "into_elements 0 zero d cur bs = Inl OutOfFuel"
| "into_elements (Suc f) zero d cur bs =
     (case bs of
        [] \<Rightarrow> Inl EOF
      | c # r \<Rightarrow>
          if c = 101 then Inr (cur, r)
          else (case d (case cur of [] \<Rightarrow> zero | x # _ \<Rightarrow> x) bs of
                  Inl e \<Rightarrow> Inl e
                | Inr (v, r1) \<Rightarrow>
                    (case into_elements f zero d (tl cur) r1 of
                       Inl e \<Rightarrow> Inl e | Inr (vs, r2) \<Rightarrow> Inr (v # vs, r2))))"

definition into_slice :: "'a \<Rightarrow> 'a decoder \<Rightarrow> 'a list decoder" where
  "into_slice zero d cur = dispatchDecodeByType cannot cannot
     (\<lambda>r. into_elements (Suc (length r)) zero d cur r) cannot"

text \<open>A \<^verbatim>\<open>[]byte\<close> takes a string, or a list of integers.\<close>

definition into_byte_slice :: "bytes decoder" where
  "into_byte_slice cur = dispatchDecodeByType cannot Inr
     (\<lambda>r. into_elements (Suc (length r)) 0
        (\<lambda>b bs. case into_uint 8 (unat b) bs of Inl e \<Rightarrow> Inl e | Inr (n, r) \<Rightarrow> Inr (of_nat n, r)) cur r) cannot"

section \<open>Maps and structs\<close>

text \<open>
  A dictionary into a map: the element is a fresh zero value for each key. Keys are read as strings;
  their order is only checked when the decoder was told so.
\<close>

fun into_map_pairs :: "nat \<Rightarrow> bool \<Rightarrow> bytes option \<Rightarrow> 'a \<Rightarrow> 'a decoder \<Rightarrow> (bytes, 'a) gomap decoder" where
  "into_map_pairs 0 fu lastKey zero d m bs = Inl OutOfFuel"
| "into_map_pairs (Suc f) fu lastKey zero d m bs =
     (case bs of
        [] \<Rightarrow> Inl EOF
      | c # r \<Rightarrow>
          if c = 101 then Inr (m, r)
          else (case decodeString bs of
                  Inl e \<Rightarrow> Inl e
                | Inr (key, r1) \<Rightarrow>
                    if \<not> validateKeyOrder fu lastKey key then Inl (Unordered (the lastKey) key)
                    else (case d zero r1 of
                            Inl e \<Rightarrow> Inl e
                          | Inr (v, r2) \<Rightarrow> into_map_pairs f fu (Some key) zero d (mput m key v) r2)))"

definition into_map :: "bool \<Rightarrow> 'a \<Rightarrow> 'a decoder \<Rightarrow> (bytes, 'a) gomap decoder" where
  "into_map fu zero d m = dispatchDecodeByType cannot cannot cannot
     (\<lambda>r. into_map_pairs (Suc (length r)) fu None zero d m r)"

text \<open>A field of a struct type; the fields of an embedded struct are those of its last component.\<close>

datatype (dead 's) tfield =
  TField (tf_name: bytes) (tf_tag: bytes) (tf_exported: bool) (tf_anonymous: bool) (tf_decode: "'s decoder")
    (tf_embedded: "'s tfield list")

definition extractFieldName :: "'s tfield \<Rightarrow> bytes" where
  "extractFieldName f =
     (let name = fst (parseTag (tf_tag f))
      in if name = [] then (if tf_anonymous f then [] else tf_name f) else name)"

fun processRegularFields :: "(bytes, 's decoder) gomap \<Rightarrow> 's tfield list \<Rightarrow> (bytes, 's decoder) gomap" where
  "processRegularFields m [] = m"
| "processRegularFields m (f # fs) =
     processRegularFields
       (if tf_exported f \<and> extractFieldName f \<noteq> [] \<and> isValidTag (extractFieldName f)
        then mput m (extractFieldName f) (tf_decode f) else m) fs"

lemma size_tf_embedded [termination_simp]: "size_list size (tf_embedded f) < Suc (size f + n)"
  by (cases f) simp

text \<open>Embedded structs first, so that the fields of the struct itself win.\<close>

fun processEmbeddedFields :: "(bytes, 's decoder) gomap \<Rightarrow> 's tfield list \<Rightarrow> (bytes, 's decoder) gomap" where
  "processEmbeddedFields m [] = m"
| "processEmbeddedFields m (f # fs) =
     processEmbeddedFields
       (if tf_exported f \<and> tf_anonymous f \<and> tf_tag f = []
        then processRegularFields (processEmbeddedFields m (tf_embedded f)) (tf_embedded f) else m) fs"

definition setStructValues :: "(bytes, 's decoder) gomap \<Rightarrow> 's tfield list \<Rightarrow> (bytes, 's decoder) gomap" where
  "setStructValues m fs = processRegularFields (processEmbeddedFields m fs) fs"

text \<open>A key that is no field is decoded into an \<^verbatim>\<open>interface{}\<close> and dropped.\<close>

definition skipInvalidValue :: "bool \<Rightarrow> 's decoder" where
  "skipInvalidValue fu s bs = (case Decode fu bs of Inl e \<Rightarrow> Inl e | Inr (_, r) \<Rightarrow> Inr (s, r))"

definition handleKeyValuePair :: "bool \<Rightarrow> (bytes, 's decoder) gomap \<Rightarrow> bytes \<Rightarrow> 's decoder" where
  "handleKeyValuePair fu vals key =
     (case map_of vals key of None \<Rightarrow> skipInvalidValue fu | Some d \<Rightarrow> d)"

fun into_struct_pairs :: "nat \<Rightarrow> bool \<Rightarrow> bytes option \<Rightarrow> (bytes, 's decoder) gomap \<Rightarrow> 's decoder" where
  "into_struct_pairs 0 fu lastKey vals s bs = Inl OutOfFuel"
| "into_struct_pairs (Suc f) fu lastKey vals s bs =
     (case bs of
        [] \<Rightarrow> Inl EOF
      | c # r \<Rightarrow>
          if c = 101 then Inr (s, r)
          else (case decodeString bs of
                  Inl e \<Rightarrow> Inl e
                | Inr (key, r1) \<Rightarrow>
                    if \<not> validateKeyOrder fu lastKey key then Inl (Unordered (the lastKey) key)
                    else (case handleKeyValuePair fu vals key s r1 of
                            Inl e \<Rightarrow> Inl e
                          | Inr (s', r2) \<Rightarrow> into_struct_pairs f fu (Some key) vals s' r2)))"

definition into_struct :: "bool \<Rightarrow> 's tfield list \<Rightarrow> 's decoder" where
  "into_struct fu fs s = dispatchDecodeByType cannot cannot cannot
     (\<lambda>r. into_struct_pairs (Suc (length r)) fu None (setStructValues [] fs) s r)"

text \<open>A type with an \<^verbatim>\<open>UnmarshalBencode\<close> method, and the place of a type in a struct.\<close>

definition into_unmarshaler :: "('a \<Rightarrow> bytes \<Rightarrow> 'e + 'a) \<Rightarrow> 'a decoder" where
  "into_unmarshaler u cur = handleUnmarshalerInterface
     (\<lambda>b. case u cur b of Inl e \<Rightarrow> Inl (MarshalError ''unmarshal'') | Inr v \<Rightarrow> Inr v)"

definition at_field :: "('s \<Rightarrow> 'a) \<Rightarrow> ('a \<Rightarrow> 's \<Rightarrow> 's) \<Rightarrow> 'a decoder \<Rightarrow> 's decoder" where
  "at_field get put d s bs = (case d (get s) bs of Inl e \<Rightarrow> Inl e | Inr (v, r) \<Rightarrow> Inr (put v s, r))"

definition tagged :: "string \<Rightarrow> string \<Rightarrow> ('s \<Rightarrow> 'a) \<Rightarrow> ('a \<Rightarrow> 's \<Rightarrow> 's) \<Rightarrow> 'a decoder \<Rightarrow> 's tfield" where
  "tagged name tag get put d = TField (ascii name) (ascii tag) True False (at_field get put d) []"

section \<open>Termination\<close>

text \<open>
  What the loops need of the decoder of an element: it takes at least one byte when it succeeds, and
  does not run out of fuel.
\<close>

locale total_decoder =
  fixes d :: "'a decoder"
  assumes shorter: "d cur bs = Inr (v, r) \<Longrightarrow> length r < length bs"
    and enough: "d cur bs \<noteq> Inl OutOfFuel"
begin

lemma elements_shorter: "into_elements f zero d cur bs = Inr (v, r) \<Longrightarrow> length r < length bs"
proof (induction f arbitrary: cur bs v)
  case (Suc f)
  then show ?case by (fastforce split: list.splits if_splits sum.splits prod.splits dest: shorter)
qed simp

lemma elements_enough: "length bs < f \<Longrightarrow> into_elements f zero d cur bs \<noteq> Inl OutOfFuel"
proof (induction f arbitrary: cur bs)
  case (Suc f)
  show ?case
  proof
    assume "into_elements (Suc f) zero d cur bs = Inl OutOfFuel"
    then obtain v r where "d (case cur of [] \<Rightarrow> zero | x # _ \<Rightarrow> x) bs = Inr (v, r)"
      "into_elements f zero d (tl cur) r = Inl OutOfFuel"
      by (auto simp: enough split: list.splits if_splits sum.splits)
    then show False using Suc.IH [of r "tl cur"] shorter Suc.prems by fastforce
  qed
qed simp

lemma map_pairs_shorter: "into_map_pairs f fu lk zero d m bs = Inr (v, r) \<Longrightarrow> length r < length bs"
proof (induction f arbitrary: lk m bs)
  case (Suc f)
  then show ?case
    by (fastforce split: list.splits if_splits sum.splits prod.splits dest: shorter decodeString_shorter)
qed simp

lemma map_pairs_enough: "length bs < f \<Longrightarrow> into_map_pairs f fu lk zero d m bs \<noteq> Inl OutOfFuel"
proof (induction f arbitrary: lk m bs)
  case (Suc f)
  show ?case
  proof
    assume "into_map_pairs (Suc f) fu lk zero d m bs = Inl OutOfFuel"
    then obtain key r1 v r2 where "decodeString bs = Inr (key, r1)" "d zero r1 = Inr (v, r2)"
      "into_map_pairs f fu (Some key) zero d (mput m key v) r2 = Inl OutOfFuel"
      by (auto simp: enough split: list.splits if_splits sum.splits)
    then show False using Suc.IH [of r2 "Some key" "mput m key v"] shorter [of zero r1 v r2]
        decodeString_shorter [of bs key r1] Suc.prems by fastforce
  qed
qed simp

end

lemma dispatch_total:
  assumes "\<And>cur ds. num cur ds \<noteq> Inl OutOfFuel" "\<And>cur s. str cur s \<noteq> Inl OutOfFuel"
    "\<And>cur r v r'. lst cur r = Inr (v, r') \<Longrightarrow> length r' < length r" "\<And>cur r. lst cur r \<noteq> Inl OutOfFuel"
    "\<And>cur r v r'. dict cur r = Inr (v, r') \<Longrightarrow> length r' < length r" "\<And>cur r. dict cur r \<noteq> Inl OutOfFuel"
  shows "total_decoder (\<lambda>cur. dispatchDecodeByType (num cur) (str cur) (lst cur) (dict cur))"
  using assms
  by unfold_locales (auto simp: dispatchDecodeByType_def readIntegerDigits_def less_Suc_eq
      dest!: readBytes_SomeD decodeString_shorter split: list.splits if_splits sum.splits option.splits)

lemma cannot_simps [simp]: "cannot x \<noteq> Inl OutOfFuel" "cannot x \<noteq> Inr y"
  by (simp_all add: cannot_def)

declare into_elements.simps(2) [simp del] into_map_pairs.simps(2) [simp del] into_struct_pairs.simps(2) [simp del]

lemma scalars_total:
  "total_decoder (into_int w)" "total_decoder (into_uint w)" "total_decoder into_bool" "total_decoder into_string"
  unfolding into_int_def into_uint_def into_bool_def into_string_def
  by (rule dispatch_total; auto simp: assignIntegerValue_def split: sum.split)+

lemma slice_total: "total_decoder d \<Longrightarrow> total_decoder (into_slice zero d)"
  unfolding into_slice_def
  by (rule dispatch_total) (auto simp: total_decoder.elements_enough dest: total_decoder.elements_shorter)

lemma byte_slice_total: "total_decoder into_byte_slice"
proof -
  have "total_decoder (\<lambda>b bs. case into_uint 8 (unat b) bs of Inl e \<Rightarrow> Inl e | Inr (n, r) \<Rightarrow> Inr (of_nat n, r))"
    using scalars_total(2) [of 8] by (auto simp: total_decoder_def split: sum.splits)
  then show ?thesis unfolding into_byte_slice_def
    by (intro dispatch_total) (auto simp: total_decoder.elements_enough dest: total_decoder.elements_shorter)
qed

lemma map_total: "total_decoder d \<Longrightarrow> total_decoder (into_map fu zero d)"
  unfolding into_map_def
  by (rule dispatch_total) (auto simp: total_decoder.map_pairs_enough dest: total_decoder.map_pairs_shorter)

lemma at_field_total: "total_decoder d \<Longrightarrow> total_decoder (at_field get put d)"
  by (auto simp: total_decoder_def at_field_def split: sum.splits)

lemma skip_total: "total_decoder (skipInvalidValue fu)"
proof
  fix cur v :: 'a and bs r assume "skipInvalidValue fu cur bs = Inr (v, r)"
  then show "length r < length bs"
    by (auto simp: skipInvalidValue_def split: sum.splits dest!: Decode_prefix)
next
  fix cur :: 'a and bs
  show "skipInvalidValue fu cur bs \<noteq> Inl OutOfFuel"
    using Decode_fuel [of fu bs] by (auto simp: skipInvalidValue_def split: sum.split)
qed

text \<open>Raw mode ends, so that the types with methods do.\<close>

lemma raw_string_shorter: "raw_string bs = Inr (b, r) \<Longrightarrow> length r < length bs"
  by (auto simp: raw_string_def split: option.splits sum.splits if_splits dest!: readBytes_SomeD readFull_InrD)

lemma raw_shorter:
  "(\<forall>b r. raw_into f bs = Inr (b, r) \<longrightarrow> length r < length bs) \<and>
   (\<forall>b r. processListInRawMode f bs = Inr (b, r) \<longrightarrow> length r < length bs) \<and>
   (\<forall>b r. processDictInRawMode f bs = Inr (b, r) \<longrightarrow> length r < length bs)"
proof (induction f arbitrary: bs)
  case (Suc f)
  show ?case
    by (intro conjI allI impI;
        fastforce split: list.splits if_splits sum.splits option.splits prod.splits
        dest: Suc [THEN conjunct1, rule_format] Suc [THEN conjunct2, THEN conjunct1, rule_format]
          Suc [THEN conjunct2, THEN conjunct2, rule_format] raw_string_shorter readBytes_SomeD)
qed simp

lemmas raw_into_shorter = raw_shorter [THEN conjunct1, rule_format]

lemma raw_enough:
  "(\<forall>bs. 2 * length bs \<le> f \<and> 0 < f \<longrightarrow> raw_into f bs \<noteq> Inl OutOfFuel) \<and>
   (\<forall>bs. 2 * length bs < f \<longrightarrow> processListInRawMode f bs \<noteq> Inl OutOfFuel) \<and>
   (\<forall>bs. 2 * length bs < f \<longrightarrow> processDictInRawMode f bs \<noteq> Inl OutOfFuel)"
proof (induction f)
  case (Suc f)
  then have D: "\<And>bs. 2 * length bs \<le> f \<Longrightarrow> 0 < f \<Longrightarrow> raw_into f bs \<noteq> Inl OutOfFuel"
    and L: "\<And>bs. 2 * length bs < f \<Longrightarrow> processListInRawMode f bs \<noteq> Inl OutOfFuel"
    and P: "\<And>bs. 2 * length bs < f \<Longrightarrow> processDictInRawMode f bs \<noteq> Inl OutOfFuel"
    by blast+
  show ?case
  proof (intro conjI allI impI)
    fix bs :: bytes assume "2 * length bs \<le> Suc f \<and> 0 < Suc f"
    then show "raw_into (Suc f) bs \<noteq> Inl OutOfFuel"
      using L [of "tl bs"] P [of "tl bs"] by (cases bs) (auto split: sum.splits option.splits)
  next
    fix bs :: bytes assume len: "2 * length bs < Suc f"
    show "processListInRawMode (Suc f) bs \<noteq> Inl OutOfFuel"
    proof (cases bs)
      case (Cons c r)
      then have d: "raw_into f bs \<noteq> Inl OutOfFuel" using len by (intro D) auto
      have "processListInRawMode f r1 \<noteq> Inl OutOfFuel" if "raw_into f bs = Inr (v, r1)" for v r1
        using raw_into_shorter [OF that] len by (intro L) simp
      then show ?thesis using Cons d by (auto split: sum.split)
    qed simp
  next
    fix bs :: bytes assume len: "2 * length bs < Suc f"
    show "processDictInRawMode (Suc f) bs \<noteq> Inl OutOfFuel"
    proof (cases bs)
      case (Cons c r)
      have d: "raw_into f r1 \<noteq> Inl OutOfFuel" if "raw_string bs = Inr (k, r1)" for k r1
        using raw_string_shorter [OF that] len Cons by (intro D) auto
      have "processDictInRawMode f r2 \<noteq> Inl OutOfFuel"
        if "raw_string bs = Inr (k, r1)" "raw_into f r1 = Inr (v, r2)" for k v r1 r2
        using raw_string_shorter [OF that(1)] raw_into_shorter [OF that(2)] len by (intro P) simp
      then show ?thesis using Cons d by (auto split: sum.split)
    qed simp
  qed
qed simp

lemma unmarshaler_total: "total_decoder (into_unmarshaler u)"
proof
  fix cur v :: 'a and bs r assume "into_unmarshaler u cur bs = Inr (v, r)"
  then show "length r < length bs"
    by (auto simp: into_unmarshaler_def handleUnmarshalerInterface_def DecodeRaw_def split: sum.splits dest: raw_into_shorter)
next
  fix cur :: 'a and bs
  have "DecodeRaw bs \<noteq> Inl OutOfFuel"
    using raw_enough [THEN conjunct1, rule_format, of bs "fuel_for bs"] by (simp add: DecodeRaw_def fuel_for_def)
  then show "into_unmarshaler u cur bs \<noteq> Inl OutOfFuel"
    by (auto simp: into_unmarshaler_def handleUnmarshalerInterface_def split: sum.split)
qed

text \<open>The recursion over the fields of a struct.\<close>

lemma struct_pairs_shorter:
  assumes "\<And>key. total_decoder (handleKeyValuePair fu vals key)"
  shows "into_struct_pairs f fu lk vals s bs = Inr (v, r) \<Longrightarrow> length r < length bs"
proof (induction f arbitrary: lk s bs)
  case (Suc f)
  then show ?case
    by (fastforce simp: into_struct_pairs.simps split: list.splits if_splits sum.splits prod.splits
        dest: total_decoder.shorter [OF assms] decodeString_shorter)
qed simp

lemma struct_pairs_enough:
  assumes "\<And>key. total_decoder (handleKeyValuePair fu vals key)"
  shows "length bs < f \<Longrightarrow> into_struct_pairs f fu lk vals s bs \<noteq> Inl OutOfFuel"
proof (induction f arbitrary: lk s bs)
  case (Suc f)
  show ?case
  proof
    assume "into_struct_pairs (Suc f) fu lk vals s bs = Inl OutOfFuel"
    then obtain key r1 v r2 where "decodeString bs = Inr (key, r1)" "handleKeyValuePair fu vals key s r1 = Inr (v, r2)"
      "into_struct_pairs f fu (Some key) vals v r2 = Inl OutOfFuel"
      by (auto simp: into_struct_pairs.simps total_decoder.enough [OF assms] split: list.splits if_splits sum.splits)
    then show False using Suc.IH [of r2 "Some key" v] total_decoder.shorter [OF assms, of key s r1 v r2]
        decodeString_shorter [of bs key r1] Suc.prems by fastforce
  qed
qed simp

lemma struct_total:
  assumes "list_all (\<lambda>(k, d). total_decoder d) (setStructValues [] fs)"
  shows "total_decoder (into_struct fu fs)"
proof -
  have "total_decoder (handleKeyValuePair fu (setStructValues [] fs) key)" for key
    using assms skip_total
    by (auto simp: handleKeyValuePair_def list_all_iff split: option.split dest!: map_of_SomeD)
  note * = this
  show ?thesis unfolding into_struct_def
    by (rule dispatch_total) (auto simp: struct_pairs_enough [OF *] dest: struct_pairs_shorter [OF *])
qed


section \<open>What the encoder writes is read back\<close>

text \<open>
  \<open>carries g d ready upd\<close>: the Go value \<open>g\<close> is encoded without error, and the target \<open>d\<close> reads what was
  written, nothing more, as the change \<open>upd\<close> of its current value, provided that this is \<open>ready\<close>.
\<close>

definition carries :: "gval \<Rightarrow> 'a decoder \<Rightarrow> ('a \<Rightarrow> bool) \<Rightarrow> ('a \<Rightarrow> 'a) \<Rightarrow> bool" where
  "carries g d ready upd \<longleftrightarrow> (\<exists>b. encodeValue g = Inr b \<and> b \<noteq> [] \<and> hd b \<noteq> 101 \<and>
     (\<forall>cur s. ready cur \<longrightarrow> d cur (b @ s) = Inr (upd cur, s)))"

lemma carriesI:
  "encodeValue g = Inr (c # b) \<Longrightarrow> c \<noteq> 101 \<Longrightarrow>
   (\<And>cur s. ready cur \<Longrightarrow> d cur (c # b @ s) = Inr (upd cur, s)) \<Longrightarrow> carries g d ready upd"
  by (auto simp: carries_def)

lemma dispatch_int:
  "- (2 ^ 63) \<le> i \<Longrightarrow> i < 2 ^ 63 \<Longrightarrow> dispatchDecodeByType num str lst dict (encodeIntegerType i @ s) =
     (case num (dec_int i) of Inl e \<Rightarrow> Inl e | Inr v \<Rightarrow> Inr (v, s))"
  using readBytes_append [OF dec_int_no_e, of i s]
  by (simp add: dispatchDecodeByType_def encodeIntegerType_def readIntegerDigits_def)

lemma dispatch_string:
  assumes "length b < 2 ^ 31"
  shows "dispatchDecodeByType num str lst dict (encodeStringType b @ s) =
     (case str b of Inl e \<Rightarrow> Inl e | Inr v \<Rightarrow> Inr (v, s))"
proof -
  obtain c r where "encodeStringType b @ s = c # r" "48 \<le> c" "c \<le> 57" using encodeStringType_head by blast
  moreover from this have "c \<noteq> 105" by (auto simp: word_le_nat_alt)
  ultimately show ?thesis using decodeString_encode [OF assms, of s] by (simp add: dispatchDecodeByType_def)
qed

lemma carries_by_string:
  "encodeValue g = Inr (encodeStringType x) \<Longrightarrow>
   (\<And>cur s. ready cur \<Longrightarrow> d cur (encodeStringType x @ s) = Inr (upd cur, s)) \<Longrightarrow> carries g d ready upd"
  using encodeStringType_head [of x "[]"] by (auto simp: carries_def)

lemma carries_by_int:
  "encodeValue g = Inr (encodeIntegerType i) \<Longrightarrow>
   (\<And>cur s. ready cur \<Longrightarrow> d cur (encodeIntegerType i @ s) = Inr (upd cur, s)) \<Longrightarrow> carries g d ready upd"
  by (auto simp: carries_def) (simp_all add: encodeIntegerType_def)

lemma carries_string: "length x < 2 ^ 31 \<Longrightarrow> carries (GString x) into_string (\<lambda>_. True) (\<lambda>_. x)"
  by (rule carries_by_string, simp add: encodeValue.simps) (simp add: into_string_def dispatch_string)

lemma carries_bytes: "length x < 2 ^ 31 \<Longrightarrow> carries (GBytes x) into_byte_slice (\<lambda>_. True) (\<lambda>_. x)"
  by (rule carries_by_string, simp add: encodeValue.simps is_byte_slice_def) (simp add: into_byte_slice_def dispatch_string)

lemma carries_int:
  assumes "- (2 ^ 63) \<le> i" "i < 2 ^ 63"
  shows "carries (GInt i) (into_int 64) (\<lambda>_. True) (\<lambda>_. i)"
  using assms ParseInt_dec_int [of 64 i]
  by (intro carries_by_int [of _ i]) (simp_all add: into_int_def encodeValue.simps dispatch_int assignIntegerValue_def wrap_signed_def)

lemma carries_uint:
  assumes "n < 2 ^ w" "w < 64"
  shows "carries (GUint n) (into_uint w) (\<lambda>_. True) (\<lambda>_. n)"
proof -
  have "n < 2 ^ 63" using assms power_increasing [of w 63 "2 :: nat"] by linarith
  then show ?thesis using assms ParseUint_dec_nat [of n 64]
    by (intro carries_by_int [of _ "int n"])
       (simp_all add: into_uint_def encodeValue.simps dispatch_int assignIntegerValue_def dec_int_def)
qed

lemma carries_bool: "carries (GBool b) into_bool (\<lambda>_. True) (\<lambda>_. b)"
  using ParseUint_dec_nat [of "if b then 1 else 0" 64]
  by (intro carries_by_int [of _ "if b then 1 else 0"])
     (auto simp: into_bool_def encodeValue.simps dispatch_int assignIntegerValue_def dec_int_def)

lemma carries_at:
  "carries g d ready upd \<Longrightarrow> carries g (at_field get put d) (\<lambda>s. ready (get s)) (\<lambda>s. put (upd (get s)) s)"
  by (fastforce simp: carries_def at_field_def)

lemma carries_unmarshaler:
  assumes "denotes (GMarshaler z r) v" "\<And>cur b. ready cur \<Longrightarrow> r = Inr b \<Longrightarrow> u cur b = Inr (upd cur)"
  shows "carries (GMarshaler z r) (into_unmarshaler u) ready upd"
proof -
  obtain b where b: "encodeValue (GMarshaler z r) = Inr b" "\<And>s. Decode True (b @ s) = Inr (v, s)"
    using denotes_transmits [OF assms(1)] by (auto simp: transmits_def)
  then have r: "r = Inr b" by (simp add: encodeValue.simps)
  have "DecodeRaw (b @ s) = Inr (b, s)" for s using DecodeRaw_follows [OF b(2), of s] by auto
  then show ?thesis
    using b(1) Decode_head [OF b(2), of "[]"] assms(2) r
    by (auto simp: carries_def into_unmarshaler_def handleUnmarshalerInterface_def)
qed

lemma carries_slice:
  assumes "\<forall>x \<in> set xs. carries (f x) d (\<lambda>c. c = zero) (\<lambda>_. x)"
  shows "carries (GSlice (map f xs)) (into_slice zero d) (\<lambda>c. c = []) (\<lambda>_. xs)"
proof -
  have "\<exists>b. cat_results (map encodeValue (map f xs)) = Inr b \<and> length xs \<le> length b \<and>
      (\<forall>n s. length xs < n \<longrightarrow> into_elements n zero d [] (b @ 101 # s) = Inr (xs, s))"
    using assms
  proof (induction xs)
    case Nil
    then show ?case by (auto simp: gr0_conv_Suc into_elements.simps)
  next
    case (Cons x xs)
    then obtain b bs where b: "encodeValue (f x) = Inr b" "b \<noteq> []" "hd b \<noteq> 101" "\<And>s. d zero (b @ s) = Inr (x, s)"
      and bs: "cat_results (map encodeValue (map f xs)) = Inr bs" "length xs \<le> length bs"
        "\<And>n s. length xs < n \<Longrightarrow> into_elements n zero d [] (bs @ 101 # s) = Inr (xs, s)"
      by (auto simp: carries_def)
    have "into_elements (Suc n) zero d [] ((b @ bs) @ 101 # s) = Inr (x # xs, s)" if "length xs < n" for n s
      using b(2-4) bs(3) [OF that] by (cases b) (simp_all add: into_elements.simps)
    moreover have "length (x # xs) \<le> length (b @ bs)" using b(2) bs(2) by (cases b) auto
    ultimately show ?case using b(1) bs(1) by (auto simp: Suc_less_eq2 intro!: exI [of _ "b @ bs"])
  qed
  then obtain b where "cat_results (map encodeValue (map f xs)) = Inr b" "length xs \<le> length b"
      "\<And>n s. length xs < n \<Longrightarrow> into_elements n zero d [] (b @ 101 # s) = Inr (xs, s)" by blast
  then show ?thesis
    by (intro carriesI [of _ 108 "b @ [101]"]) (simp_all add: encodeValue.simps wrap_def into_slice_def dispatchDecodeByType_def)
qed

subsection \<open>Structs\<close>

text \<open>
  A field as both sides see it: how the encoder sees it, when its decoder can take it, and what it
  then does to the struct.
\<close>

type_synonym 's field_view = "(string \<times> string \<times> bool \<times> gval) \<times> ('s \<Rightarrow> bool) \<times> ('s \<Rightarrow> 's)"

abbreviation v_tag :: "'s field_view \<Rightarrow> bytes" where
  "v_tag x \<equiv> ascii (fst (snd (fst x)))"

abbreviation v_ready :: "'s field_view \<Rightarrow> 's \<Rightarrow> bool" where
  "v_ready x \<equiv> fst (snd x)"

abbreviation v_upd :: "'s field_view \<Rightarrow> 's \<Rightarrow> 's" where
  "v_upd x \<equiv> snd (snd x)"

abbreviation v_gval :: "'s field_view \<Rightarrow> gval" where
  "v_gval x \<equiv> snd (snd (snd (fst x)))"

definition v_present :: "'s field_view \<Rightarrow> bool" where
  "v_present x = (case fst x of (n, t, om, g) \<Rightarrow> \<not> (om \<and> isEmptyValue g))"

definition v_good :: "(bytes, 's decoder) gomap \<Rightarrow> 's field_view \<Rightarrow> bool" where
  "v_good vals x \<longleftrightarrow> good_tag (fst (snd (fst x))) \<and> \<not> isNilValue (v_gval x) \<and>
     (v_present x \<longrightarrow> (\<exists>d. map_of vals (v_tag x) = Some d \<and> carries (v_gval x) d (v_ready x) (v_upd x)))"

lemma readStruct_present:
  "list_all (v_good vals) xs \<Longrightarrow>
   readStruct (map mk_field (map fst xs)) = map (\<lambda>x. (v_tag x, v_gval x)) (filter v_present xs)"
proof (induction xs)
  case (Cons x xs)
  obtain n t om g rd up where x: "x = ((n, t, om, g), rd, up)" by (cases x) auto
  have t: "good_tag t" "\<not> isNilValue g" using Cons(2) x by (auto simp: v_good_def)
  then have "ascii t \<noteq> []" by (auto simp: good_tag_def isValidTag_def)
  then show ?case
    using Cons t field_omitempty [of "ascii t"] field_plain [of "ascii t"] x
    by (cases om) (simp_all add: v_present_def mk_field_def readStruct_field good_tag_def del: readStruct.simps)
qed simp

lemma insort_key_map: "insort_key f (g x) (map g xs) = map g (insort_key (\<lambda>x. f (g x)) x xs)"
  by (induction xs) auto

lemma sort_key_map: "sort_key f (map g xs) = map g (sort_key (\<lambda>x. f (g x)) xs)"
  by (induction xs) (simp_all add: insort_key_map)

lemma struct_pairs_carried:
  assumes "list_all (v_good vals) xs" "list_all v_present xs" "sorted (map v_tag xs)" "distinct (map v_tag xs)"
    "\<forall>x \<in> set xs. \<forall>y \<in> set xs. v_tag x \<noteq> v_tag y \<longrightarrow> (\<forall>s. v_ready y s \<longrightarrow> v_ready y (v_upd x s))"
    "\<forall>l. lk = Some l \<longrightarrow> list_all (\<lambda>x. l \<le> v_tag x) xs"
  shows "\<exists>b. cat_results (map (\<lambda>x. keyed (v_tag x) (encodeValue (v_gval x))) xs) = Inr b \<and> length xs \<le> length b \<and>
     (\<forall>n cur s. length xs < n \<and> list_all (\<lambda>x. v_ready x cur) xs \<longrightarrow>
        into_struct_pairs n fu lk vals cur (b @ 101 # s) = Inr (fold v_upd xs cur, s))"
  using assms
proof (induction xs arbitrary: lk)
  case Nil
  then show ?case by (auto simp: gr0_conv_Suc into_struct_pairs.simps)
next
  case (Cons x xs)
  let ?k = "v_tag x"
  obtain d b where b: "map_of vals ?k = Some d" "encodeValue (v_gval x) = Inr b"
    "\<And>cur s. v_ready x cur \<Longrightarrow> d cur (b @ s) = Inr (v_upd x cur, s)"
    using Cons(2,3) by (auto simp: v_good_def carries_def)
  have le: "list_all (\<lambda>y. ?k \<le> v_tag y) xs" using Cons(4) by (auto simp: list_all_iff)
  obtain bs where bs: "cat_results (map (\<lambda>x. keyed (v_tag x) (encodeValue (v_gval x))) xs) = Inr bs"
    "length xs \<le> length bs"
    "\<And>n cur s. length xs < n \<Longrightarrow> list_all (\<lambda>x. v_ready x cur) xs \<Longrightarrow>
        into_struct_pairs n fu (Some ?k) vals cur (bs @ 101 # s) = Inr (fold v_upd xs cur, s)"
    using Cons.IH [of "Some ?k"] Cons.prems le by auto
  have k: "length ?k < 2 ^ 31" using Cons(2) by (simp add: v_good_def good_tag_def ascii_def)
  have o: "validateKeyOrder fu lk ?k"
    using Cons(7) by (auto simp: validateKeyOrder_def not_less split: option.split)
  obtain c r where c: "encodeStringType ?k = c # r" "48 \<le> c" "c \<le> 57" using encodeStringType_head [of ?k "[]"] by auto
  then have c': "c \<noteq> 101" by (auto simp: word_le_nat_alt)
  have step: "into_struct_pairs (Suc n) fu lk vals cur ((encodeStringType ?k @ b @ bs) @ 101 # s) =
      Inr (fold v_upd (x # xs) cur, s)"
    if "length xs < n" "list_all (\<lambda>x. v_ready x cur) (x # xs)" for n cur s
  proof -
    have "list_all (\<lambda>y. v_ready y (v_upd x cur)) xs" using that(2) Cons(5,6) by (auto simp: list_all_iff)
    note IH = bs(3) [OF that(1) this, of s]
    have "decodeString (c # r @ b @ bs @ 101 # s) = Inr (?k, b @ bs @ 101 # s)"
      using decodeString_encode [OF k, of "b @ bs @ 101 # s"] c(1) by simp
    then show ?thesis
      using IH b(1) b(3) [of cur "bs @ 101 # s"] that(2) o c' c(1)
      by (simp add: into_struct_pairs.simps handleKeyValuePair_def)
  qed
  have "length (x # xs) \<le> length (encodeStringType ?k @ b @ bs)" using bs(2) c(1) by simp
  then show ?case using b(2) bs(1) step
    by (auto simp: keyed_def Suc_less_eq2 intro!: exI [of _ "encodeStringType ?k @ b @ bs"])
qed

text \<open>Fields that were left out would not have changed the zero value.\<close>

lemma fold_skip:
  assumes "\<forall>x \<in> set xs. \<forall>y \<in> set xs. \<forall>s. v_upd x (v_upd y s) = v_upd y (v_upd x s)"
    "\<forall>x \<in> set xs. \<not> P x \<longrightarrow> v_upd x cur = cur"
  shows "fold v_upd (filter P xs) cur = fold v_upd xs cur"
  using assms
proof (induction xs arbitrary: cur)
  case (Cons x xs)
  have "\<forall>y \<in> set xs. \<not> P y \<longrightarrow> v_upd y (v_upd x cur) = v_upd x cur"
    using Cons(2,3) by (metis list.set_intros)
  then show ?case using Cons by auto
qed simp

lemma carries_struct:
  assumes "list_all (v_good (setStructValues [] fs)) xs" "distinct (map v_tag xs)"
    "\<forall>x \<in> set xs. \<forall>y \<in> set xs. v_tag x \<noteq> v_tag y \<longrightarrow> (\<forall>s. v_ready y s \<longrightarrow> v_ready y (v_upd x s))"
    "\<forall>x \<in> set xs. \<forall>y \<in> set xs. \<forall>s. v_upd x (v_upd y s) = v_upd y (v_upd x s)"
    "\<forall>x \<in> set xs. \<not> v_present x \<longrightarrow> v_upd x zero = zero" "list_all (\<lambda>x. v_ready x zero) xs"
  shows "carries (GStruct z (map mk_field (map fst xs))) (into_struct fu fs) (\<lambda>s. s = zero) (\<lambda>_. fold v_upd xs zero)"
proof -
  let ?ys = "sort_key v_tag (filter v_present xs)"
  have set: "set ?ys \<subseteq> set xs" by auto
  have g: "list_all (v_good (setStructValues [] fs)) ?ys" using assms(1) set by (auto simp: list_all_iff)
  have "distinct (map v_tag (filter v_present xs))" by (rule distinct_map_filter [OF assms(2)])
  then have d: "list_all v_present ?ys" "distinct (map v_tag ?ys)" by (auto simp: list_all_iff distinct_map)
  have rd: "\<forall>x \<in> set ?ys. \<forall>y \<in> set ?ys. v_tag x \<noteq> v_tag y \<longrightarrow> (\<forall>s. v_ready y s \<longrightarrow> v_ready y (v_upd x s))"
    using assms(3) set by blast
  obtain b where b: "cat_results (map (\<lambda>x. keyed (v_tag x) (encodeValue (v_gval x))) ?ys) = Inr b" "length ?ys \<le> length b"
     "\<And>n cur s. length ?ys < n \<and> list_all (\<lambda>x. v_ready x cur) ?ys \<Longrightarrow>
        into_struct_pairs n fu None (setStructValues [] fs) cur (b @ 101 # s) = Inr (fold v_upd ?ys cur, s)"
    using struct_pairs_carried [OF g d(1) _ d(2) rd, of None fu] by (simp del: length_sort) blast
  have "fold v_upd ?ys zero = fold v_upd (filter v_present xs) zero"
    by (rule fun_cong [of _ _ zero], rule fold_multiset_equiv) (use assms(4) in \<open>auto simp: fun_eq_iff\<close>)
  then have f: "fold v_upd ?ys zero = fold v_upd xs zero" using fold_skip [of xs v_present zero] assms(4,5) by simp
  have r: "list_all (\<lambda>x. v_ready x zero) ?ys" using assms(6) by (auto simp: list_all_iff)
  have "encodeValue (GStruct z (map mk_field (map fst xs))) = Inr (100 # b @ [101])"
    using readStruct_present [OF assms(1)] b(1)
    by (simp add: encodeValue.simps [of "GStruct _ _"] sort_key_map comp_def wrap_def)
  then show ?thesis
    using b(2) b(3) [OF conjI [OF _ r]] f
    by (intro carriesI [of _ 100 "b @ [101]"]) (simp_all add: into_struct_def dispatchDecodeByType_def)
qed

section \<open>Struct types\<close>

lemma extract_tagged: "extractFieldName (tagged n t get put d) = (let k = fst (parseTag (ascii t)) in if k = [] then ascii n else k)"
  by (simp add: extractFieldName_def tagged_def Let_def)

lemma plain_embedded: "list_all (\<lambda>f. \<not> tf_anonymous f) fs \<Longrightarrow> processEmbeddedFields m fs = m"
  by (induction fs) auto

lemma plain_regular:
  "list_all (\<lambda>f. tf_exported f \<and> isValidTag (extractFieldName f)) fs \<Longrightarrow> distinct (map extractFieldName fs) \<Longrightarrow>
   map_of (processRegularFields m fs) k =
     (case map_of (map (\<lambda>f. (extractFieldName f, tf_decode f)) fs) k of None \<Rightarrow> map_of m k | Some d \<Rightarrow> Some d)"
proof (induction fs arbitrary: m)
  case (Cons f fs)
  then have "map_of (map (\<lambda>f. (extractFieldName f, tf_decode f)) fs) (extractFieldName f) = None"
    by (auto simp: map_of_eq_None_iff)
  then show ?case using Cons by (auto simp: isValidTag_def split: option.split)
qed simp

lemma struct_keys:
  assumes "list_all (\<lambda>f. \<not> tf_anonymous f \<and> tf_exported f \<and> isValidTag (extractFieldName f)) fs"
    "distinct (map extractFieldName fs)"
  shows "map_of (setStructValues [] fs) = map_of (map (\<lambda>f. (extractFieldName f, tf_decode f)) fs)"
proof
  fix k
  have "list_all (\<lambda>f. \<not> tf_anonymous f) fs" "list_all (\<lambda>f. tf_exported f \<and> isValidTag (extractFieldName f)) fs"
    using assms(1) by (auto simp: list_all_iff)
  then show "map_of (setStructValues [] fs) k = map_of (map (\<lambda>f. (extractFieldName f, tf_decode f)) fs) k"
    using plain_regular [of fs "[]" k] assms(2) by (simp add: setStructValues_def plain_embedded split: option.split)
qed

lemma tf_tagged [simp]:
  "tf_decode (tagged n t get put d) = at_field get put d" "tf_exported (tagged n t get put d)"
  "\<not> tf_anonymous (tagged n t get put d)"
  by (simp_all add: tagged_def)

lemma carries_any: "carries g d (\<lambda>_. True) upd \<Longrightarrow> carries g d ready upd"
  by (auto simp: carries_def)

lemma u16_reads:
  "carries (GUint (unat x)) (at_field (\<lambda>s. unat (get s)) (\<lambda>n. put (of_nat n)) (into_uint 16)) (\<lambda>_. True) (\<lambda>s. put x s)"
  for x :: u16
  using carries_at [OF carries_uint [of "unat x" 16], of "\<lambda>s. unat (get s)" "\<lambda>n. put (of_nat n)"] unsigned_less [of x, where ?'a = nat] by simp

definition field_reads :: "'s tfield \<Rightarrow> 's field_view \<Rightarrow> bool" where
  "field_reads f x \<longleftrightarrow> extractFieldName f = v_tag x \<and> good_tag (fst (snd (fst x))) \<and> \<not> isNilValue (v_gval x) \<and>
     (v_present x \<longrightarrow> carries (v_gval x) (tf_decode f) (v_ready x) (v_upd x))"

lemma fields_read:
  assumes "list_all2 field_reads fs xs" "distinct (map extractFieldName fs)"
    "list_all (\<lambda>f. \<not> tf_anonymous f \<and> tf_exported f) fs"
  shows "list_all (v_good (setStructValues [] fs)) xs \<and> distinct (map v_tag xs)"
proof
  have v: "list_all (\<lambda>f. isValidTag (extractFieldName f)) fs"
    using assms(1) by (induction rule: list_all2_induct) (auto simp: field_reads_def good_tag_def)
  have "list_all (\<lambda>f. \<not> tf_anonymous f \<and> tf_exported f \<and> isValidTag (extractFieldName f)) fs"
    using v assms(3) by (auto simp: list_all_iff)
  note k = struct_keys [OF this assms(2)]
  have l: "map_of (setStructValues [] fs) (extractFieldName f) = Some (tf_decode f)" if "f \<in> set fs" for f
    unfolding k using that assms(2) by (intro map_of_is_SomeI) (auto simp: comp_def)
  show "list_all (v_good (setStructValues [] fs)) xs"
    unfolding list_all_length
  proof (intro allI impI)
    fix n assume n: "n < length xs"
    then have "fs ! n \<in> set fs" "field_reads (fs ! n) (xs ! n)"
      using assms(1) by (auto simp: list_all2_conv_all_nth)
    then show "v_good (setStructValues [] fs) (xs ! n)" using l [of "fs ! n"] by (auto simp: field_reads_def v_good_def)
  qed
  have "map extractFieldName fs = map v_tag xs"
    using assms(1) by (induction rule: list_all2_induct) (auto simp: field_reads_def)
  then show "distinct (map v_tag xs)" using assms(2) by simp
qed

lemma field_readsI:
  assumes "extractFieldName (tagged n t get put d) = ascii k" "good_tag k" "\<not> isNilValue g"
    "\<not> (om \<and> isEmptyValue g) \<Longrightarrow> carries g d ready (\<lambda>_. x)"
  shows "field_reads (tagged n t get put d) ((n', k, om, g), \<lambda>s. ready (get s), \<lambda>s. put x s)"
  using assms carries_at [of g d ready "\<lambda>_. x" get put] by (auto simp: field_reads_def v_present_def)

lemma u16_field_reads:
  assumes "extractFieldName (tagged n t (\<lambda>s. unat (get s)) (\<lambda>v. put (of_nat v)) (into_uint 16)) = ascii k" "good_tag k"
  shows "field_reads (tagged n t (\<lambda>s. unat (get s)) (\<lambda>v. put (of_nat v)) (into_uint 16))
    ((n', k, om, GUint (unat (x :: u16))), \<lambda>s. True, \<lambda>s. put x s)"
  using assms u16_reads [of x get put] by (auto simp: field_reads_def v_present_def)

lemma extract_tag:
  "good_tag k \<Longrightarrow> fst (parseTag (ascii t)) = ascii k \<Longrightarrow> extractFieldName (tagged n t get put d) = ascii k"
  by (auto simp: extract_tagged good_tag_def isValidTag_def Let_def)

text \<open>A struct type whose fields read what they are written as reads the whole struct.\<close>

lemma carries_fields:
  assumes "list_all2 field_reads fs xs" "distinct (map extractFieldName fs)" "list_all (\<lambda>f. \<not> tf_anonymous f \<and> tf_exported f) fs"
    "\<forall>x \<in> set xs. \<forall>y \<in> set xs. v_tag x \<noteq> v_tag y \<longrightarrow> (\<forall>s. v_ready y s \<longrightarrow> v_ready y (v_upd x s))"
    "\<forall>x \<in> set xs. \<forall>y \<in> set xs. \<forall>s. v_upd x (v_upd y s) = v_upd y (v_upd x s)"
    "\<forall>x \<in> set xs. \<not> v_present x \<longrightarrow> v_upd x zero = zero" "list_all (\<lambda>x. v_ready x zero) xs"
    "GStruct z (map mk_field (map fst xs)) = g" "fold v_upd xs zero = v"
  shows "carries g (into_struct fu fs) (\<lambda>s. s = zero) (\<lambda>_. v)"
  using carries_struct [of fs xs zero z fu] fields_read [OF assms(1-3)] assms(4-7) unfolding assms(8,9) by blast

lemmas string_reads =
  field_readsI [where ready = "\<lambda>_. True", OF _ _ _ carries_string] field_readsI [where ready = "\<lambda>_. True", OF _ _ _ carries_bytes]

lemmas number_reads =
  field_readsI [where ready = "\<lambda>_. True", OF _ _ _ carries_int] field_readsI [where ready = "\<lambda>_. True", OF _ _ _ carries_bool]

end
