(* ===== verification/KrpcDecode.thy ===== *)
theory KrpcDecode
  imports StructDecode Resolver
begin

text \<open>
  Decoding KRPC messages: the struct types of \<^verbatim>\<open>krpc/message.go\<close> as the decoder of package
  \<^verbatim>\<open>bencode\<close> sees them, with their tags, and that a message survives encoding and decoding.
\<close>

section \<open>The struct types\<close>

definition into_hash :: "hash decoder" where
  "into_hash = into_unmarshaler (\<lambda>_. Hash_UnmarshalBencode)"

definition QueryArg_fields :: "query_arg tfield list" where
  "QueryArg_fields =
     [tagged ''ID'' ''id'' aID (\<lambda>v a. a\<lparr>aID := v\<rparr>) into_hash,
      tagged ''Target'' ''target,omitempty'' aTarget (\<lambda>v a. a\<lparr>aTarget := v\<rparr>) into_hash,
      tagged ''InfoHash'' ''info_hash,omitempty'' aInfoHash (\<lambda>v a. a\<lparr>aInfoHash := v\<rparr>) into_hash,
      tagged ''Port'' ''port,omitempty'' (\<lambda>a. unat (aPort a)) (\<lambda>n a. a\<lparr>aPort := of_nat n\<rparr>) (into_uint 16),
      tagged ''Token'' ''token,omitempty'' aToken (\<lambda>v a. a\<lparr>aToken := v\<rparr>) into_string,
      tagged ''ImpliedPort'' ''implied_port,omitempty'' aImpliedPort (\<lambda>v a. a\<lparr>aImpliedPort := v\<rparr>) into_bool,
      tagged ''Wants'' ''want,omitempty'' aWants (\<lambda>v a. a\<lparr>aWants := v\<rparr>) (into_slice [] into_string),
      tagged ''V'' ''v,omitempty'' aV (\<lambda>v a. a\<lparr>aV := v\<rparr>) into_byte_slice,
      tagged ''K'' ''k,omitempty'' aK (\<lambda>v a. a\<lparr>aK := v\<rparr>) into_byte_slice,
      tagged ''Sig'' ''sig,omitempty'' aSig (\<lambda>v a. a\<lparr>aSig := v\<rparr>) into_byte_slice,
      tagged ''Seq'' ''seq,omitempty'' aSeq (\<lambda>v a. a\<lparr>aSeq := v\<rparr>) (into_int 64),
      tagged ''Salt'' ''salt,omitempty'' aSalt (\<lambda>v a. a\<lparr>aSalt := v\<rparr>) into_byte_slice,
      tagged ''CAS'' ''cas,omitempty'' aCAS (\<lambda>v a. a\<lparr>aCAS := v\<rparr>) (into_int 64)]"

abbreviation noAddress :: address where
  "noAddress \<equiv> \<lparr>IP = NilAddr, Port = 0\<rparr>"

definition ResponseResult_fields :: "i2p_lib \<Rightarrow> resolver \<Rightarrow> response_result tfield list" where
  "ResponseResult_fields L R =
     [tagged ''ID'' ''id'' rID (\<lambda>v r. r\<lparr>rID := v\<rparr>) into_hash,
      tagged ''Nodes'' ''nodes,omitempty'' rNodes (\<lambda>v r. r\<lparr>rNodes := v\<rparr>)
        (into_unmarshaler (\<lambda>_. CompactIPv4Node_UnmarshalBencode L)),
      tagged ''Nodes6'' ''nodes6,omitempty'' rNodes6 (\<lambda>v r. r\<lparr>rNodes6 := v\<rparr>)
        (into_unmarshaler (\<lambda>_. CompactIPv6Node_UnmarshalBencode L)),
      tagged ''Token'' ''token,omitempty'' rToken (\<lambda>v r. r\<lparr>rToken := v\<rparr>) into_string,
      tagged ''Values'' ''values,omitempty'' rValues (\<lambda>v r. r\<lparr>rValues := v\<rparr>)
        (into_slice noAddress (into_unmarshaler (Address_UnmarshalBencode L R))),
      tagged ''Samples'' ''samples,omitempty'' rSamples (\<lambda>v r. r\<lparr>rSamples := v\<rparr>) (into_slice zeroHash into_hash),
      tagged ''Num'' ''num,omitempty'' rNum (\<lambda>v r. r\<lparr>rNum := v\<rparr>) (into_int 64),
      tagged ''Interval'' ''interval,omitempty'' rInterval (\<lambda>v r. r\<lparr>rInterval := v\<rparr>) (into_int 64),
      tagged ''V'' ''v,omitempty'' rV (\<lambda>v r. r\<lparr>rV := v\<rparr>) into_byte_slice,
      tagged ''K'' ''k,omitempty'' rK (\<lambda>v r. r\<lparr>rK := v\<rparr>) into_byte_slice,
      tagged ''Sig'' ''sig,omitempty'' rSig (\<lambda>v r. r\<lparr>rSig := v\<rparr>) into_byte_slice,
      tagged ''Seq'' ''seq,omitempty'' rSeq (\<lambda>v r. r\<lparr>rSeq := v\<rparr>) (into_int 64)]"

definition Message_fields :: "i2p_lib \<Rightarrow> resolver \<Rightarrow> message tfield list" where
  "Message_fields L R =
     [tagged ''T'' ''t'' mT (\<lambda>v m. m\<lparr>mT := v\<rparr>) into_string,
      tagged ''Y'' ''y'' mY (\<lambda>v m. m\<lparr>mY := v\<rparr>) into_string,
      tagged ''Q'' ''q,omitempty'' mQ (\<lambda>v m. m\<lparr>mQ := v\<rparr>) into_string,
      tagged ''A'' ''a,omitempty'' mA (\<lambda>v m. m\<lparr>mA := v\<rparr>) (into_struct False QueryArg_fields),
      tagged ''R'' ''r,omitempty'' mR (\<lambda>v m. m\<lparr>mR := v\<rparr>) (into_struct False (ResponseResult_fields L R)),
      tagged ''E'' ''e,omitempty'' mE (\<lambda>v m. m\<lparr>mE := v\<rparr>) (into_unmarshaler Error_UnmarshalBencode),
      tagged ''RO'' ''ro,omitempty'' mRO (\<lambda>v m. m\<lparr>mRO := v\<rparr>) into_bool]"

text \<open>\<^verbatim>\<open>bencode.DecodeBytes(data, &msg)\<close>: what follows the message is not looked at.\<close>

definition Message_Decode :: "i2p_lib \<Rightarrow> resolver \<Rightarrow> bytes \<Rightarrow> bencode_error + message" where
  "Message_Decode L R data =
     (case into_struct False (Message_fields L R) zeroMessage data of Inl e \<Rightarrow> Inl e | Inr (m, _) \<Rightarrow> Inr m)"

section \<open>The keys\<close>

lemma tag_names:
  "fst (parseTag (ascii ''id'')) = ascii ''id''" "fst (parseTag (ascii ''target,omitempty'')) = ascii ''target''"
  "fst (parseTag (ascii ''info_hash,omitempty'')) = ascii ''info_hash''" "fst (parseTag (ascii ''port,omitempty'')) = ascii ''port''"
  "fst (parseTag (ascii ''token,omitempty'')) = ascii ''token''" "fst (parseTag (ascii ''implied_port,omitempty'')) = ascii ''implied_port''"
  "fst (parseTag (ascii ''want,omitempty'')) = ascii ''want''" "fst (parseTag (ascii ''v,omitempty'')) = ascii ''v''"
  "fst (parseTag (ascii ''k,omitempty'')) = ascii ''k''" "fst (parseTag (ascii ''sig,omitempty'')) = ascii ''sig''"
  "fst (parseTag (ascii ''seq,omitempty'')) = ascii ''seq''" "fst (parseTag (ascii ''salt,omitempty'')) = ascii ''salt''"
  "fst (parseTag (ascii ''cas,omitempty'')) = ascii ''cas''" "fst (parseTag (ascii ''nodes,omitempty'')) = ascii ''nodes''"
  "fst (parseTag (ascii ''nodes6,omitempty'')) = ascii ''nodes6''" "fst (parseTag (ascii ''values,omitempty'')) = ascii ''values''"
  "fst (parseTag (ascii ''samples,omitempty'')) = ascii ''samples''" "fst (parseTag (ascii ''num,omitempty'')) = ascii ''num''"
  "fst (parseTag (ascii ''interval,omitempty'')) = ascii ''interval''" "fst (parseTag (ascii ''t'')) = ascii ''t''"
  "fst (parseTag (ascii ''y'')) = ascii ''y''" "fst (parseTag (ascii ''q,omitempty'')) = ascii ''q''"
  "fst (parseTag (ascii ''a,omitempty'')) = ascii ''a''" "fst (parseTag (ascii ''r,omitempty'')) = ascii ''r''"
  "fst (parseTag (ascii ''e,omitempty'')) = ascii ''e''" "fst (parseTag (ascii ''ro,omitempty'')) = ascii ''ro''"
  by code_simp+

lemma valid_tags:
  "list_all (\<lambda>t. isValidTag (ascii t) \<and> ascii t \<noteq> []) [''id'', ''target'', ''info_hash'', ''port'', ''token'', ''implied_port'', ''want'',
     ''v'', ''k'', ''sig'', ''seq'', ''salt'', ''cas'', ''nodes'', ''nodes6'', ''values'', ''samples'',
     ''num'', ''interval'', ''t'', ''y'', ''q'', ''a'', ''r'', ''e'', ''ro'']"
  by code_simp

lemma QueryArg_names:
  "map extractFieldName QueryArg_fields = map ascii [''id'', ''target'', ''info_hash'', ''port'', ''token'', ''implied_port'', ''want'',
     ''v'', ''k'', ''sig'', ''seq'', ''salt'', ''cas'']"
  using valid_tags by (simp add: QueryArg_fields_def extract_tagged tag_names Let_def)


section \<open>Fields\<close>

lemma hash_reads: "wf_hash h \<Longrightarrow> carries (hash_gval h) into_hash (\<lambda>_. True) (\<lambda>_. h)"
  unfolding hash_gval_def into_hash_def
proof (rule carries_unmarshaler)
  assume h: "wf_hash h"
  then show "denotes (GMarshaler False (Hash_MarshalBencode h)) (BStr h)" using denotes_hash by (simp add: hash_gval_def)
  show "Hash_UnmarshalBencode b = Inr h" if "Hash_MarshalBencode h = Inr b" for b
    using that h decode_string_target_encode [of h "[]"]
    by (auto simp: Hash_MarshalBencode_def Hash_UnmarshalBencode_def encodeValue.simps is_byte_slice_def
        Hash_FromString_def wf_hash_def HashSize_def)
qed

definition QueryArg_views :: "query_arg \<Rightarrow> query_arg field_view list" where
  "QueryArg_views a =
     [((''ID'', ''id'', False, hash_gval (aID a)), \<lambda>_. True, \<lambda>s. s\<lparr>aID := aID a\<rparr>),
      ((''Target'', ''target'', True, hash_gval (aTarget a)), \<lambda>_. True, \<lambda>s. s\<lparr>aTarget := aTarget a\<rparr>),
      ((''InfoHash'', ''info_hash'', True, hash_gval (aInfoHash a)), \<lambda>_. True, \<lambda>s. s\<lparr>aInfoHash := aInfoHash a\<rparr>),
      ((''Port'', ''port'', True, GUint (unat (aPort a))), \<lambda>_. True, \<lambda>s. s\<lparr>aPort := aPort a\<rparr>),
      ((''Token'', ''token'', True, GString (aToken a)), \<lambda>_. True, \<lambda>s. s\<lparr>aToken := aToken a\<rparr>),
      ((''ImpliedPort'', ''implied_port'', True, GBool (aImpliedPort a)), \<lambda>_. True, \<lambda>s. s\<lparr>aImpliedPort := aImpliedPort a\<rparr>),
      ((''Wants'', ''want'', True, GSlice (map GString (aWants a))), \<lambda>s. aWants s = [], \<lambda>s. s\<lparr>aWants := aWants a\<rparr>),
      ((''V'', ''v'', True, GBytes (aV a)), \<lambda>_. True, \<lambda>s. s\<lparr>aV := aV a\<rparr>),
      ((''K'', ''k'', True, GBytes (aK a)), \<lambda>_. True, \<lambda>s. s\<lparr>aK := aK a\<rparr>),
      ((''Sig'', ''sig'', True, GBytes (aSig a)), \<lambda>_. True, \<lambda>s. s\<lparr>aSig := aSig a\<rparr>),
      ((''Seq'', ''seq'', True, GInt (aSeq a)), \<lambda>_. True, \<lambda>s. s\<lparr>aSeq := aSeq a\<rparr>),
      ((''Salt'', ''salt'', True, GBytes (aSalt a)), \<lambda>_. True, \<lambda>s. s\<lparr>aSalt := aSalt a\<rparr>),
      ((''CAS'', ''cas'', True, GInt (aCAS a)), \<lambda>_. True, \<lambda>s. s\<lparr>aCAS := aCAS a\<rparr>)]"

lemmas scalar_reads = field_readsI [where ready = "\<lambda>_. True", OF _ _ _ hash_reads] string_reads number_reads

lemma QueryArg_fields_read:
  assumes "wf_arg a"
  shows "list_all2 field_reads QueryArg_fields (QueryArg_views a)"
proof -
  have w: "carries (GSlice (map GString (aWants a))) (into_slice [] into_string) (\<lambda>c. c = []) (\<lambda>_. aWants a)"
    using assms by (intro carries_slice) (auto simp: wf_arg_def fits_def list_all_iff intro!: carries_any carries_string)
  show ?thesis
    unfolding QueryArg_fields_def QueryArg_views_def
    by (intro list.rel_intros; (rule scalar_reads | rule u16_field_reads | rule field_readsI [OF _ _ _ w])?;
        (rule extract_tag)?; (use assms in \<open>simp add: tag_names good_tags [simplified] wf_arg_def fits_def is_int64_def
          hash_gval_def [THEN arg_cong [of _ _ isNilValue]]\<close>)?)
qed

lemma names_distinct:
  "distinct (map ascii [''id'', ''target'', ''info_hash'', ''port'', ''token'', ''implied_port'', ''want'',
     ''v'', ''k'', ''sig'', ''seq'', ''salt'', ''cas''])"
  "distinct (map ascii [''id'', ''nodes'', ''nodes6'', ''token'', ''values'', ''samples'', ''num'', ''interval'',
     ''v'', ''k'', ''sig'', ''seq''])"
  "distinct (map ascii [''t'', ''y'', ''q'', ''a'', ''r'', ''e'', ''ro''])"
  by code_simp+

lemma QueryArg_reads:
  assumes "wf_arg a"
  shows "carries (QueryArg_gval a) (into_struct fu QueryArg_fields) (\<lambda>s. s = noArg) (\<lambda>_. a)"
proof (rule carries_fields [OF QueryArg_fields_read [OF assms]])
  let ?xs = "QueryArg_views a" and ?fs = "QueryArg_fields"
  show "distinct (map extractFieldName ?fs)" using names_distinct(1) by (simp only: QueryArg_names)
  show "\<forall>x\<in>set ?xs. \<forall>y\<in>set ?xs. v_tag x \<noteq> v_tag y \<longrightarrow> (\<forall>s. v_ready y s \<longrightarrow> v_ready y (v_upd x s))"
    "\<forall>x\<in>set ?xs. \<forall>y\<in>set ?xs. \<forall>s. v_upd x (v_upd y s) = v_upd y (v_upd x s)"
    by (simp_all add: QueryArg_views_def)
  show "\<forall>x\<in>set ?xs. \<not> v_present x \<longrightarrow> v_upd x noArg = noArg" "list_all (\<lambda>x. v_ready x noArg) ?xs"
    by (simp_all add: QueryArg_views_def v_present_def noArg_def hash_gval_def unat_zero_iff)
qed (simp_all add: QueryArg_views_def QueryArg_gval_def QueryArg_fields_def noArg_def)

text \<open>Addresses of peers on the wire: IPv4, or IPv6 that is not a mapped IPv4 address.\<close>

definition ip_address :: "address \<Rightarrow> bool" where
  "ip_address a \<longleftrightarrow> (case IP a of IPAddr p \<Rightarrow> length p = 4 \<or> length p = 16 \<and> IP_To4 p = [] | _ \<Rightarrow> False)"

lemma nodes_read:
  assumes "list_all (wf_node 4) ns" "26 * length ns < 2 ^ 31"
  shows "carries (GMarshaler z (krpc_result (CompactIPv4Node_MarshalBencode L ns)))
    (into_unmarshaler (\<lambda>_. CompactIPv4Node_UnmarshalBencode L)) (\<lambda>_. True) (\<lambda>_. ns)"
proof (rule carries_unmarshaler [OF denotes_nodes(1) [OF assms]])
  have wf: "\<forall>n \<in> set ns. wf_node 4 n" using assms(1) by (simp add: list_all_iff)
  show "CompactIPv4Node_UnmarshalBencode L b = Inr ns"
    if "krpc_result (CompactIPv4Node_MarshalBencode L ns) = Inr b" for b
    using that marshal_ipv4 [OF wf, of L] ipv4.length_enc_list [OF wf, of L] ipv4.dec_enc_list [OF wf, of L] assms(2)
      decode_string_target_encode [of "concat (map (node_bytes L) ns)" "[]"]
    by (auto simp: krpc_result_def CompactIPv4Node_MarshalBencode_def compact_MarshalBencode_def encodeValue.simps
        is_byte_slice_def CompactIPv4Node_UnmarshalBencode_def CompactIPv4Node_UnmarshalBinary_def)
qed

lemma nodes6_read:
  assumes "list_all (wf_node 16) ns" "38 * length ns < 2 ^ 31"
  shows "carries (GMarshaler z (krpc_result (CompactIPv6Node_MarshalBencode L ns)))
    (into_unmarshaler (\<lambda>_. CompactIPv6Node_UnmarshalBencode L)) (\<lambda>_. True) (\<lambda>_. ns)"
proof (rule carries_unmarshaler [OF denotes_nodes(2) [OF assms]])
  have wf: "\<forall>n \<in> set ns. wf_node 16 n" using assms(1) by (simp add: list_all_iff)
  show "CompactIPv6Node_UnmarshalBencode L b = Inr ns"
    if "krpc_result (CompactIPv6Node_MarshalBencode L ns) = Inr b" for b
    using that marshal_ipv6 [OF wf, of L] ipv6.length_enc_list [OF wf, of L] ipv6.dec_enc_list [OF wf, of L] assms(2)
      decode_string_target_encode [of "concat (map (node_bytes L) ns)" "[]"]
    by (auto simp: krpc_result_def CompactIPv6Node_MarshalBencode_def compact_MarshalBencode_def encodeValue.simps
        is_byte_slice_def CompactIPv6Node_UnmarshalBencode_def CompactIPv6Node_UnmarshalBinary_def)
qed

lemma address_field_reads:
  assumes "ip_address a"
  shows "carries (address_gval L a) (into_unmarshaler (Address_UnmarshalBencode L R)) (\<lambda>_. True) (\<lambda>_. a)"
proof -
  obtain p port where a: "a = \<lparr>IP = IPAddr p, Port = port\<rparr>" "length p = 4 \<or> length p = 16 \<and> IP_To4 p = []"
    using assms by (cases a) (auto simp: ip_address_def split: netaddr.splits)
  obtain b where b: "Address_MarshalBencode L a = Some (Inr b)"
    "Decode True b = Inr (BList [BStr (IP_String p), BInt (int (unat port))], [])"
    using address_reads [OF a(2), of L port] a(1) by blast
  have u: "Address_UnmarshalBencode L R cur b = Inr a" for cur
    using address_reads [OF a(2), of L port R cur "[]"] a(1) b(1) by auto
  have "denotes (GMarshaler False (Inr b)) (BList [BStr (IP_String p), BInt (int (unat port))])"
    by (rule d_marshaler [OF b(2)])
  from carries_unmarshaler [OF this, of "\<lambda>_. True" "Address_UnmarshalBencode L R" "\<lambda>_. a"] u
  show ?thesis by (simp add: address_gval_def b(1))
qed

lemma error_reads:
  assumes "is_int64 (Code e)" "fits (Reason e)" "e \<noteq> \<lparr>Code = 0, Reason = []\<rparr>"
  shows "carries (GMarshaler z (Error_MarshalBencode e)) (into_unmarshaler Error_UnmarshalBencode) (\<lambda>_. True) (\<lambda>_. e)"
proof (rule carries_unmarshaler [OF denotes_error [OF assms]])
  fix cur b assume "Error_MarshalBencode e = Inr b"
  then have "Decode True b = Inr (BList [BInt (Code e), BStr (Reason e)], [])"
    using denotes_error [OF assms, of z] by (auto elim: denotes.cases)
  from Decode_lenient [OF this, of False] show "Error_UnmarshalBencode cur b = Inr e"
    by (simp add: Error_UnmarshalBencode_def Error_decode_def)
qed

definition ResponseResult_views :: "i2p_lib \<Rightarrow> response_result \<Rightarrow> response_result field_view list" where
  "ResponseResult_views L r =
     [((''ID'', ''id'', False, hash_gval (rID r)), \<lambda>_. True, \<lambda>s. s\<lparr>rID := rID r\<rparr>),
      ((''Nodes'', ''nodes'', True,
        GMarshaler (rNodes r = []) (krpc_result (CompactIPv4Node_MarshalBencode L (rNodes r)))), \<lambda>_. True, \<lambda>s. s\<lparr>rNodes := rNodes r\<rparr>),
      ((''Nodes6'', ''nodes6'', True,
        GMarshaler (rNodes6 r = []) (krpc_result (CompactIPv6Node_MarshalBencode L (rNodes6 r)))), \<lambda>_. True, \<lambda>s. s\<lparr>rNodes6 := rNodes6 r\<rparr>),
      ((''Token'', ''token'', True, GString (rToken r)), \<lambda>_. True, \<lambda>s. s\<lparr>rToken := rToken r\<rparr>),
      ((''Values'', ''values'', True, GSlice (map (address_gval L) (rValues r))), \<lambda>s. rValues s = [], \<lambda>s. s\<lparr>rValues := rValues r\<rparr>),
      ((''Samples'', ''samples'', True, GSlice (map hash_gval (rSamples r))), \<lambda>s. rSamples s = [], \<lambda>s. s\<lparr>rSamples := rSamples r\<rparr>),
      ((''Num'', ''num'', True, GInt (rNum r)), \<lambda>_. True, \<lambda>s. s\<lparr>rNum := rNum r\<rparr>),
      ((''Interval'', ''interval'', True, GInt (rInterval r)), \<lambda>_. True, \<lambda>s. s\<lparr>rInterval := rInterval r\<rparr>),
      ((''V'', ''v'', True, GBytes (rV r)), \<lambda>_. True, \<lambda>s. s\<lparr>rV := rV r\<rparr>),
      ((''K'', ''k'', True, GBytes (rK r)), \<lambda>_. True, \<lambda>s. s\<lparr>rK := rK r\<rparr>),
      ((''Sig'', ''sig'', True, GBytes (rSig r)), \<lambda>_. True, \<lambda>s. s\<lparr>rSig := rSig r\<rparr>),
      ((''Seq'', ''seq'', True, GInt (rSeq r)), \<lambda>_. True, \<lambda>s. s\<lparr>rSeq := rSeq r\<rparr>)]"

lemma ResponseResult_names:
  "map extractFieldName (ResponseResult_fields L R) = map ascii [''id'', ''nodes'', ''nodes6'', ''token'', ''values'',
     ''samples'', ''num'', ''interval'', ''v'', ''k'', ''sig'', ''seq'']"
  using valid_tags by (simp add: ResponseResult_fields_def extract_tagged tag_names Let_def)

lemma ResponseResult_fields_read:
  assumes "wf_result L r" "list_all ip_address (rValues r)"
  shows "list_all2 field_reads (ResponseResult_fields L R) (ResponseResult_views L r)"
proof -
  have v: "carries (GSlice (map (address_gval L) (rValues r)))
      (into_slice noAddress (into_unmarshaler (Address_UnmarshalBencode L R))) (\<lambda>c. c = []) (\<lambda>_. rValues r)"
    using assms(2) by (intro carries_slice) (auto simp: list_all_iff intro!: carries_any address_field_reads)
  have h: "carries (GSlice (map hash_gval (rSamples r))) (into_slice zeroHash into_hash) (\<lambda>c. c = []) (\<lambda>_. rSamples r)"
    using assms(1) by (intro carries_slice) (auto simp: wf_result_def list_all_iff intro!: carries_any hash_reads)
  show ?thesis
    unfolding ResponseResult_fields_def ResponseResult_views_def
    by (intro list.rel_intros; (rule scalar_reads | rule field_readsI [OF _ _ _ v] | rule field_readsI [OF _ _ _ h]
          | rule field_readsI [where ready = "\<lambda>_. True", OF _ _ _ nodes_read]
          | rule field_readsI [where ready = "\<lambda>_. True", OF _ _ _ nodes6_read])?;
        (rule extract_tag)?; (use assms in \<open>simp add: tag_names good_tags [simplified] wf_result_def fits_def is_int64_def
          hash_gval_def [THEN arg_cong [of _ _ isNilValue]]\<close>)?)
qed

lemma ResponseResult_reads:
  assumes "wf_result L r" "list_all ip_address (rValues r)"
  shows "carries (ResponseResult_gval L r) (into_struct fu (ResponseResult_fields L R)) (\<lambda>s. s = noResult) (\<lambda>_. r)"
proof (rule carries_fields [OF ResponseResult_fields_read [OF assms]])
  let ?xs = "ResponseResult_views L r" and ?fs = "ResponseResult_fields L R"
  show "distinct (map extractFieldName ?fs)" using names_distinct(2) by (simp only: ResponseResult_names)
  show "\<forall>x\<in>set ?xs. \<forall>y\<in>set ?xs. v_tag x \<noteq> v_tag y \<longrightarrow> (\<forall>s. v_ready y s \<longrightarrow> v_ready y (v_upd x s))"
    "\<forall>x\<in>set ?xs. \<forall>y\<in>set ?xs. \<forall>s. v_upd x (v_upd y s) = v_upd y (v_upd x s)"
    by (simp_all add: ResponseResult_views_def)
  show "\<forall>x\<in>set ?xs. \<not> v_present x \<longrightarrow> v_upd x noResult = noResult" "list_all (\<lambda>x. v_ready x noResult) ?xs"
    by (simp_all add: ResponseResult_views_def v_present_def noResult_def hash_gval_def unat_zero_iff)
qed (simp_all add: ResponseResult_views_def ResponseResult_gval_def ResponseResult_fields_def noResult_def)

section \<open>Messages\<close>

definition Message_views :: "i2p_lib \<Rightarrow> message \<Rightarrow> message field_view list" where
  "Message_views L m =
     [((''T'', ''t'', False, GString (mT m)), \<lambda>_. True, \<lambda>s. s\<lparr>mT := mT m\<rparr>),
      ((''Y'', ''y'', False, GString (mY m)), \<lambda>_. True, \<lambda>s. s\<lparr>mY := mY m\<rparr>),
      ((''Q'', ''q'', True, GString (mQ m)), \<lambda>_. True, \<lambda>s. s\<lparr>mQ := mQ m\<rparr>),
      ((''A'', ''a'', True, QueryArg_gval (mA m)), \<lambda>s. mA s = noArg, \<lambda>s. s\<lparr>mA := mA m\<rparr>),
      ((''R'', ''r'', True, ResponseResult_gval L (mR m)), \<lambda>s. mR s = noResult, \<lambda>s. s\<lparr>mR := mR m\<rparr>),
      ((''E'', ''e'', True,
        GMarshaler (mE m = \<lparr>Code = 0, Reason = []\<rparr>) (Error_MarshalBencode (mE m))), \<lambda>_. True, \<lambda>s. s\<lparr>mE := mE m\<rparr>),
      ((''RO'', ''ro'', True, GBool (mRO m)), \<lambda>_. True, \<lambda>s. s\<lparr>mRO := mRO m\<rparr>)]"

lemma Message_names:
  "map extractFieldName (Message_fields L R) = map ascii [''t'', ''y'', ''q'', ''a'', ''r'', ''e'', ''ro'']"
  using valid_tags by (simp add: Message_fields_def extract_tagged tag_names Let_def)

lemma struct_gvals [simp]:
  "\<not> isNilValue (QueryArg_gval a)" "\<not> isNilValue (ResponseResult_gval L r)"
  "isEmptyValue (QueryArg_gval a) = (a = noArg)" "isEmptyValue (ResponseResult_gval L r) = (r = noResult)"
  by (simp_all add: QueryArg_gval_def ResponseResult_gval_def)

lemma Message_fields_read:
  assumes "wf_message L m" "list_all ip_address (rValues (mR m))"
  shows "list_all2 field_reads (Message_fields L R) (Message_views L m)"
proof -
  have a: "carries (QueryArg_gval (mA m)) (into_struct False QueryArg_fields) (\<lambda>s. s = noArg) (\<lambda>_. mA m)"
    and r: "carries (ResponseResult_gval L (mR m)) (into_struct False (ResponseResult_fields L R)) (\<lambda>s. s = noResult) (\<lambda>_. mR m)"
    using assms by (simp_all add: wf_message_def QueryArg_reads ResponseResult_reads)
  show ?thesis
    unfolding Message_fields_def Message_views_def
    by (intro list.rel_intros; (rule scalar_reads | rule field_readsI [OF _ _ _ a] | rule field_readsI [OF _ _ _ r]
          | rule field_readsI [where ready = "\<lambda>_. True", OF _ _ _ error_reads])?;
        (rule extract_tag)?; (use assms(1) in \<open>simp add: tag_names good_tags [simplified] wf_message_def fits_def\<close>)?)
qed

lemma Message_reads:
  assumes "wf_message L m" "list_all ip_address (rValues (mR m))"
  shows "carries (Message_gval L m) (into_struct fu (Message_fields L R)) (\<lambda>s. s = zeroMessage) (\<lambda>_. m)"
proof (rule carries_fields [OF Message_fields_read [OF assms]])
  let ?xs = "Message_views L m" and ?fs = "Message_fields L R"
  show "distinct (map extractFieldName ?fs)" using names_distinct(3) by (simp only: Message_names)
  show "\<forall>x\<in>set ?xs. \<forall>y\<in>set ?xs. v_tag x \<noteq> v_tag y \<longrightarrow> (\<forall>s. v_ready y s \<longrightarrow> v_ready y (v_upd x s))"
    "\<forall>x\<in>set ?xs. \<forall>y\<in>set ?xs. \<forall>s. v_upd x (v_upd y s) = v_upd y (v_upd x s)"
    by (simp_all add: Message_views_def)
  show "\<forall>x\<in>set ?xs. \<not> v_present x \<longrightarrow> v_upd x zeroMessage = zeroMessage" "list_all (\<lambda>x. v_ready x zeroMessage) ?xs"
    by (simp_all add: Message_views_def v_present_def zeroMessage_def)
qed (simp_all add: Message_views_def Message_gval_def Message_fields_def zeroMessage_def)

lemma Message_Decode_Encode:
  assumes "wf_message L m" "list_all ip_address (rValues (mR m))"
  shows "\<exists>b. Message_Encode L m = Inr b \<and> (\<forall>s. Message_Decode L R (b @ s) = Inr m)"
  using Message_reads [OF assms, of False R] by (auto simp: carries_def Message_Encode_def Message_Decode_def)

section \<open>Any input is decoded\<close>

lemma plain_regular_total:
  "list_all (\<lambda>(k, d). total_decoder d) m \<Longrightarrow> list_all (\<lambda>f. total_decoder (tf_decode f)) fs \<Longrightarrow>
   list_all (\<lambda>(k, d). total_decoder d) (processRegularFields m fs)"
proof (induction fs arbitrary: m)
  case (Cons f fs)
  have "list_all (\<lambda>(k, d). total_decoder d) (mput m (extractFieldName f) (tf_decode f))"
    using Cons(2,3) set_mput [of m "extractFieldName f" "tf_decode f"] by (auto simp: list_all_iff)
  then show ?case using Cons by auto
qed simp

lemma plain_total:
  "list_all (\<lambda>f. \<not> tf_anonymous f \<and> total_decoder (tf_decode f)) fs \<Longrightarrow> total_decoder (into_struct fu fs)"
  using plain_regular_total [of "[]" fs] plain_embedded [of fs "[]"]
  by (intro struct_total) (auto simp: setStructValues_def list_all_iff)

lemmas field_totals = scalars_total slice_total byte_slice_total unmarshaler_total at_field_total

interpretation message_dec: total_decoder "into_struct False (Message_fields L R)" for L R
proof (rule plain_total)
  have a: "total_decoder (into_struct False QueryArg_fields)"
    by (rule plain_total) (simp add: QueryArg_fields_def field_totals into_hash_def)
  have r: "total_decoder (into_struct False (ResponseResult_fields L R))"
    by (rule plain_total) (simp add: ResponseResult_fields_def field_totals into_hash_def)
  show "list_all (\<lambda>f. \<not> tf_anonymous f \<and> total_decoder (tf_decode f)) (Message_fields L R)"
    by (simp add: Message_fields_def field_totals a r)
qed

section \<open>Properties\<close>

text \<open>C3: A KRPC message with hashes of 20 bytes, integers of 64 bits, nodes of the right family and
  peers with IP addresses survives the wire: it is encoded without error, and decoding what was
  written, whatever follows it, gives the same message, with the fields that were left out as empty
  at their zero values.\<close>

theorem message_roundtrip:
  assumes "wf_message L m" "list_all ip_address (rValues (mR m))"
  shows "\<exists>b. Message_Encode L m = Inr b \<and> (\<forall>s. Message_Decode L R (b @ s) = Inr m)"
  by (rule Message_Decode_Encode [OF assms])

theorem message_roundtrip_witness:
  "\<exists>b. Message_Encode no_i2p (NewResponseMsg (ascii ''aa'')
        (noResult\<lparr>rID := replicate 20 5, rValues := [\<lparr>IP = IPAddr [10, 0, 0, 1], Port = 80\<rparr>]\<rparr>)) = Inr b \<and>
     (\<forall>s. Message_Decode no_i2p \<lparr>r_LookupIP = \<lambda>_. None, r_I2PLookup = \<lambda>_. None\<rparr> (b @ s) = Inr (NewResponseMsg (ascii ''aa'')
        (noResult\<lparr>rID := replicate 20 5, rValues := [\<lparr>IP = IPAddr [10, 0, 0, 1], Port = 80\<rparr>]\<rparr>)))"
proof (rule message_roundtrip)
  have "length (IP_String [10, 0, 0, 1]) < 2 ^ 31" using length_IP_String [of "[10, 0, 0, 1]"] by simp
  then show "wf_message no_i2p (NewResponseMsg (ascii ''aa'')
      (noResult\<lparr>rID := replicate 20 5, rValues := [\<lparr>IP = IPAddr [10, 0, 0, 1], Port = 80\<rparr>]\<rparr>))"
    by (simp add: wf_message_def NewResponseMsg_def zeroMessage_def noArg_def noResult_def wf_arg_def
        wf_result_def fits_def is_int64_def wf_hash_def zeroHash_def ascii_def HashSize_def Addr_String_def ipEmptyString_def)
qed (simp add: NewResponseMsg_def ip_address_def)

text \<open>Decoding a packet ends, whatever its bytes: the recursion through structs, lists, and types
  with methods of their own takes at least one byte each time.\<close>

theorem message_decode_terminates: "Message_Decode L R data \<noteq> Inl OutOfFuel"
  using message_dec.enough [of L R zeroMessage data] by (auto simp: Message_Decode_def split: sum.split)

end
