(* ===== verification/DhtWire.thy ===== *)
theory DhtWire
  imports DhtServer_Props KrpcDecode
begin

text \<open>
  The server and the wire: \<^verbatim>\<open>handlePacket\<close> of \<^verbatim>\<open>dht/dht_server.go\<close>, which decodes what the
  connection received and passes it to the handlers, and what follows for servers that talk to each
  other in packets.
\<close>

section \<open>Packets\<close>

text \<open>
  The handler runs in a goroutine of its own; here it runs when the packet arrives. A malformed
  packet is only logged.
\<close>

definition handlePacket :: "dht_env \<Rightarrow> resolver \<Rightarrow> server \<Rightarrow> netaddr \<Rightarrow> bytes \<Rightarrow> server option" where
  "handlePacket E R s raddr data =
     (if isDisabled s raddr then Some s
      else do {
        ip \<leftarrow> utils_IPAddr (e_i2p E) raddr;
        port \<leftarrow> utils_Port (e_i2p E) raddr;
        if blacklist_In (s_blacklist s) ip port then Some s
        else case Message_Decode (e_i2p E) R data of
               Inl _ \<Rightarrow> Some s
             | Inr m \<Rightarrow> if mT m = [] then Some s else handleMessage E s raddr m
      })"

section \<open>Decoded messages are well typed\<close>

text \<open>What the Go types say of a message: hashes are arrays of 20 bytes, the nodes of a list have
  addresses of its family, integers have 64 bits.\<close>

definition typed_arg :: "query_arg \<Rightarrow> bool" where
  "typed_arg a \<longleftrightarrow> wf_hash (aID a) \<and> wf_hash (aTarget a) \<and> wf_hash (aInfoHash a) \<and> is_int64 (aSeq a) \<and> is_int64 (aCAS a)"

definition typed_result :: "response_result \<Rightarrow> bool" where
  "typed_result r \<longleftrightarrow> wf_hash (rID r) \<and> list_all wf_hash (rSamples r) \<and> list_all (wf_node 4) (rNodes r) \<and>
     list_all (wf_node 16) (rNodes6 r) \<and> is_int64 (rNum r) \<and> is_int64 (rInterval r) \<and> is_int64 (rSeq r)"

definition typed_message :: "message \<Rightarrow> bool" where
  "typed_message m \<longleftrightarrow> typed_arg (mA m) \<and> typed_result (mR m)"

definition keeps :: "('a \<Rightarrow> bool) \<Rightarrow> 'a decoder \<Rightarrow> bool" where
  "keeps P d \<longleftrightarrow> (\<forall>s bs s' r. P s \<longrightarrow> d s bs = Inr (s', r) \<longrightarrow> P s')"

lemma keepsI: "(\<And>s bs s' r. P s \<Longrightarrow> d s bs = Inr (s', r) \<Longrightarrow> P s') \<Longrightarrow> keeps P d"
  by (auto simp: keeps_def)

lemma keepsD: "keeps P d \<Longrightarrow> P s \<Longrightarrow> d s bs = Inr (s', r) \<Longrightarrow> P s'"
  by (auto simp: keeps_def)

lemma keeps_at:
  "keeps Q d \<Longrightarrow> (\<And>s. P s \<Longrightarrow> Q (get s)) \<Longrightarrow> (\<And>s v. P s \<Longrightarrow> Q v \<Longrightarrow> P (put v s)) \<Longrightarrow> keeps P (at_field get put d)"
  by (rule keepsI) (auto simp: at_field_def split: sum.splits dest: keepsD)

lemma keeps_any: "keeps (\<lambda>_. True) d"
  by (simp add: keeps_def)

lemma keeps_struct_pairs:
  assumes "\<And>key. keeps P (handleKeyValuePair fu vals key)"
  shows "P s \<Longrightarrow> into_struct_pairs f fu lk vals s bs = Inr (s', r) \<Longrightarrow> P s'"
proof (induction f arbitrary: lk s bs)
  case (Suc f)
  then show ?case
    by (fastforce simp: into_struct_pairs.simps split: list.splits if_splits sum.splits prod.splits dest: keepsD [OF assms])
qed simp

lemma regular_fields:
  "(k, d) \<in> set (processRegularFields m fs) \<Longrightarrow> (k, d) \<in> set m \<or> (\<exists>f \<in> set fs. d = tf_decode f)"
proof (induction fs arbitrary: m)
  case (Cons f fs)
  then show ?case using set_mput [of m "extractFieldName f" "tf_decode f"] by (fastforce split: if_splits)
qed simp

lemma keeps_struct:
  assumes "list_all (\<lambda>f. \<not> tf_anonymous f \<and> keeps P (tf_decode f)) fs"
  shows "keeps P (into_struct fu fs)"
proof (rule keepsI)
  fix s bs s' r assume P: "P s" and d: "into_struct fu fs s bs = Inr (s', r)"
  have e: "processEmbeddedFields [] fs = []" using assms by (intro plain_embedded) (auto simp: list_all_iff)
  have "keeps P (handleKeyValuePair fu (setStructValues [] fs) key)" for key
  proof (cases "map_of (setStructValues [] fs) key")
    case None
    then show ?thesis by (auto simp: handleKeyValuePair_def skipInvalidValue_def keeps_def split: sum.splits)
  next
    case (Some d)
    then obtain f where "f \<in> set fs" "d = tf_decode f"
      using regular_fields [of key d "[]" fs] by (auto simp: setStructValues_def e dest: map_of_SomeD)
    then show ?thesis using assms Some by (simp add: handleKeyValuePair_def list_all_iff)
  qed
  then show "P s'" using d P keeps_struct_pairs [of P fu "setStructValues [] fs" s]
    by (auto simp: into_struct_def dispatchDecodeByType_def cannot_def readIntegerDigits_def
        split: list.splits if_splits sum.splits option.splits)
qed

lemma keeps_elements: "keeps P d \<Longrightarrow> P zero \<Longrightarrow> list_all P cur \<Longrightarrow> into_elements f zero d cur bs = Inr (vs, r) \<Longrightarrow> list_all P vs"
proof (induction f arbitrary: cur bs vs)
  case (Suc f)
  have c: "P (case cur of [] \<Rightarrow> zero | x # _ \<Rightarrow> x)" "list_all P (tl cur)" using Suc.prems(2,3) by (cases cur; simp)+
  show ?case using Suc.prems(3,4) keepsD [OF Suc.prems(1) c(1), of bs] Suc.IH [OF Suc.prems(1,2) c(2)]
    by (auto simp: into_elements.simps split: list.splits if_splits sum.splits)
qed simp

lemma keeps_slice: "keeps P d \<Longrightarrow> P zero \<Longrightarrow> keeps (list_all P) (into_slice zero d)"
  by (rule keepsI)
     (auto simp: into_slice_def dispatchDecodeByType_def cannot_def readIntegerDigits_def
        split: list.splits if_splits sum.splits option.splits dest: keeps_elements)

lemma keeps_unmarshaler: "(\<And>cur b v. u cur b = Inr v \<Longrightarrow> P v) \<Longrightarrow> keeps P (into_unmarshaler u)"
  by (rule keepsI) (auto simp: into_unmarshaler_def handleUnmarshalerInterface_def split: sum.splits)

lemma FromString_length: "Hash_FromString s = Inr h \<Longrightarrow> wf_hash h"
  using length_hex_decode length_base32_decode
  by (fastforce simp: Hash_FromString_def Hash_FromHexString_def wf_hash_def HashSize_def split: if_splits)

lemma keeps_hash: "keeps wf_hash into_hash"
  unfolding into_hash_def
  by (rule keeps_unmarshaler) (auto simp: Hash_UnmarshalBencode_def split: sum.splits dest: FromString_length)

lemma wrap_signed_range: "is_int64 (wrap_signed 64 n)"
  by (simp add: is_int64_def wrap_signed_def)

lemma keeps_int: "keeps is_int64 (into_int 64)"
  by (rule keepsI)
     (auto simp: into_int_def dispatchDecodeByType_def cannot_def readIntegerDigits_def assignIntegerValue_def wrap_signed_range
        split: list.splits if_splits sum.splits option.splits)

lemma keeps_nodes:
  "keeps (list_all (wf_node 4)) (into_unmarshaler (\<lambda>_. CompactIPv4Node_UnmarshalBencode L))"
  "keeps (list_all (wf_node 16)) (into_unmarshaler (\<lambda>_. CompactIPv6Node_UnmarshalBencode L))"
proof -
  have "list_all (wf_node 4) ns" if "CompactIPv4Node_UnmarshalBinary L b = Inr ns" for b ns
  proof -
    have "length b mod 26 = 0" using that by (auto simp: CompactIPv4Node_UnmarshalBinary_def split: if_splits)
    from ipv4.enc_dec_list [OF this, of L] obtain xs where
      "map_result (Node_UnmarshalBinary L) (chunks 26 b) = Inr xs" "\<forall>x \<in> set xs. wf_node 4 x" .
    then show ?thesis using that by (auto simp: CompactIPv4Node_UnmarshalBinary_def list_all_iff split: if_splits)
  qed
  then show "keeps (list_all (wf_node 4)) (into_unmarshaler (\<lambda>_. CompactIPv4Node_UnmarshalBencode L))"
    by (intro keeps_unmarshaler) (auto simp: CompactIPv4Node_UnmarshalBencode_def split: sum.splits)
  have "list_all (wf_node 16) ns" if "CompactIPv6Node_UnmarshalBinary L b = Inr ns" for b ns
  proof -
    have "length b mod 38 = 0" using that by (auto simp: CompactIPv6Node_UnmarshalBinary_def split: if_splits)
    from ipv6.enc_dec_list [OF this, of L] obtain xs where
      "map_result (Node_UnmarshalBinary L) (chunks 38 b) = Inr xs" "\<forall>x \<in> set xs. wf_node 16 x" .
    then show ?thesis using that by (auto simp: CompactIPv6Node_UnmarshalBinary_def list_all_iff split: if_splits)
  qed
  then show "keeps (list_all (wf_node 16)) (into_unmarshaler (\<lambda>_. CompactIPv6Node_UnmarshalBencode L))"
    by (intro keeps_unmarshaler) (auto simp: CompactIPv6Node_UnmarshalBencode_def split: sum.splits)
qed

lemmas keeps_fields =
  keeps_at [OF keeps_hash] keeps_at [OF keeps_int] keeps_at [OF keeps_slice [OF keeps_hash]]
  keeps_at [OF keeps_nodes(1)] keeps_at [OF keeps_nodes(2)]
  keeps_at [OF keeps_any, of _ _ _ into_string] keeps_at [OF keeps_any, of _ _ _ into_byte_slice]
  keeps_at [OF keeps_any, of _ _ _ into_bool] keeps_at [OF keeps_any, of _ _ _ "into_uint w" for w]
  keeps_at [OF keeps_any, of _ _ _ "into_slice [] into_string"]
  keeps_at [OF keeps_any, of _ _ _ "into_slice noAddress d" for d]
  keeps_at [OF keeps_any, of _ _ _ "into_unmarshaler Error_UnmarshalBencode"]

lemma keeps_message: "keeps typed_message (into_struct fu (Message_fields L R))"
proof (rule keeps_struct)
  have z: "wf_hash zeroHash" by (simp add: wf_hash_def zeroHash_def)
  have a: "keeps typed_arg (into_struct False QueryArg_fields)"
    by (rule keeps_struct) (auto simp: QueryArg_fields_def typed_arg_def intro!: keeps_fields)
  have r: "keeps typed_result (into_struct False (ResponseResult_fields L R))"
    by (rule keeps_struct) (auto simp: ResponseResult_fields_def typed_result_def z intro!: keeps_fields)
  show "list_all (\<lambda>f. \<not> tf_anonymous f \<and> keeps typed_message (tf_decode f)) (Message_fields L R)"
    by (auto simp: Message_fields_def typed_message_def intro!: keeps_at [OF a] keeps_at [OF r] keeps_fields)
qed

lemma decoded_typed: "Message_Decode L R data = Inr m \<Longrightarrow> typed_message m"
proof -
  assume "Message_Decode L R data = Inr m"
  then obtain r where "into_struct False (Message_fields L R) zeroMessage data = Inr (m, r)"
    by (auto simp: Message_Decode_def split: sum.splits)
  moreover have "typed_message zeroMessage"
    by (simp add: typed_message_def typed_arg_def typed_result_def zeroMessage_def noArg_def noResult_def
        wf_hash_def zeroHash_def is_int64_def)
  ultimately show ?thesis using keepsD [OF keeps_message] by blast
qed

lemma wf_node_ids: "list_all (wf_node w) ns \<Longrightarrow> n \<in> set ns \<Longrightarrow> wf_hash (ID n) \<and> IP (Addr n) \<noteq> NilAddr"
  by (auto simp: list_all_iff wf_node_def)

lemma typed_ids: "typed_message m \<Longrightarrow> wf_ids m"
  unfolding typed_message_def typed_arg_def typed_result_def wf_ids_def by (metis UnE set_append wf_node_ids)

text \<open>A packet is a step of the server, or nothing.\<close>

lemma packet_step:
  assumes "handlePacket E R s raddr data = Some s'" "raddr \<noteq> NilAddr"
  shows "s' = s \<or> server_step (e_i2p E) (e_verify E) s s'"
  using assms decoded_typed [of "e_i2p E" R data] typed_ids step_message [OF refl refl, of _ raddr E s s']
  by (auto simp: handlePacket_def bind_eq_Some_conv split: if_splits sum.splits)

lemma packet_reach:
  assumes "reach (server_init (e_i2p E)) (server_step (e_i2p E) (e_verify E)) s"
    "handlePacket E R s raddr data = Some s'" "raddr \<noteq> NilAddr"
  shows "reach (server_init (e_i2p E)) (server_step (e_i2p E) (e_verify E)) s'"
  using packet_step [OF assms(2,3)] assms(1) by (auto intro: reach_step)

section \<open>A query and its answer\<close>

lemma rt_AddNode_unknown:
  assumes "\<forall>m \<in> set (rt_nodes rt). ID m \<noteq> ID n" "placed rt" "wf_hash (ID n)" "rt_AddNode L rt n now = Some (rt', r)"
  shows "r \<noteq> NodeExistAndChanged"
proof -
  let ?i = "bucketid (rt_root rt) (ID n)"
  have "?i < length (rt_bkts rt)"
    using bucketid_bound [OF placedD(1) [OF assms(2)] assms(3)] placedD(2) [OF assms(2)] by simp
  then have "\<forall>w \<in> set (Nodes (rt_bkts rt ! ?i)). ID (WNode w) \<noteq> ID n" using assms(1) by (fastforce simp: rt_nodes_def)
  then have "find (\<lambda>w. ID (WNode w) = ID n) (Nodes (rt_bkts rt ! ?i)) = None" by (simp add: find_None_iff)
  then show ?thesis using assms(4)
    by (auto simp: rt_AddNode_def rt_addNode_def Let_def bucket_AddNode_def split: if_splits option.splits)
qed

definition unknown_node :: "server \<Rightarrow> hash \<Rightarrow> bool" where
  "unknown_node s h \<longleftrightarrow> (\<forall>n \<in> set (rt_nodes (s_rt4 s)) \<union> set (rt_nodes (s_rt6 s)). ID n \<noteq> h)"

lemma addNode_unknown:
  assumes "server_ok v s" "a \<noteq> NilAddr" "wf_hash h" "unknown_node s h"
  obtains r s' where "server_addNode E s a h ro = Some (r, s')" "r \<noteq> NodeExistAndChanged"
    "s_out s' = s_out s" "s_conf s' = s_conf s" "s_trans s' = s_trans s"
proof -
  obtain r s' where a: "server_addNode E s a h ro = Some (r, s')" "s_out s' = s_out s" "s_conf s' = s_conf s"
    using addNode_total [OF assms(1-3)] by blast
  have p: "placed (s_rt4 s)" "placed (s_rt6 s)" using assms(1) by (simp_all add: server_ok_def)
  have u: "\<forall>m \<in> set (rt_nodes (s_rt4 s)). ID m \<noteq> h" "\<forall>m \<in> set (rt_nodes (s_rt6 s)). ID m \<noteq> h"
    using assms(4) by (auto simp: unknown_node_def)
  have "r \<noteq> NodeExistAndChanged \<and> s_trans s' = s_trans s"
  proof (cases ro)
    case False
    then obtain n s1 where n: "NewNodeByUDPAddr (e_i2p E) h a = Some n" "Server_AddNode E s n = Some (r, s1)"
      using a(1) by (auto simp: server_addNode_def bind_eq_Some_conv split: if_splits)
    have "ID n = h" using n(1) by (auto simp: NewNodeByUDPAddr_def split: option.splits)
    then have r: "r \<noteq> NodeExistAndChanged"
      using n(2) rt_AddNode_unknown [OF _ p(1), of n "e_i2p E" "e_now E"]
        rt_AddNode_unknown [OF _ p(2), of n "e_i2p E" "e_now E"] u assms(3)
      by (fastforce simp: Server_AddNode_def bind_eq_Some_conv split: if_splits)
    then show ?thesis using a(1) n False by (auto simp: server_addNode_def bind_eq_Some_conv dest: trans_AddNode)
  qed (use a(1) in \<open>auto simp: server_addNode_def\<close>)
  then show ?thesis using a that by blast
qed

text \<open>An address from which packets are taken.\<close>

definition open_to :: "server \<Rightarrow> ip \<Rightarrow> int \<Rightarrow> bool" where
  "open_to s p port \<longleftrightarrow> \<not> isDisabled s (UDPAddr p port) \<and> \<not> blacklist_In (s_blacklist s) (IP_String p) port"

lemma packet_of_message:
  assumes "open_to s p port" "wf_message (e_i2p E) m" "list_all ip_address (rValues (mR m))" "mT m \<noteq> []"
    "Message_Encode (e_i2p E) m = Inr b"
  shows "handlePacket E R s (UDPAddr p port) b = handleMessage E s (UDPAddr p port) m"
proof -
  have "Message_Decode (e_i2p E) R b = Inr m"
    using Message_Decode_Encode [OF assms(2,3), of R] assms(5) by (auto dest: spec [of _ "[]"])
  then show ?thesis
    using assms(1,4) by (simp add: handlePacket_def open_to_def utils_IPAddr_def utils_Port_def)
qed

lemma length_format36: "n < 36 ^ Suc k \<Longrightarrow> length (format36 n) \<le> Suc k"
proof (induction k arbitrary: n)
  case (Suc k)
  then have "n div 36 < 36 ^ Suc k" by (simp add: div_less_iff_less_mult)
  from Suc.IH [OF this] show ?case by (subst format36.simps) simp
qed (simp add: format36.simps)

lemma fits_format36: "fits (format36 (unat (w :: 32 word)))" "format36 n \<noteq> []"
proof -
  have "unat w < 36 ^ Suc 6" using unsigned_less [of w, where ?'a = nat] by simp
  from length_format36 [OF this] show "fits (format36 (unat w))" by (simp add: fits_def)
qed (subst format36.simps, simp)

definition ping_query :: "server \<Rightarrow> message" where
  "ping_query s = (NewQueryMsg (format36 (unat (tx_tid (s_trans s) + 1))) (ascii ''ping'') (noArg\<lparr>aID := cID (s_conf s)\<rparr>))
     \<lparr>mRO := cReadOnly (s_conf s)\<rparr>"

definition ping_response :: "server \<Rightarrow> message \<Rightarrow> message" where
  "ping_response s q = NewResponseMsg (mT q) (noResult\<lparr>rID := cID (s_conf s)\<rparr>)"

lemma ping_query_parts:
  "mT (ping_query s) \<noteq> []" "fits (mT (ping_query s))" "mY (ping_query s) = ascii ''q''" "mQ (ping_query s) = ascii ''ping''"
  "aID (mA (ping_query s)) = cID (s_conf s)" "rValues (mR (ping_query s)) = []" "mRO (ping_query s) = cReadOnly (s_conf s)"
  by (simp_all add: ping_query_def NewQueryMsg_def zeroMessage_def noResult_def fits_format36)

lemma ping_response_parts:
  "mT (ping_response s q) = mT q" "mY (ping_response s q) = ascii ''r''" "rID (mR (ping_response s q)) = cID (s_conf s)"
  "rValues (mR (ping_response s q)) = []" "mRO (ping_response s q) = False"
  by (simp_all add: ping_response_def NewResponseMsg_def zeroMessage_def noResult_def)

lemma wf_ping_query: "server_ok v s \<Longrightarrow> wf_message L (ping_query s)"
  using wf_noResult [of zeroHash L] fits_format36(1) [of "tx_tid (s_trans s) + 1"]
  by (simp add: ping_query_def wf_message_def NewQueryMsg_def zeroMessage_def noArg_def noResult_def wf_arg_def
      fits_def ascii_def is_int64_def wf_hash_def zeroHash_def server_ok_def wf_result_def)

lemma wf_ping_response: "server_ok v s \<Longrightarrow> fits (mT q) \<Longrightarrow> wf_message L (ping_response s q)"
  using wf_noResult [of "cID (s_conf s)" L]
  by (simp add: ping_response_def wf_message_def NewResponseMsg_def zeroMessage_def noArg_def wf_arg_def
      fits_def ascii_def is_int64_def wf_hash_def zeroHash_def server_ok_def)

text \<open>The query goes out and is remembered.\<close>

lemma ping_sent:
  assumes "server_ok v s" "writes_all E" "\<not> isDisabled s a" "Addr_String (e_i2p E) a = Some key"
  obtains t tm where "Ping E s a (Some cb) = Some (None, s\<lparr>s_trans := tm, s_out := s_out s @ [Sent a (ping_query s)]\<rparr>)"
    "map_of (tx_trans tm) (mT (ping_query s), key) = Some t"
    "tr_OnResponse t = onPingResp" "tr_Callback t = Some cb" "tr_Addr t = a"
proof -
  let ?tid = "tx_tid (s_trans s) + 1"
  let ?s = "s\<lparr>s_trans := (s_trans s)\<lparr>tx_tid := ?tid\<rparr>\<rparr>"
  let ?t = "(newTransaction E a (ascii ''ping'') (noArg\<lparr>aID := cID (s_conf s)\<rparr>) (Some cb))
    \<lparr>tr_OnResponse := onPingResp, tr_ID := mT (ping_query s)\<rparr>"
  have q: "(NewQueryMsg (format36 (unat ?tid)) (ascii ''ping'') (noArg\<lparr>aID := cID (s_conf s)\<rparr>))\<lparr>mRO := cReadOnly (s_conf s)\<rparr>
      = ping_query s"
    "mT (ping_query s) = format36 (unat ?tid)"
    by (simp_all add: ping_query_def NewQueryMsg_def)
  have "server_send E ?s a (NewQueryMsg (format36 (unat ?tid)) (ascii ''ping'') (noArg\<lparr>aID := cID (s_conf s)\<rparr>)) =
      Some (False, emit (Sent a (ping_query s)) ?s)"
    using send_total [OF assms(2), of "NewQueryMsg (format36 (unat ?tid)) (ascii ''ping'') (noArg\<lparr>aID := cID (s_conf s)\<rparr>)" ?s a]
      wf_ping_query [OF assms(1), of "e_i2p E"]
    by (simp add: ping_query_def fits_format36 NewQueryMsg_def ascii_def)
  then have "Ping E s a (Some cb) = Some (None, s\<lparr>s_trans := (s_trans s)\<lparr>tx_tid := ?tid,
        tx_trans := mput (tx_trans (s_trans s)) (mT (ping_query s), key) ?t\<rparr>, s_out := s_out s @ [Sent a (ping_query s)]\<rparr>)"
    using assms(3,4)
    by (simp add: Ping_def request_def newTransaction_def GetTransactionID_def AddTransaction_def emit_def Let_def q)
  then show ?thesis by (rule that) (simp add: newTransaction_def)+
qed

text \<open>The node that gets it answers.\<close>

lemma ping_replied:
  assumes "server_ok v s" "writes_all E" "raddr \<noteq> NilAddr" "unknown_node s (aID (mA q))" "\<not> cReadOnly (s_conf s)"
    "mY q = ascii ''q''" "mQ q = ascii ''ping''" "wf_hash (aID (mA q))" "\<not> Hash_IsZero (aID (mA q))" "mT q \<noteq> []" "fits (mT q)"
  obtains s' where "handleMessage E s raddr q = Some s'" "s_out s' = s_out s @ [Sent raddr (ping_response s q)]"
proof -
  obtain r s1 where a: "server_addNode E s raddr (aID (mA q)) (mRO q) = Some (r, s1)" "r \<noteq> NodeExistAndChanged"
    "s_out s1 = s_out s" "s_conf s1 = s_conf s"
    using addNode_unknown [OF assms(1,3,8,4)] by metis
  have "wf_hash (cID (s_conf s1))" using assms(1) a(4) by (simp add: server_ok_def)
  from reply_total [OF assms(2,10,11) wf_noResult [OF this], of raddr] show ?thesis
    using a assms(5-9) that
    by (simp add: handleMessage_def handleQueryMessage_def handleQuery_def emit_def ping_response_def NewResponseMsg_def zeroMessage_def)
qed

text \<open>The node that asked hears the answer and calls back.\<close>

lemma ping_done:
  assumes "server_ok v s" "a \<noteq> NilAddr" "Addr_String (e_i2p E) a = Some key" "unknown_node s (rID (mR r))"
    "map_of (tx_trans (s_trans s)) (mT r, key) = Some t" "tr_OnResponse t = onPingResp" "tr_Callback t = Some cb"
    "mY r = ascii ''r''" "wf_hash (rID (mR r))" "\<not> Hash_IsZero (rID (mR r))"
  obtains s' where "handleMessage E s a r = Some s'"
    "s_out s' = s_out s @ [Called cb (noResultR\<lparr>res_Addr := Some (tr_Addr t)\<rparr>)]"
proof -
  obtain st s1 where n: "server_addNode E s a (rID (mR r)) (mRO r) = Some (st, s1)" "st \<noteq> NodeExistAndChanged"
    "s_out s1 = s_out s" "s_trans s1 = s_trans s"
    using addNode_unknown [OF assms(1,2,9,4)] by metis
  have "ascii ''r'' \<noteq> ascii ''q''" by (simp add: ascii_def)
  then show ?thesis
    using n assms(3,5-8,10) that
    by (simp add: handleMessage_def handleResponseMessage_def processTransaction_def PopTransaction_def OnResponse_def
        Done_def emit_def)
qed

section \<open>Errors of the encoder\<close>

lemma cat_results_error: "r \<in> set rs \<Longrightarrow> isl r \<Longrightarrow> isl (cat_results rs)"
  by (induction rs) (auto split: sum.splits)

lemma encode_slice_error: "g \<in> set gs \<Longrightarrow> isl (encodeValue g) \<Longrightarrow> isl (encodeValue (GSlice gs))"
  using cat_results_error [of "encodeValue g" "map encodeValue gs"]
  by (auto simp: encodeValue.simps [of "GSlice gs"] wrap_def isl_def)

lemma encode_struct_error: "(k, g) \<in> set (readStruct fs) \<Longrightarrow> isl (encodeValue g) \<Longrightarrow> isl (encodeValue (GStruct z fs))"
  using cat_results_error [of "keyed k (encodeValue g)" "map (\<lambda>(k, v). keyed k (encodeValue v)) (sort_key fst (readStruct fs))"]
  by (force simp: encodeValue.simps [of "GStruct z fs"] wrap_def keyed_def isl_def)

lemma in_readStruct:
  assumes "(n, t, om, g) \<in> set fs" "good_tag t" "\<not> isNilValue g" "\<not> (om \<and> isEmptyValue g)"
  shows "(ascii t, g) \<in> set (readStruct (map mk_field fs))"
  using assms(1)
proof (induction fs)
  case (Cons f fs)
  show ?case
  proof (cases "f = (n, t, om, g)")
    case True
    have "ascii t \<noteq> []" using assms(2) by (auto simp: good_tag_def isValidTag_def)
    then show ?thesis using True assms field_omitempty [of "ascii t"] field_plain [of "ascii t"]
      by (cases om) (simp_all add: mk_field_def readStruct_field good_tag_def del: readStruct.simps)
  qed (use Cons in auto)
qed simp

lemma nil_address_error:
  assumes "a \<in> set (rValues (mR m))" "IP a = NilAddr"
  shows "isl (Message_Encode L m)"
proof -
  let ?v = "GSlice (map (address_gval L) (rValues (mR m)))"
  have "isl (encodeValue (address_gval L a))"
    using assms(2) by (simp add: encodeValue.simps address_gval_def Address_MarshalBencode_def Addr_String_def)
  then have v: "isl (encodeValue ?v)" using assms(1) by (intro encode_slice_error) auto
  have ne: "mR m \<noteq> noResult" using assms(1) by (auto simp: noResult_def)
  have r: "isl (encodeValue (ResponseResult_gval L (mR m)))"
    unfolding ResponseResult_gval_def
    by (rule encode_struct_error [OF in_readStruct v, of "''Values''" "''values''" True])
       (use assms(1) good_tags in auto)
  show ?thesis
    unfolding Message_Encode_def Message_gval_def
    by (rule encode_struct_error [OF in_readStruct r, of "''R''" "''r''" True])
       (use ne good_tags in \<open>auto simp: ResponseResult_gval_def\<close>)
qed

lemma reply_nil_address: "a \<in> set (rValues r) \<Longrightarrow> IP a = NilAddr \<Longrightarrow> reply E s raddr tid r = None"
  using nil_address_error [of a "(NewResponseMsg tid (r\<lparr>rID := cID (s_conf s)\<rparr>))\<lparr>mRO := cReadOnly (s_conf s)\<rparr>" "e_i2p E"]
  by (auto simp: reply_def server_send_def server_send0_def NewResponseMsg_def zeroMessage_def isl_def)

lemma populate_values:
  assumes "\<And>b. tokenPeerManager_GetPeers (s_peers s) h (cK (s_conf s)) b = Some vs" "vs \<noteq> []"
  obtains r' where "populatePeersResponse s n4 n6 raddr h noResult = Some r'" "vs \<noteq> []" "set (rValues r') = set vs"
  using assms by (cases n4; cases n6) (auto simp: populatePeersResponse_def Let_def noResult_def)

section \<open>Properties\<close>

text \<open>C16: Whatever bytes a packet has, a message that is decoded from it is well typed: its identifiers
  and hashes have 20 bytes, its nodes are of the family of their list and its numbers have 64
  bits. So handling the packet of an attacker is a step of the server like any other, and the
  state after it is one of the reachable ones, of which the invariants hold.\<close>

theorem decoded_message_typed:
  assumes "reach (server_init (e_i2p E)) (server_step (e_i2p E) (e_verify E)) s" "raddr \<noteq> NilAddr"
  shows "(Message_Decode (e_i2p E) R data = Inr m \<longrightarrow> typed_message m) \<and>
    (handlePacket E R s raddr data = Some s' \<longrightarrow>
      reach (server_init (e_i2p E)) (server_step (e_i2p E) (e_verify E)) s')"
  using decoded_typed packet_reach [OF assms(1) _ assms(2)] by blast

definition example_resolver :: resolver where
  "example_resolver = \<lparr>r_LookupIP = \<lambda>_. None, r_I2PLookup = \<lambda>_. None\<rparr>"

theorem decoded_message_typed_witness:
  "\<exists>b. Message_Encode no_i2p (ping_query example_server) = Inr b \<and>
     Message_Decode no_i2p example_resolver b = Inr (ping_query example_server) \<and> typed_message (ping_query example_server)"
proof -
  have ok: "server_ok (\<lambda>_ _ _. False) example_server" using example_server_reach by (rule dht.reach_inv)
  obtain b where b: "Message_Encode no_i2p (ping_query example_server) = Inr b"
    "Message_Decode no_i2p example_resolver (b @ []) = Inr (ping_query example_server)"
    using Message_Decode_Encode [OF wf_ping_query [OF ok], of no_i2p example_resolver]
    by (auto simp: ping_query_parts simp del: append_Nil2)
  moreover have "reach (server_init (e_i2p example_env)) (server_step (e_i2p example_env) (e_verify example_env)) example_server"
    using example_server_reach by (simp add: example_env_def)
  from decoded_message_typed [OF this, of "UDPAddr [10, 0, 0, 1] 80" example_resolver "b @ []" "ping_query example_server"]
  have "typed_message (ping_query example_server)" using b by (simp add: example_env_def)
  ultimately show ?thesis by auto
qed

text \<open>C8: A ping works from end to end. When a server pings another one over a connection that loses
  nothing, the packet it sends makes the other answer with exactly one packet, and when that
  arrives the callback of the ping is called once, with the address that was pinged and no error.
  Neither side may have the other's identifier in its table under some address, be unable to use
  its protocol or block it, and the one that is pinged must not be read-only.\<close>

theorem ping_over_wire:
  assumes "reach (server_init L) (server_step L v) A" "reach (server_init L) (server_step L v') B"
    "writes_all EA" "writes_all EB" "e_i2p EA = L" "e_i2p EB = L"
    "open_to A pb portb" "open_to B pa porta"
    "unknown_node A (cID (s_conf B))" "unknown_node B (cID (s_conf A))"
    "\<not> Hash_IsZero (cID (s_conf A))" "\<not> Hash_IsZero (cID (s_conf B))" "\<not> cReadOnly (s_conf B)"
  shows "\<exists>A1 q bq B1 r br A2.
    Ping EA A (UDPAddr pb portb) (Some cb) = Some (None, A1) \<and> s_out A1 = s_out A @ [Sent (UDPAddr pb portb) q] \<and>
    Message_Encode L q = Inr bq \<and>
    handlePacket EB RB B (UDPAddr pa porta) bq = Some B1 \<and> s_out B1 = s_out B @ [Sent (UDPAddr pa porta) r] \<and>
    Message_Encode L r = Inr br \<and>
    handlePacket EA RA A1 (UDPAddr pb portb) br = Some A2 \<and>
    s_out A2 = s_out A1 @ [Called cb (noResultR\<lparr>res_Addr := Some (UDPAddr pb portb)\<rparr>)]"
proof -
  let ?a = "UDPAddr pa porta" and ?b = "UDPAddr pb portb" and ?q = "ping_query A"
  let ?r = "ping_response B ?q"
  have ok: "server_ok v A" "server_ok v' B" using assms(1,2) dht.reach_inv by auto
  have wf: "wf_hash (cID (s_conf A))" "wf_hash (cID (s_conf B))" using ok by (simp_all add: server_ok_def)
  obtain key where key: "Addr_String (e_i2p EA) ?b = Some key" using Addr_total [of ?b "e_i2p EA"] by auto
  have dis: "\<not> isDisabled A ?b" using assms(7) by (simp add: open_to_def)
  from ping_sent [OF ok(1) assms(3) dis key, of cb]
  obtain t tm where t: "Ping EA A ?b (Some cb) = Some (None, A\<lparr>s_trans := tm, s_out := s_out A @ [Sent ?b ?q]\<rparr>)"
    "map_of (tx_trans tm) (mT ?q, key) = Some t" "tr_OnResponse t = onPingResp" "tr_Callback t = Some cb" "tr_Addr t = ?b" .
  define A1 where "A1 = A\<lparr>s_trans := tm, s_out := s_out A @ [Sent ?b ?q]\<rparr>"
  have A1: "server_ok v A1" "open_to A1 pb portb" "unknown_node A1 (rID (mR ?r))" "map_of (tx_trans (s_trans A1)) (mT ?r, key) = Some t"
    using ok_request [OF t(1) [unfolded Ping_def] ok(1)] assms(7,9) t(2)
    by (simp_all add: A1_def open_to_def isDisabled_def unknown_node_def ping_response_parts split: if_splits)
  have m: "wf_message L ?q" "wf_message L ?r"
    using wf_ping_query [OF ok(1)] wf_ping_response [OF ok(2)] ping_query_parts by simp_all
  obtain bq br where b: "Message_Encode L ?q = Inr bq" "Message_Encode L ?r = Inr br"
    using Message_Decode_Encode [OF m(1), of RA] Message_Decode_Encode [OF m(2), of RA]
    by (auto simp: ping_query_parts ping_response_parts)
  obtain B1 where B1: "handleMessage EB B ?a ?q = Some B1" "s_out B1 = s_out B @ [Sent ?a ?r]"
    by (rule ping_replied [OF ok(2) assms(4), of ?a ?q])
       (use assms(10,11,13) wf(1) in \<open>simp_all add: ping_query_parts\<close>)
  obtain A2 where A2: "handleMessage EA A1 ?b ?r = Some A2" "s_out A2 = s_out A1 @ [Called cb (noResultR\<lparr>res_Addr := Some ?b\<rparr>)]"
    by (rule ping_done [OF A1(1) _ key A1(3,4) t(3,4)])
       (use assms(12) wf(2) t(5) in \<open>simp_all add: ping_response_parts\<close>)
  have "handlePacket EB RB B ?a bq = Some B1" "handlePacket EA RA A1 ?b br = Some A2"
    using packet_of_message [OF assms(8), of EB ?q bq RB] packet_of_message [OF A1(2), of EA ?r br RA]
      m b A2(1) B1(1) assms(5,6) by (simp_all add: ping_query_parts ping_response_parts)
  then show ?thesis using t(1) b A2(2) B1(2) by (auto simp: A1_def)
qed

definition other_server :: server where
  "other_server = example_server\<lparr>s_conf := (s_conf example_server)\<lparr>cID := replicate 20 7\<rparr>,
     s_rt4 := empty_table\<lparr>rt_root := replicate 20 7\<rparr>, s_rt6 := empty_table\<lparr>rt_root := replicate 20 7\<rparr>\<rparr>"

lemma other_server_reach: "reach (server_init no_i2p) (server_step no_i2p (\<lambda>_ _ _. False)) other_server"
proof (rule reach_init)
  have "NewServer example_env [] [example_config\<lparr>cID := replicate 20 7\<rparr>] zeroHash (ascii ''t'') None None = Some other_server"
    by (simp add: NewServer_def initializeServer_def example_env_def example_config_def example_server_def other_server_def
        Config_set_def setNetworkDefaults_def setBasicDefaults_def zeroConfig_def newRoutingTable_def
        Hash_IsZero_def zeroHash_def HashSize_def NewDataStore_def empty_table_def)
  then show "server_init no_i2p other_server"
    unfolding server_init_def
    by (intro exI [of _ example_env] exI [of _ "[]"] exI [of _ "[example_config\<lparr>cID := replicate 20 7\<rparr>]"] exI [of _ zeroHash]
        exI [of _ "ascii ''t''"] exI [of _ None])
       (simp add: example_env_def example_config_def wf_hash_def zeroHash_def HashSize_def)
qed

theorem ping_over_wire_witness:
  "\<exists>A1 q bq B1 r br A2.
    Ping example_env example_server (UDPAddr [10, 0, 0, 2] 80) (Some 1) = Some (None, A1) \<and>
    s_out A1 = s_out example_server @ [Sent (UDPAddr [10, 0, 0, 2] 80) q] \<and> Message_Encode no_i2p q = Inr bq \<and>
    handlePacket example_env example_resolver other_server (UDPAddr [10, 0, 0, 1] 80) bq = Some B1 \<and>
    s_out B1 = s_out other_server @ [Sent (UDPAddr [10, 0, 0, 1] 80) r] \<and> Message_Encode no_i2p r = Inr br \<and>
    handlePacket example_env example_resolver A1 (UDPAddr [10, 0, 0, 2] 80) br = Some A2 \<and>
    s_out A2 = s_out A1 @ [Called 1 (noResultR\<lparr>res_Addr := Some (UDPAddr [10, 0, 0, 2] 80)\<rparr>)]"
proof -
  have "writes_all example_env" "e_i2p example_env = no_i2p" by (simp_all add: writes_all_def example_env_def)
  moreover have "open_to example_server [10, 0, 0, 2] 80" "open_to other_server [10, 0, 0, 1] 80"
    by (simp_all add: open_to_def other_server_def example_server_def isDisabled_def IsIPv6Addr_def IP_To4_def IP_To16_def
        blacklist_In_def NewMemoryBlacklist_def)
  moreover have "unknown_node example_server (cID (s_conf other_server))" "unknown_node other_server (cID (s_conf example_server))"
    by (simp_all add: unknown_node_def other_server_def example_server_def rt_nodes_def empty_table_def)
  moreover have "\<not> Hash_IsZero (cID (s_conf example_server))" "\<not> Hash_IsZero (cID (s_conf other_server))"
    "\<not> cReadOnly (s_conf other_server)"
    by (simp_all add: other_server_def example_server_def Hash_IsZero_def zeroHash_def HashSize_def)
  ultimately show ?thesis
    using ping_over_wire [OF example_server_reach other_server_reach, of example_env example_env "[10, 0, 0, 2]" 80
        "[10, 0, 0, 1]" 80 1 example_resolver example_resolver] by blast
qed

text \<open>C33: A defect: the peer that a server remembers when a response over UDP brings a token makes it crash
  later. A \<^verbatim>\<open>get_peers\<close> query that asks for the identifier of that responder panics, whoever
  sends it: the stored address is turned into one without an IP, whose encoding calls a method of
  a nil interface.\<close>

theorem stored_token_crashes:
  assumes "storeTokenIfPresent E s m (UDPAddr p port) = Some s1" "rToken (mR m) \<noteq> []"
    "map_of (s_peers s) (rID (mR m)) = None" "0 < cK (s_conf s)" "aInfoHash (mA q) = rID (mR m)"
  shows "handleGetPeersQuery E s1 raddr q = None"
proof -
  let ?a = "\<lparr>IP = NilAddr, Port = 0\<rparr>"
  have "tokenPeerManager_GetPeers (s_peers s1) (rID (mR m)) (cK (s_conf s1)) b = Some [?a]" for b
    using assms(1-4)
    by (auto simp: storeTokenIfPresent_def tokenPeerManager_Set_def tokenPeerManager_GetPeers_def NewAddress_def
        Addr_String_def utils_Port_def bind_eq_Some_conv Let_def mput_def [of "[]"] take_Cons')
  from populate_values [OF this, of "ContainsWant (mA q) WantNodes" "ContainsWant (mA q) WantNodes6" raddr]
  obtain r where r: "populatePeersResponse s1 (ContainsWant (mA q) WantNodes) (ContainsWant (mA q) WantNodes6) raddr
      (rID (mR m)) noResult = Some r" "set (rValues r) = {?a}" by auto
  have "reply E s' raddr tid (r\<lparr>rToken := tok\<rparr>) = None" for s' tid tok
    by (rule reply_nil_address [of ?a]) (simp_all add: r(2))
  then show ?thesis using r assms(5) by (auto simp: handleGetPeersQuery_def Let_def bind_eq_None_conv split: prod.split)
qed

theorem stored_token_crashes_witness:
  "\<exists>s1. storeTokenIfPresent example_env example_server
      (NewResponseMsg (ascii ''aa'') (noResult\<lparr>rID := replicate 20 5, rToken := ascii ''x''\<rparr>)) (UDPAddr [10, 0, 0, 1] 80) = Some s1 \<and>
    handleGetPeersQuery example_env s1 (UDPAddr [10, 0, 0, 2] 80)
      (NewQueryMsg (ascii ''ab'') (ascii ''get_peers'') (noArg\<lparr>aInfoHash := replicate 20 5\<rparr>)) = None"
proof -
  let ?m = "NewResponseMsg (ascii ''aa'') (noResult\<lparr>rID := replicate 20 5, rToken := ascii ''x''\<rparr>)"
  let ?q = "NewQueryMsg (ascii ''ab'') (ascii ''get_peers'') (noArg\<lparr>aInfoHash := replicate 20 5\<rparr>)"
  have m: "rToken (mR ?m) \<noteq> []" "rID (mR ?m) = replicate 20 5" "aInfoHash (mA ?q) = rID (mR ?m)"
    by (simp_all add: NewResponseMsg_def NewQueryMsg_def ascii_def)
  have c: "map_of (s_peers example_server) (rID (mR ?m)) = None" "0 < cK (s_conf example_server)"
    by (simp_all add: example_server_def)
  obtain s1 where "storeTokenIfPresent example_env example_server ?m (UDPAddr [10, 0, 0, 1] 80) = Some s1"
    using m(1) by (simp add: storeTokenIfPresent_def tokenPeerManager_Set_def Addr_String_def utils_Port_def Let_def)
  then show ?thesis using stored_token_crashes [OF _ m(1) c m(3)] by blast
qed

end
