(* ===== verification/PeerMessage.thy ===== *)
theory PeerMessage
  imports Bencode "HOL-Library.Signed_Division"
begin

text \<open>
  The messages of the peer protocol: \<^verbatim>\<open>peerprotocol/message.go\<close> and \<^verbatim>\<open>peerprotocol/protocol.go\<close>. Lists
  of pieces and bit fields, which are two implementations of a set of piece indexes, and the
  format of messages.
\<close>

unbundle bit_operations_syntax

section \<open>Sets of pieces\<close>

text \<open>
  A list of pieces. \<^verbatim>\<open>Remove\<close> shifts the array of its argument; the list is what it returns.
\<close>

type_synonym pieces = "u32 list"

definition Pieces_Append :: "pieces \<Rightarrow> u32 \<Rightarrow> pieces" where
  "Pieces_Append ps index = (if index \<in> set ps then ps else sort (ps @ [index]))"

fun Pieces_Remove :: "pieces \<Rightarrow> u32 \<Rightarrow> pieces" where
  "Pieces_Remove [] index = []"
| "Pieces_Remove (p # ps) index = (if p = index then ps else p # Pieces_Remove ps index)"

text \<open>
  A bit field. Setting and unsetting change the bytes in place: the field afterwards. A negative
  length makes \<^verbatim>\<open>make\<close> panic; the sum wraps as \<^verbatim>\<open>int\<close> does.
\<close>

type_synonym bit_field = bytes

definition NewBitField :: "int \<Rightarrow> bool \<Rightarrow> bit_field option" where
  "NewBitField pieceNum full =
     (let len = wrap_signed 64 (pieceNum + 7) sdiv 8
      in if len < 0 then None
         else Some (if full then replicate (nat len) 0xff else replicate (nat len) 0))"

definition piece_bit :: "u32 \<Rightarrow> byte" where
  "piece_bit index = push_bit (7 - unat index mod 8) 1"

definition BitField_Set :: "bit_field \<Rightarrow> u32 \<Rightarrow> bit_field" where
  "BitField_Set bf index =
     (let i = unat index div 8
      in if i < length bf then bf[i := bf ! i OR piece_bit index] else bf)"

definition BitField_Unset :: "bit_field \<Rightarrow> u32 \<Rightarrow> bit_field" where
  "BitField_Unset bf index =
     (let i = unat index div 8
      in if i < length bf then bf[i := bf ! i AND NOT (piece_bit index)] else bf)"

definition BitField_IsSet :: "bit_field \<Rightarrow> u32 \<Rightarrow> bool" where
  "BitField_IsSet bf index =
     (let i = unat index div 8
      in if i < length bf then bf ! i AND piece_bit index \<noteq> 0 else False)"

fun set_bools :: "bit_field \<Rightarrow> nat \<Rightarrow> bool list \<Rightarrow> bit_field" where
  "set_bools bf i [] = bf"
| "set_bools bf i (has # bs) = set_bools (if has then BitField_Set bf (of_nat i) else bf) (Suc i) bs"

definition NewBitFieldFromBools :: "bool list \<Rightarrow> bit_field option" where
  "NewBitFieldFromBools bs =
     (case NewBitField (int (length bs)) False of None \<Rightarrow> None | Some bf \<Rightarrow> Some (set_bools bf 0 bs))"

definition BitField_Bools :: "bit_field \<Rightarrow> bool list" where
  "BitField_Bools bf = concat (map (\<lambda>b. map (\<lambda>i. drop_bit i b AND 1 = 1) (rev [0..<8])) bf)"

definition BitField_Sets :: "bit_field \<Rightarrow> pieces" where
  "BitField_Sets bf = filter (BitField_IsSet bf) (map of_nat [0..<8 * length bf])"

definition BitField_Unsets :: "bit_field \<Rightarrow> pieces" where
  "BitField_Unsets bf = filter (\<lambda>i. \<not> BitField_IsSet bf i) (map of_nat [0..<8 * length bf])"

section \<open>Message types\<close>

type_synonym message_type = byte

abbreviation (input) MTypeChoke :: message_type where "MTypeChoke \<equiv> 0"
abbreviation (input) MTypeUnchoke :: message_type where "MTypeUnchoke \<equiv> 1"
abbreviation (input) MTypeInterested :: message_type where "MTypeInterested \<equiv> 2"
abbreviation (input) MTypeNotInterested :: message_type where "MTypeNotInterested \<equiv> 3"
abbreviation (input) MTypeHave :: message_type where "MTypeHave \<equiv> 4"
abbreviation (input) MTypeBitField :: message_type where "MTypeBitField \<equiv> 5"
abbreviation (input) MTypeRequest :: message_type where "MTypeRequest \<equiv> 6"
abbreviation (input) MTypePiece :: message_type where "MTypePiece \<equiv> 7"
abbreviation (input) MTypeCancel :: message_type where "MTypeCancel \<equiv> 8"
abbreviation (input) MTypePort :: message_type where "MTypePort \<equiv> 9"
abbreviation (input) MTypeSuggest :: message_type where "MTypeSuggest \<equiv> 0x0d"
abbreviation (input) MTypeHaveAll :: message_type where "MTypeHaveAll \<equiv> 0x0e"
abbreviation (input) MTypeHaveNone :: message_type where "MTypeHaveNone \<equiv> 0x0f"
abbreviation (input) MTypeReject :: message_type where "MTypeReject \<equiv> 0x10"
abbreviation (input) MTypeAllowedFast :: message_type where "MTypeAllowedFast \<equiv> 0x11"
abbreviation (input) MTypeExtended :: message_type where "MTypeExtended \<equiv> 20"

definition MessageType_String :: "message_type \<Rightarrow> bytes" where
  "MessageType_String mt =
     (if mt = MTypeChoke then ascii ''Choke''
      else if mt = MTypeUnchoke then ascii ''Unchoke''
      else if mt = MTypeInterested then ascii ''Interested''
      else if mt = MTypeNotInterested then ascii ''NotInterested''
      else if mt = MTypeHave then ascii ''Have''
      else if mt = MTypeBitField then ascii ''Bitfield''
      else if mt = MTypeRequest then ascii ''Request''
      else if mt = MTypePiece then ascii ''Piece''
      else if mt = MTypeCancel then ascii ''Cancel''
      else if mt = MTypePort then ascii ''Port''
      else if mt = MTypeSuggest then ascii ''Suggest''
      else if mt = MTypeHaveAll then ascii ''HaveAll''
      else if mt = MTypeHaveNone then ascii ''HaveNone''
      else if mt = MTypeReject then ascii ''Reject''
      else if mt = MTypeAllowedFast then ascii ''AllowedFast''
      else if mt = MTypeExtended then ascii ''Extended''
      else ascii ''MessageType('' @ dec_nat (unat mt) @ ascii '')'')"

definition FastExtension :: "message_type \<Rightarrow> bool" where
  "FastExtension mt \<longleftrightarrow> MTypeSuggest \<le> mt \<and> mt \<le> MTypeAllowedFast"

section \<open>Messages\<close>

record pmessage =
  pm_Keepalive :: bool
  pm_Type :: message_type
  pm_Index :: u32
  pm_Begin :: u32
  pm_Length :: u32
  pm_Piece :: bytes
  pm_BitField :: bit_field
  pm_ExtendedID :: byte
  pm_ExtendedPayload :: bytes
  pm_Port :: u16
  pm_UnknownTypePayload :: bytes

definition noMessage :: pmessage where
  "noMessage = \<lparr>pm_Keepalive = False, pm_Type = 0, pm_Index = 0, pm_Begin = 0, pm_Length = 0, pm_Piece = [],
     pm_BitField = [], pm_ExtendedID = 0, pm_ExtendedPayload = [], pm_Port = 0, pm_UnknownTypePayload = []\<rparr>"

subsection \<open>Reading\<close>

text \<open>
  A reader is the bytes it still has before the end of the file, and an \<^verbatim>\<open>io.LimitedReader\<close> adds
  the number of bytes that may still be taken. \<^verbatim>\<open>io.ReadFull\<close> takes what there is when there is
  too little.
\<close>

datatype peer_error =
    IoEOF
  | IoUnexpectedEOF
  | LengthError
  | MessageTooLong
  | BytesUnused nat message_type
  | PieceDataError

record limited =
  lr_R :: bytes
  lr_N :: nat

definition ReadFull :: "nat \<Rightarrow> limited \<Rightarrow> (peer_error + bytes) \<times> limited" where
  "ReadFull n lr =
     (let avail = min (lr_N lr) (length (lr_R lr))
      in if n \<le> avail
         then (Inr (take n (lr_R lr)), \<lparr>lr_R = drop n (lr_R lr), lr_N = lr_N lr - n\<rparr>)
         else (Inl (if avail = 0 then IoEOF else IoUnexpectedEOF),
               \<lparr>lr_R = drop avail (lr_R lr), lr_N = lr_N lr - avail\<rparr>))"

definition ReadAll :: "limited \<Rightarrow> bytes \<times> limited" where
  "ReadAll lr =
     (let avail = min (lr_N lr) (length (lr_R lr))
      in (take avail (lr_R lr), \<lparr>lr_R = drop avail (lr_R lr), lr_N = lr_N lr - avail\<rparr>))"

definition readByte :: "limited \<Rightarrow> (peer_error + byte) \<times> limited" where
  "readByte lr = (case ReadFull 1 lr of (Inl e, lr') \<Rightarrow> (Inl e, lr') | (Inr b, lr') \<Rightarrow> (Inr (hd b), lr'))"

text \<open>\<^verbatim>\<open>binary.Read\<close> of a big-endian number of \<open>n\<close> bytes into a field; a step that follows it.\<close>

type_synonym msg_step = "peer_error option \<times> pmessage \<times> limited"

definition read_field :: "nat \<Rightarrow> (nat \<Rightarrow> pmessage \<Rightarrow> pmessage) \<Rightarrow> pmessage \<Rightarrow> limited \<Rightarrow> msg_step" where
  "read_field n put m lr =
     (case ReadFull n lr of
        (Inl e, lr') \<Rightarrow> (Some e, m, lr')
      | (Inr b, lr') \<Rightarrow> (None, put (be_get b) m, lr'))"

definition and_then :: "msg_step \<Rightarrow> (pmessage \<Rightarrow> limited \<Rightarrow> msg_step) \<Rightarrow> msg_step" where
  "and_then r f = (case r of (Some e, m, lr) \<Rightarrow> (Some e, m, lr) | (None, m, lr) \<Rightarrow> f m lr)"

abbreviation put_Index :: "nat \<Rightarrow> pmessage \<Rightarrow> pmessage" where
  "put_Index x m \<equiv> m\<lparr>pm_Index := of_nat x\<rparr>"

abbreviation put_Begin :: "nat \<Rightarrow> pmessage \<Rightarrow> pmessage" where
  "put_Begin x m \<equiv> m\<lparr>pm_Begin := of_nat x\<rparr>"

abbreviation put_Length :: "nat \<Rightarrow> pmessage \<Rightarrow> pmessage" where
  "put_Length x m \<equiv> m\<lparr>pm_Length := of_nat x\<rparr>"

abbreviation put_Port :: "nat \<Rightarrow> pmessage \<Rightarrow> pmessage" where
  "put_Port x m \<equiv> m\<lparr>pm_Port := of_nat x\<rparr>"

definition decodeIndexOnlyMessage :: "pmessage \<Rightarrow> limited \<Rightarrow> msg_step" where
  "decodeIndexOnlyMessage m lr = read_field 4 put_Index m lr"

definition decodeRequestLikeMessage :: "pmessage \<Rightarrow> limited \<Rightarrow> msg_step" where
  "decodeRequestLikeMessage m lr =
     and_then (and_then (read_field 4 put_Index m lr) (read_field 4 put_Begin)) (read_field 4 put_Length)"

text \<open>An error is not reported, but then not all bytes are used.\<close>

definition decodeBitFieldMessage :: "pmessage \<Rightarrow> limited \<Rightarrow> u32 \<Rightarrow> msg_step" where
  "decodeBitFieldMessage m lr len =
     (case ReadFull (unat (len - 1)) lr of
        (Inl _, lr') \<Rightarrow> (None, m, lr')
      | (Inr bs, lr') \<Rightarrow> (None, m\<lparr>pm_BitField := bs\<rparr>, lr'))"

text \<open>When the data ends early the piece has the bytes that came, and zeros.\<close>

definition decodePieceMessage :: "pmessage \<Rightarrow> limited \<Rightarrow> msg_step" where
  "decodePieceMessage m lr =
     and_then (and_then (read_field 4 put_Index m lr) (read_field 4 put_Begin))
       (\<lambda>m lr. case ReadFull (lr_N lr) lr of
          (Inl _, lr') \<Rightarrow> (Some PieceDataError,
            m\<lparr>pm_Piece := lr_R lr @ replicate (lr_N lr - length (lr_R lr)) 0\<rparr>, lr')
        | (Inr bs, lr') \<Rightarrow> (None, m\<lparr>pm_Piece := bs\<rparr>, lr'))"

definition decodeExtendedMessage :: "pmessage \<Rightarrow> limited \<Rightarrow> msg_step" where
  "decodeExtendedMessage m lr =
     (case readByte lr of
        (Inl e, lr') \<Rightarrow> (Some e, m, lr')
      | (Inr b, lr') \<Rightarrow>
          (case ReadAll lr' of (bs, lr'') \<Rightarrow> (None, m\<lparr>pm_ExtendedID := b, pm_ExtendedPayload := bs\<rparr>, lr'')))"

definition decodePortMessage :: "pmessage \<Rightarrow> limited \<Rightarrow> msg_step" where
  "decodePortMessage m lr = read_field 2 put_Port m lr"

definition decodeUnknownMessage :: "pmessage \<Rightarrow> limited \<Rightarrow> msg_step" where
  "decodeUnknownMessage m lr = (case ReadAll lr of (bs, lr') \<Rightarrow> (None, m\<lparr>pm_UnknownTypePayload := bs\<rparr>, lr'))"

definition no_payload :: "message_type \<Rightarrow> bool" where
  "no_payload t \<longleftrightarrow> t \<in> {MTypeChoke, MTypeUnchoke, MTypeInterested, MTypeNotInterested, MTypeHaveAll, MTypeHaveNone}"

definition decodeByMessageType :: "pmessage \<Rightarrow> limited \<Rightarrow> u32 \<Rightarrow> msg_step" where
  "decodeByMessageType m lr len =
     (let t = pm_Type m
      in if no_payload t then (None, m, lr)
         else if t \<in> {MTypeHave, MTypeAllowedFast, MTypeSuggest} then decodeIndexOnlyMessage m lr
         else if t \<in> {MTypeRequest, MTypeCancel, MTypeReject} then decodeRequestLikeMessage m lr
         else if t = MTypeBitField then decodeBitFieldMessage m lr len
         else if t = MTypePiece then decodePieceMessage m lr
         else if t = MTypeExtended then decodeExtendedMessage m lr
         else if t = MTypePort then decodePortMessage m lr
         else decodeUnknownMessage m lr)"

definition readMessageLength :: "bytes \<Rightarrow> (peer_error + u32) \<times> bytes" where
  "readMessageLength r =
     (if 4 \<le> length r then (Inr (of_nat (be_get (take 4 r))), drop 4 r)
      else (Inl (if r = [] then IoEOF else LengthError), []))"

definition validateMessageLength :: "u32 \<Rightarrow> u32 \<Rightarrow> peer_error option" where
  "validateMessageLength len maxLength = (if 0 < maxLength \<and> maxLength < len then Some MessageTooLong else None)"

text \<open>The error, the message afterwards and what is left to read.\<close>

definition Message_DecodeFrom :: "pmessage \<Rightarrow> bytes \<Rightarrow> u32 \<Rightarrow> peer_error option \<times> pmessage \<times> bytes" where
  "Message_DecodeFrom m r maxLength =
     (case readMessageLength r of
        (Inl e, r1) \<Rightarrow> (Some e, m, r1)
      | (Inr len, r1) \<Rightarrow>
          if len = 0 then (None, m\<lparr>pm_Keepalive := True\<rparr>, r1)
          else case validateMessageLength len maxLength of
                 Some e \<Rightarrow> (Some e, m, r1)
               | None \<Rightarrow>
                   let m1 = m\<lparr>pm_Keepalive := False\<rparr>
                   in case readByte \<lparr>lr_R = r1, lr_N = unat len\<rparr> of
                        (Inl e, lr1) \<Rightarrow> (Some e, m1, lr_R lr1)
                      | (Inr t, lr1) \<Rightarrow>
                          (case decodeByMessageType (m1\<lparr>pm_Type := t\<rparr>) lr1 len of
                             (err, m2, lr2) \<Rightarrow>
                               (if err = None \<and> lr_N lr2 \<noteq> 0 then Some (BytesUnused (lr_N lr2) (pm_Type m2)) else err,
                                m2, lr_R lr2)))"

definition DecodeToMessage :: "bytes \<Rightarrow> u32 \<Rightarrow> peer_error option \<times> pmessage \<times> bytes" where
  "DecodeToMessage r maxLength = Message_DecodeFrom noMessage r maxLength"

definition Message_UnmarshalBinary :: "pmessage \<Rightarrow> bytes \<Rightarrow> peer_error option \<times> pmessage" where
  "Message_UnmarshalBinary m data = (case Message_DecodeFrom m data 0 of (e, m', _) \<Rightarrow> (e, m'))"

subsection \<open>Writing\<close>

text \<open>Writing to a \<^verbatim>\<open>bytes.Buffer\<close> never fails. The length wraps as \<^verbatim>\<open>uint32\<close> does.\<close>

definition marshalRequestLikeMessage :: "pmessage \<Rightarrow> bytes" where
  "marshalRequestLikeMessage m = put_u32 (pm_Index m) @ put_u32 (pm_Begin m) @ put_u32 (pm_Length m)"

definition marshalPieceMessage :: "pmessage \<Rightarrow> bytes" where
  "marshalPieceMessage m = put_u32 (pm_Index m) @ put_u32 (pm_Begin m) @ pm_Piece m"

definition marshalExtendedMessage :: "pmessage \<Rightarrow> bytes" where
  "marshalExtendedMessage m = pm_ExtendedID m # pm_ExtendedPayload m"

definition marshalBinaryType :: "pmessage \<Rightarrow> bytes" where
  "marshalBinaryType m =
     (let t = pm_Type m
      in if no_payload t then []
         else if t = MTypeHave then put_u32 (pm_Index m)
         else if t \<in> {MTypeRequest, MTypeCancel, MTypeReject} then marshalRequestLikeMessage m
         else if t = MTypeBitField then pm_BitField m
         else if t = MTypePiece then marshalPieceMessage m
         else if t = MTypeExtended then marshalExtendedMessage m
         else if t = MTypePort then put_u16 (pm_Port m)
         else pm_UnknownTypePayload m)"

definition Message_EncodeTo :: "pmessage \<Rightarrow> bytes" where
  "Message_EncodeTo m =
     (if pm_Keepalive m then [0, 0, 0, 0]
      else let body = pm_Type m # marshalBinaryType m
           in put_u32 (of_nat (length body)) @ body)"

definition Message_MarshalBinary :: "pmessage \<Rightarrow> bytes" where
  "Message_MarshalBinary m = Message_EncodeTo m"

section \<open>Both are sets\<close>

text \<open>
  What a set of piece indexes promises: \<open>room\<close> are the indexes it can hold, \<open>abs\<close> is the set it
  stands for. Adding an index outside of the room does nothing.
\<close>

locale piece_set =
  fixes invar :: "'s \<Rightarrow> bool"
    and room :: "'s \<Rightarrow> u32 set"
    and abs :: "'s \<Rightarrow> u32 set"
    and add :: "'s \<Rightarrow> u32 \<Rightarrow> 's"
    and del :: "'s \<Rightarrow> u32 \<Rightarrow> 's"
  assumes abs_room: "invar s \<Longrightarrow> abs s \<subseteq> room s"
    and invar_add: "invar s \<Longrightarrow> invar (add s i)"
    and invar_del: "invar s \<Longrightarrow> invar (del s i)"
    and room_add: "invar s \<Longrightarrow> room (add s i) = room s"
    and room_del: "invar s \<Longrightarrow> room (del s i) = room s"
    and abs_add: "invar s \<Longrightarrow> abs (add s i) = abs s \<union> ({i} \<inter> room s)"
    and abs_del: "invar s \<Longrightarrow> abs (del s i) = abs s - {i}"
begin

lemma add_all: "invar s \<Longrightarrow> invar (fold (\<lambda>i s. add s i) is s) \<and> room (fold (\<lambda>i s. add s i) is s) = room s \<and>
    abs (fold (\<lambda>i s. add s i) is s) = abs s \<union> (set is \<inter> room s)"
  by (induction "is" arbitrary: s) (auto simp: invar_add room_add abs_add)

lemma add_present: "invar s \<Longrightarrow> i \<in> abs s \<Longrightarrow> abs (add s i) = abs s"
  using abs_room by (auto simp: abs_add)

lemma add_del: "invar s \<Longrightarrow> i \<in> abs s \<Longrightarrow> abs (add (del s i) i) = abs s"
  using abs_room by (auto simp: abs_add abs_del invar_del room_del)

lemma del_add: "invar s \<Longrightarrow> i \<notin> abs s \<Longrightarrow> abs (del (add s i) i) = abs s"
  by (auto simp: abs_add abs_del invar_add)

end

subsection \<open>Lists of pieces\<close>

lemma Remove_eq: "Pieces_Remove ps i = remove1 i ps"
  by (induction ps) auto

definition wf_pieces :: "pieces \<Rightarrow> bool" where
  "wf_pieces ps \<longleftrightarrow> sorted ps \<and> distinct ps"

interpretation listed: piece_set wf_pieces "\<lambda>_. UNIV" set Pieces_Append Pieces_Remove
  by unfold_locales (auto simp: wf_pieces_def Pieces_Append_def Remove_eq sorted_remove1)

subsection \<open>Bit fields\<close>

definition bits_of :: "bit_field \<Rightarrow> u32 set" where
  "bits_of bf = {i. BitField_IsSet bf i}"

definition bits_room :: "bit_field \<Rightarrow> u32 set" where
  "bits_room bf = {i. unat i < 8 * length bf}"

lemma bit_piece_bit: "bit (piece_bit i) k \<longleftrightarrow> k = 7 - unat i mod 8"
  by (auto simp: piece_bit_def bit_exp_iff)

lemma and_piece_bit: "b AND piece_bit i \<noteq> 0 \<longleftrightarrow> bit b (7 - unat i mod 8)"
  by (auto simp: bit_eq_iff [of "b AND piece_bit i" 0] bit_and_iff bit_piece_bit)

lemma IsSet_iff: "BitField_IsSet bf i \<longleftrightarrow> unat i div 8 < length bf \<and> bit (bf ! (unat i div 8)) (7 - unat i mod 8)"
  by (simp add: BitField_IsSet_def Let_def and_piece_bit)

lemma same_bit: "7 - m mod 8 = 7 - n mod (8 :: nat) \<longleftrightarrow> m mod 8 = n mod 8"
  using mod_less_divisor [of 8 m] mod_less_divisor [of 8 n] by linarith

lemma index_eq: "unat i div 8 = unat j div 8 \<Longrightarrow> unat i mod 8 = unat j mod 8 \<Longrightarrow> i = (j :: u32)"
  by (metis div_mult_mod_eq word_unat_eq_iff)

lemma IsSet_Set: "BitField_IsSet (BitField_Set bf i) j \<longleftrightarrow> BitField_IsSet bf j \<or> i = j \<and> unat i div 8 < length bf"
  using index_eq [of i j]
  by (auto simp: IsSet_iff BitField_Set_def Let_def nth_list_update bit_or_iff bit_piece_bit same_bit)

lemma IsSet_Unset: "BitField_IsSet (BitField_Unset bf i) j \<longleftrightarrow> BitField_IsSet bf j \<and> i \<noteq> j"
  using index_eq [of i j]
  by (auto simp: IsSet_iff BitField_Unset_def Let_def nth_list_update bit_and_iff bit_not_iff bit_piece_bit same_bit)

lemma length_BitField [simp]: "length (BitField_Set bf i) = length bf" "length (BitField_Unset bf i) = length bf"
  by (simp_all add: BitField_Set_def BitField_Unset_def Let_def)

lemma IsSet_room: "BitField_IsSet bf i \<Longrightarrow> unat i div 8 < length bf"
  by (simp add: IsSet_iff)

lemma room_iff: "i \<in> bits_room bf \<longleftrightarrow> unat i div 8 < length bf"
  by (auto simp: bits_room_def div_less_iff_less_mult mult.commute)

interpretation field: piece_set "\<lambda>_. True" bits_room bits_of BitField_Set BitField_Unset
  by unfold_locales (auto simp: bits_of_def IsSet_Set IsSet_Unset room_iff dest: IsSet_room)

lemma NewBitField_nat:
  assumes "n < 2 ^ 63 - 7"
  shows "NewBitField (int n) full = Some (replicate ((n + 7) div 8) (if full then 0xff else 0))"
proof -
  have "wrap_signed 64 (int n + 7) = int (n + 7)" using assms by (simp add: wrap_signed_def)
  moreover have "int (n + 7) sdiv 8 = int ((n + 7) div 8)" by (simp add: signed_divide_int_def sgn_if zdiv_int)
  ultimately show ?thesis by (simp add: NewBitField_def Let_def del: of_nat_add)
qed

lemma bits_of_new: "bits_of (replicate k 0) = {}" "bits_of (replicate k 0xff) = bits_room (replicate k 0xff)"
proof -
  have "(0xff :: byte) = - 1" by simp
  then have "bit (0xff :: byte) (7 - j)" for j by (simp only: bit_minus_1_iff) simp
  then show "bits_of (replicate k 0xff) = bits_room (replicate k 0xff)"
    by (auto simp: bits_of_def room_iff IsSet_iff)
qed (auto simp: bits_of_def IsSet_iff)

subsection \<open>Indexes in order\<close>

lemma unat_index: "n < 2 ^ 32 \<Longrightarrow> unat (of_nat n :: u32) = n"
  by (simp add: unat_of_nat)

lemma indexes_sorted:
  assumes "n \<le> 2 ^ 32"
  shows "sorted (map of_nat [0..<n] :: u32 list)" "distinct (map of_nat [0..<n] :: u32 list)"
    "set (map of_nat [0..<n] :: u32 list) = {i. unat i < n}"
proof -
  show "sorted (map of_nat [0..<n] :: u32 list)"
    using assms by (auto simp: sorted_iff_nth_mono_less word_le_nat_alt unat_index)
  show "distinct (map of_nat [0..<n] :: u32 list)"
    using assms by (auto simp: distinct_map inj_on_def word_unat_eq_iff unat_index)
  have "of_nat (unat i) = i" for i :: u32 by simp
  then show "set (map of_nat [0..<n] :: u32 list) = {i. unat i < n}"
    using assms by (force simp: unat_index)
qed

lemma Sets_sorted:
  assumes "8 * length bf \<le> 2 ^ 32"
  shows "wf_pieces (BitField_Sets bf)" "set (BitField_Sets bf) = bits_of bf"
    "wf_pieces (BitField_Unsets bf)" "set (BitField_Unsets bf) = bits_room bf - bits_of bf"
proof -
  define xs :: "u32 list" where "xs = map of_nat [0..<8 * length bf]"
  have xs: "sorted xs" "distinct xs" "set xs = bits_room bf" using indexes_sorted [OF assms] by (simp_all add: xs_def bits_room_def)
  have d: "BitField_Sets bf = filter (BitField_IsSet bf) xs" "BitField_Unsets bf = filter (\<lambda>i. \<not> BitField_IsSet bf i) xs"
    by (simp_all add: BitField_Sets_def BitField_Unsets_def xs_def)
  show "wf_pieces (BitField_Sets bf)" "wf_pieces (BitField_Unsets bf)"
    using xs(1,2) by (simp_all add: d wf_pieces_def sorted_wrt_filter)
  show "set (BitField_Sets bf) = bits_of bf" "set (BitField_Unsets bf) = bits_room bf - bits_of bf"
    using xs(3) field.abs_room [OF TrueI, of bf] by (auto simp: d bits_of_def)
qed

lemma pieces_eqI: "wf_pieces xs \<Longrightarrow> wf_pieces ys \<Longrightarrow> set xs = set ys \<Longrightarrow> xs = ys"
  by (simp add: wf_pieces_def sorted_distinct_set_unique)

lemma nth_concat:
  "(\<And>x. x \<in> set xs \<Longrightarrow> length x = k) \<Longrightarrow> n < k * length xs \<Longrightarrow> concat xs ! n = xs ! (n div k) ! (n mod k)"
proof (induction xs arbitrary: n)
  case (Cons x xs)
  show ?case
  proof (cases "n < k")
    case False
    moreover have "0 < k" using Cons.prems(2) by (cases k) auto
    ultimately have "n - k < k * length xs" "n div k = Suc ((n - k) div k)" "n mod k = (n - k) mod k"
      using Cons.prems(2) by (auto simp: le_div_geq le_mod_geq)
    then show ?thesis using Cons False by (simp add: nth_append)
  qed (use Cons.prems in \<open>simp add: nth_append\<close>)
qed simp

lemma nth_Bools:
  assumes "n < 8 * length bf" "8 * length bf \<le> 2 ^ 32"
  shows "BitField_Bools bf ! n \<longleftrightarrow> BitField_IsSet bf (of_nat n)"
proof -
  have "n div 8 < length bf" using assms(1) by (simp add: div_less_iff_less_mult)
  moreover have "rev [0..<8] ! (n mod 8) = 7 - n mod 8" by (simp add: rev_nth)
  moreover have "drop_bit k b AND 1 = 1 \<longleftrightarrow> bit b k" for k and b :: byte
    by (simp add: and_one_eq bit_iff_odd_drop_bit odd_iff_mod_2_eq_one)
  moreover have "BitField_Bools bf ! n = map (\<lambda>b. map (\<lambda>i. drop_bit i b AND 1 = 1) (rev [0..<8])) bf ! (n div 8) ! (n mod 8)"
    unfolding BitField_Bools_def by (rule nth_concat) (use assms(1) in auto)
  ultimately show ?thesis using assms by (simp add: IsSet_iff unat_index del: upt_Suc)
qed

lemma length_Bools: "length (BitField_Bools bf) = 8 * length bf"
  by (induction bf) (simp_all add: BitField_Bools_def del: upt_Suc)

lemma IsSet_set_bools:
  "k + length bs \<le> 2 ^ 32 \<Longrightarrow> length (set_bools bf k bs) = length bf \<and>
   (BitField_IsSet (set_bools bf k bs) i \<longleftrightarrow>
     BitField_IsSet bf i \<or> unat i div 8 < length bf \<and> k \<le> unat i \<and> unat i < k + length bs \<and> bs ! (unat i - k))"
proof (induction bs arbitrary: bf k)
  case (Cons b bs)
  have "of_nat k = i \<longleftrightarrow> unat i = k" using Cons.prems by (auto simp: word_unat_eq_iff unat_index)
  with Cons show ?case
    by (cases "unat i \<le> k"; cases b) (auto simp: IsSet_Set nth_Cons')
qed auto

lemma FromBools_bits:
  assumes "length bs \<le> 2 ^ 32"
  obtains bf where "NewBitFieldFromBools bs = Some bf" "length bf = (length bs + 7) div 8"
    "bits_of bf = {i. unat i < length bs \<and> bs ! unat i}"
proof -
  let ?z = "replicate ((length bs + 7) div 8) (0 :: byte)"
  have "length bs < 2 ^ 63 - 7" using assms by simp
  then have "NewBitFieldFromBools bs = Some (set_bools ?z 0 bs)"
    by (simp add: NewBitFieldFromBools_def NewBitField_nat)
  moreover have "unat i < length bs \<Longrightarrow> unat i div 8 < (length bs + 7) div 8" for i :: u32
    using div_le_mono [of "unat i + 8" "length bs + 7" 8] by simp
  then have "bits_of (set_bools ?z 0 bs) = {i. unat i < length bs \<and> bs ! unat i}"
    using IsSet_set_bools [of 0 bs ?z] assms bits_of_new(1) by (auto simp: bits_of_def)
  ultimately show ?thesis using that IsSet_set_bools [of 0 bs ?z] assms by simp
qed

section \<open>The format of messages\<close>

text \<open>What a message of its type carries over: the other fields are not written. The types that the
  writer gets wrong are not sendable.\<close>

definition carried :: "pmessage \<Rightarrow> pmessage" where
  "carried m =
     (if pm_Keepalive m then noMessage\<lparr>pm_Keepalive := True\<rparr>
      else let t = pm_Type m; z = noMessage\<lparr>pm_Type := t\<rparr>
           in if no_payload t then z
              else if t = MTypeHave then z\<lparr>pm_Index := pm_Index m\<rparr>
              else if t \<in> {MTypeRequest, MTypeCancel, MTypeReject}
                then z\<lparr>pm_Index := pm_Index m, pm_Begin := pm_Begin m, pm_Length := pm_Length m\<rparr>
              else if t = MTypeBitField then z\<lparr>pm_BitField := pm_BitField m\<rparr>
              else if t = MTypePiece then z\<lparr>pm_Index := pm_Index m, pm_Begin := pm_Begin m, pm_Piece := pm_Piece m\<rparr>
              else if t = MTypeExtended
                then z\<lparr>pm_ExtendedID := pm_ExtendedID m, pm_ExtendedPayload := pm_ExtendedPayload m\<rparr>
              else if t = MTypePort then z\<lparr>pm_Port := pm_Port m\<rparr>
              else z\<lparr>pm_UnknownTypePayload := pm_UnknownTypePayload m\<rparr>)"

definition sendable :: "pmessage \<Rightarrow> bool" where
  "sendable m \<longleftrightarrow> pm_Keepalive m \<or>
     pm_Type m \<notin> {MTypeSuggest, MTypeAllowedFast} \<and> Suc (length (marshalBinaryType m)) < 2 ^ 32"

definition body_length :: "pmessage \<Rightarrow> nat" where
  "body_length m = (if pm_Keepalive m then 0 else Suc (length (marshalBinaryType m)))"

lemma ReadFull_append:
  "length b = n \<Longrightarrow> n \<le> N \<Longrightarrow> ReadFull n \<lparr>lr_R = b @ r, lr_N = N\<rparr> = (Inr b, \<lparr>lr_R = r, lr_N = N - n\<rparr>)"
  by (simp add: ReadFull_def Let_def)

lemma readByte_Cons: "0 < N \<Longrightarrow> readByte \<lparr>lr_R = b # r, lr_N = N\<rparr> = (Inr b, \<lparr>lr_R = r, lr_N = N - 1\<rparr>)"
  using ReadFull_append [of "[b]" 1 N r] by (simp add: readByte_def)

lemma ReadAll_append: "ReadAll \<lparr>lr_R = b @ r, lr_N = length b\<rparr> = (b, \<lparr>lr_R = r, lr_N = 0\<rparr>)"
  by (simp add: ReadAll_def Let_def)

lemma be_get_put_word:
  "of_nat (be_get (put_u32 w)) = w" "of_nat (be_get (put_u16 v)) = v"
  using of_nat_unat_mod [of 4 w] of_nat_unat_mod [of 2 v] by (simp_all add: put_u32_def put_u16_def be_get_put)

lemma read_field_u32: "4 \<le> N \<Longrightarrow> read_field 4 put m \<lparr>lr_R = put_u32 w @ r, lr_N = N\<rparr> =
    (None, put (be_get (put_u32 w)) m, \<lparr>lr_R = r, lr_N = N - 4\<rparr>)"
  by (simp add: read_field_def ReadFull_append)

lemma read_field_u16: "2 \<le> N \<Longrightarrow> read_field 2 put m \<lparr>lr_R = put_u16 w @ r, lr_N = N\<rparr> =
    (None, put (be_get (put_u16 w)) m, \<lparr>lr_R = r, lr_N = N - 2\<rparr>)"
  by (simp add: read_field_def ReadFull_append)

lemmas read_simps = read_field_u32 read_field_u16 ReadFull_append readByte_Cons ReadAll_append be_get_put_word

lemma and_then_None [simp]: "and_then (None, m, lr) f = f m lr"
  by (simp add: and_then_def)

lemma readMessageLength_put [simp]: "readMessageLength (put_u32 w @ r) = (Inr w, r)"
  by (simp add: readMessageLength_def be_get_put_word)

lemma parts_decode:
  "decodeIndexOnlyMessage z \<lparr>lr_R = put_u32 (pm_Index m) @ r, lr_N = 4\<rparr> = (None, z\<lparr>pm_Index := pm_Index m\<rparr>, \<lparr>lr_R = r, lr_N = 0\<rparr>)"
  "decodePortMessage z \<lparr>lr_R = put_u16 (pm_Port m) @ r, lr_N = 2\<rparr> = (None, z\<lparr>pm_Port := pm_Port m\<rparr>, \<lparr>lr_R = r, lr_N = 0\<rparr>)"
  "decodeRequestLikeMessage z \<lparr>lr_R = marshalRequestLikeMessage m @ r, lr_N = length (marshalRequestLikeMessage m)\<rparr> =
    (None, z\<lparr>pm_Index := pm_Index m, pm_Begin := pm_Begin m, pm_Length := pm_Length m\<rparr>, \<lparr>lr_R = r, lr_N = 0\<rparr>)"
  "decodePieceMessage z \<lparr>lr_R = marshalPieceMessage m @ r, lr_N = length (marshalPieceMessage m)\<rparr> =
    (None, z\<lparr>pm_Index := pm_Index m, pm_Begin := pm_Begin m, pm_Piece := pm_Piece m\<rparr>, \<lparr>lr_R = r, lr_N = 0\<rparr>)"
  "decodeExtendedMessage z \<lparr>lr_R = marshalExtendedMessage m @ r, lr_N = length (marshalExtendedMessage m)\<rparr> =
    (None, z\<lparr>pm_ExtendedID := pm_ExtendedID m, pm_ExtendedPayload := pm_ExtendedPayload m\<rparr>, \<lparr>lr_R = r, lr_N = 0\<rparr>)"
  "decodeUnknownMessage z \<lparr>lr_R = b @ r, lr_N = length b\<rparr> = (None, z\<lparr>pm_UnknownTypePayload := b\<rparr>, \<lparr>lr_R = r, lr_N = 0\<rparr>)"
  "unat (len - 1) = length b \<Longrightarrow>
   decodeBitFieldMessage z \<lparr>lr_R = b @ r, lr_N = length b\<rparr> len = (None, z\<lparr>pm_BitField := b\<rparr>, \<lparr>lr_R = r, lr_N = 0\<rparr>)"
  by (simp_all add: decodeIndexOnlyMessage_def decodePortMessage_def decodeRequestLikeMessage_def decodePieceMessage_def
      decodeExtendedMessage_def decodeUnknownMessage_def decodeBitFieldMessage_def marshalRequestLikeMessage_def
      marshalPieceMessage_def marshalExtendedMessage_def read_simps)

lemma payload_decodes:
  assumes "\<not> pm_Keepalive m" "sendable m" "unat (len - 1) = length (marshalBinaryType m)"
  shows "decodeByMessageType (noMessage\<lparr>pm_Type := pm_Type m\<rparr>)
    \<lparr>lr_R = marshalBinaryType m @ rest, lr_N = length (marshalBinaryType m)\<rparr> len = (None, carried m, \<lparr>lr_R = rest, lr_N = 0\<rparr>)"
proof -
  define t where "t = pm_Type m"
  have s: "t \<noteq> MTypeSuggest" "t \<noteq> MTypeAllowedFast" using assms(1,2) by (auto simp: sendable_def t_def)
  consider "no_payload t" | "\<not> no_payload t" "t = MTypeHave" | "\<not> no_payload t" "t \<in> {MTypeRequest, MTypeCancel, MTypeReject}"
    | "\<not> no_payload t" "t = MTypeBitField" | "\<not> no_payload t" "t = MTypePiece" | "\<not> no_payload t" "t = MTypeExtended"
    | "\<not> no_payload t" "t = MTypePort"
    | "\<not> no_payload t" "t \<notin> {MTypeHave, MTypeRequest, MTypeCancel, MTypeReject, MTypeBitField, MTypePiece, MTypeExtended, MTypePort}"
    by blast
  then show ?thesis
  proof cases
    case 1
    then show ?thesis using assms(1)
      by (simp add: carried_def decodeByMessageType_def marshalBinaryType_def t_def)
  next
    case 3
    then have "t \<noteq> MTypeHave" by auto
    then show ?thesis using assms(1) s 3
      by (simp add: carried_def decodeByMessageType_def marshalBinaryType_def t_def Let_def parts_decode)
  qed (use assms(1,3) s in \<open>simp_all add: carried_def decodeByMessageType_def marshalBinaryType_def t_def Let_def parts_decode\<close>)
qed

lemma frame_decodes:
  assumes "sendable m" "maxLength = 0 \<or> body_length m \<le> unat maxLength"
  shows "Message_DecodeFrom noMessage (Message_EncodeTo m @ rest) maxLength = (None, carried m, rest)"
proof (cases "pm_Keepalive m")
  case True
  have "put_u32 0 = [0, 0, 0, 0]" by code_simp
  then show ?thesis using True readMessageLength_put [of 0 rest]
    by (simp add: Message_EncodeTo_def Message_DecodeFrom_def carried_def del: readMessageLength_put)
next
  case False
  let ?p = "marshalBinaryType m"
  define len :: u32 where "len = of_nat (Suc (length ?p))"
  have l: "unat len = Suc (length ?p)" using False assms(1) by (simp add: len_def sendable_def unat_of_nat del: of_nat_Suc)
  then have ne: "len \<noteq> 0" by auto
  have one: "unat (len - 1) = length ?p" using l unat_minus_one [OF ne] by simp
  have "validateMessageLength len maxLength = None"
    using assms(2) l False by (auto simp: validateMessageLength_def body_length_def word_less_nat_alt)
  then show ?thesis
    using False ne l payload_decodes [OF False assms(1) one, of rest]
    by (simp add: Message_EncodeTo_def Message_DecodeFrom_def readByte_Cons len_def [symmetric] noMessage_def del: of_nat_Suc)
qed

subsection \<open>How much is read\<close>

definition taken :: "limited \<Rightarrow> limited \<Rightarrow> bool" where
  "taken lr lr' \<longleftrightarrow> (\<exists>c. lr_R lr = c @ lr_R lr' \<and> lr_N lr = length c + lr_N lr')"

definition small :: "nat \<Rightarrow> pmessage \<Rightarrow> bool" where
  "small k m \<longleftrightarrow> length (pm_Piece m) \<le> k \<and> length (pm_BitField m) \<le> k \<and> length (pm_ExtendedPayload m) \<le> k \<and>
     length (pm_UnknownTypePayload m) \<le> k"

text \<open>A step of the decoder takes some of the bytes that it may take, and keeps slices small.\<close>

definition good_step :: "(pmessage \<Rightarrow> limited \<Rightarrow> msg_step) \<Rightarrow> bool" where
  "good_step f \<longleftrightarrow> (\<forall>m lr err m' lr'. f m lr = (err, m', lr') \<longrightarrow>
     taken lr lr' \<and> (\<forall>k. small k m \<longrightarrow> lr_N lr \<le> k \<longrightarrow> small k m'))"

lemma taken_refl [simp]: "taken lr lr" "taken lr \<lparr>lr_R = lr_R lr, lr_N = lr_N lr\<rparr>"
  by (simp_all add: taken_def)

lemma taken_trans: "taken a b \<Longrightarrow> taken b c \<Longrightarrow> taken a c"
  by (fastforce simp: taken_def)

lemma taken_N: "taken lr lr' \<Longrightarrow> lr_N lr' \<le> lr_N lr"
  by (auto simp: taken_def)

lemma taken_drop: "k \<le> lr_N lr \<Longrightarrow> k \<le> length (lr_R lr) \<Longrightarrow> taken lr \<lparr>lr_R = drop k (lr_R lr), lr_N = lr_N lr - k\<rparr>"
  unfolding taken_def by (rule exI [of _ "take k (lr_R lr)"]) simp

lemma taken_ReadFull: "ReadFull n lr = (r, lr') \<Longrightarrow> taken lr lr' \<and> (\<forall>b. r = Inr b \<longrightarrow> length b = n \<and> n \<le> lr_N lr)"
  by (auto simp: ReadFull_def Let_def intro!: taken_drop split: if_splits)

lemma short_ReadFull: "ReadFull (lr_N lr) lr = (Inl e, lr') \<Longrightarrow> length (lr_R lr) \<le> lr_N lr"
  by (auto simp: ReadFull_def Let_def split: if_splits)

lemma taken_ReadAll: "ReadAll lr = (b, lr') \<Longrightarrow> taken lr lr' \<and> length b \<le> lr_N lr"
  by (auto simp: ReadAll_def Let_def intro!: taken_drop)

lemma taken_readByte: "readByte lr = (r, lr') \<Longrightarrow> taken lr lr'"
  by (auto simp: readByte_def split: prod.splits sum.splits dest: taken_ReadFull)

lemma good_stepI:
  "(\<And>m lr err m' lr'. f m lr = (err, m', lr') \<Longrightarrow> taken lr lr' \<and> (\<forall>k. small k m \<longrightarrow> lr_N lr \<le> k \<longrightarrow> small k m')) \<Longrightarrow> good_step f"
  by (auto simp: good_step_def)

lemma good_stepD: "good_step f \<Longrightarrow> f m lr = (err, m', lr') \<Longrightarrow> taken lr lr'"
  "good_step f \<Longrightarrow> f m lr = (err, m', lr') \<Longrightarrow> small k m \<Longrightarrow> lr_N lr \<le> k \<Longrightarrow> small k m'"
  by (auto simp: good_step_def)

lemma good_read_field: "(\<And>x k m. small k (put x m) = small k m) \<Longrightarrow> good_step (read_field n put)"
  by (rule good_stepI) (auto simp: read_field_def split: prod.splits sum.splits dest: taken_ReadFull)

lemma good_and_then: "good_step f \<Longrightarrow> good_step g \<Longrightarrow> good_step (\<lambda>m lr. and_then (f m lr) g)"
proof (rule good_stepI)
  fix m lr err m' lr' assume fg: "good_step f" "good_step g" and eq: "and_then (f m lr) g = (err, m', lr')"
  obtain e m1 lr1 where f: "f m lr = (e, m1, lr1)" by (cases "f m lr") auto
  show "taken lr lr' \<and> (\<forall>k. small k m \<longrightarrow> lr_N lr \<le> k \<longrightarrow> small k m')"
  proof (cases e)
    case None
    then have g: "g m1 lr1 = (err, m', lr')" using eq f by simp
    have "taken lr lr1" using good_stepD(1) [OF fg(1) f] .
    then show ?thesis
      using taken_trans good_stepD(1) [OF fg(2) g] good_stepD(2) [OF fg(1) f] good_stepD(2) [OF fg(2) g] taken_N [of lr lr1]
      by (meson le_trans)
  next
    case (Some x)
    then show ?thesis using eq f good_stepD [OF fg(1) f] by (auto simp: and_then_def)
  qed
qed

lemma good_parts:
  "good_step decodeIndexOnlyMessage" "good_step decodeRequestLikeMessage" "good_step decodePieceMessage"
  "good_step decodeExtendedMessage" "good_step decodePortMessage" "good_step decodeUnknownMessage"
  "good_step (\<lambda>m lr. decodeBitFieldMessage m lr len)" "good_step (\<lambda>m lr. (None, m, lr))"
proof -
  have r: "good_step (read_field 4 put_Index)" "good_step (read_field 4 put_Begin)" "good_step (read_field 4 put_Length)"
    "good_step (read_field 2 put_Port)"
    by (rule good_read_field, simp add: small_def)+
  have p: "good_step (\<lambda>m lr. case ReadFull (lr_N lr) lr of
          (Inl _, lr') \<Rightarrow> (Some PieceDataError,
            m\<lparr>pm_Piece := lr_R lr @ replicate (lr_N lr - length (lr_R lr)) 0\<rparr>, lr')
        | (Inr bs, lr') \<Rightarrow> (None, m\<lparr>pm_Piece := bs\<rparr>, lr'))"
    by (rule good_stepI) (auto simp: small_def split: prod.splits sum.splits dest: taken_ReadFull short_ReadFull)
  show "good_step decodeIndexOnlyMessage" "good_step decodePortMessage" "good_step decodeRequestLikeMessage"
    "good_step decodePieceMessage"
    unfolding decodeIndexOnlyMessage_def [abs_def] decodePortMessage_def [abs_def]
      decodeRequestLikeMessage_def [abs_def] decodePieceMessage_def [abs_def]
    by (intro good_and_then r p)+
  show "good_step decodeExtendedMessage"
    by (rule good_stepI)
       (auto simp: decodeExtendedMessage_def small_def split: prod.splits sum.splits
          dest!: taken_ReadAll taken_readByte intro: taken_trans dest: taken_N)
  show "good_step decodeUnknownMessage"
    by (rule good_stepI) (auto simp: decodeUnknownMessage_def small_def split: prod.splits dest!: taken_ReadAll)
  show "good_step (\<lambda>m lr. decodeBitFieldMessage m lr len)"
    by (rule good_stepI) (auto simp: decodeBitFieldMessage_def small_def split: prod.splits sum.splits dest!: taken_ReadFull)
qed (simp add: good_step_def)

lemma good_decode: "good_step (\<lambda>m lr. decodeByMessageType m lr len)"
  using good_parts(1-6,8) good_parts(7) [of len] by (auto simp: good_step_def decodeByMessageType_def Let_def split: if_splits)

lemma body_read:
  assumes "Message_DecodeFrom m r maxLength = (err, m', rest)" "small (unat maxLength) m"
    "readMessageLength r = (Inr len, body)" "len \<noteq> 0" "0 < maxLength" "\<not> maxLength < len"
  obtains lr where "taken \<lparr>lr_R = body, lr_N = unat len\<rparr> lr" "rest = lr_R lr" "small (unat maxLength) m'" "err = None \<longrightarrow> lr_N lr = 0"
proof -
  let ?lr = "\<lparr>lr_R = body, lr_N = unat len\<rparr>"
  have n: "unat len \<le> unat maxLength" using assms(6) by (simp add: word_less_nat_alt)
  have v: "validateMessageLength len maxLength = None" using assms(6) by (simp add: validateMessageLength_def)
  obtain b lr1 where b: "readByte ?lr = (b, lr1)" by (cases "readByte ?lr") auto
  have t1: "taken ?lr lr1" using taken_readByte [OF b] .
  show ?thesis
  proof (cases b)
    case (Inl e)
    then have "rest = lr_R lr1" "err \<noteq> None" "m' = m\<lparr>pm_Keepalive := False\<rparr>"
      using assms(1,3,4) v b by (auto simp: Message_DecodeFrom_def)
    then show ?thesis using that [of lr1] t1 assms(2) by (auto simp: small_def)
  next
    case (Inr t)
    let ?m = "m\<lparr>pm_Keepalive := False, pm_Type := t\<rparr>"
    obtain e m2 lr2 where d: "decodeByMessageType ?m lr1 len = (e, m2, lr2)" by (cases "decodeByMessageType ?m lr1 len") auto
    then have "rest = lr_R lr2" "m' = m2" "err = None \<longrightarrow> lr_N lr2 = 0"
      using assms(1,3,4) v b Inr by (auto simp: Message_DecodeFrom_def Let_def split: if_splits)
    moreover have "taken ?lr lr2" using taken_trans [OF t1 good_stepD(1) [OF good_decode d]] .
    moreover have "small (unat maxLength) m2"
      by (rule good_stepD(2) [OF good_decode d]) (use assms(2) n taken_N [OF t1] in \<open>auto simp: small_def\<close>)
    ultimately show ?thesis using that by blast
  qed
qed

lemma frame_read:
  assumes "Message_DecodeFrom m r maxLength = (err, m', rest)" "0 < maxLength" "small (unat maxLength) m"
  shows "\<exists>c. r = c @ rest \<and> length c \<le> 4 + unat maxLength \<and> small (unat maxLength) m' \<and>
    (err = None \<longrightarrow> length c = 4 + be_get (take 4 c))"
proof (cases "4 \<le> length r")
  case False
  then have "err \<noteq> None" "m' = m" "rest = []" using assms(1) by (auto simp: Message_DecodeFrom_def readMessageLength_def)
  then show ?thesis using False assms(3) by auto
next
  case True
  define len :: u32 where "len = of_nat (be_get (take 4 r))"
  have "be_get (take 4 r) < 2 ^ 32" using be_get_bound [of "take 4 r"] True by simp
  then have len: "unat len = be_get (take 4 r)" by (simp add: len_def unat_of_nat)
  have r: "r = take 4 r @ drop 4 r" by simp
  have ml: "readMessageLength r = (Inr len, drop 4 r)" using True by (simp add: readMessageLength_def len_def)
  consider "len = 0" | "maxLength < len" "len \<noteq> 0" | "len \<noteq> 0" "\<not> maxLength < len" by blast
  then show ?thesis
  proof cases
    case 1
    then have "err = None" "m' = m\<lparr>pm_Keepalive := True\<rparr>" "rest = drop 4 r"
      using assms(1) ml by (auto simp: Message_DecodeFrom_def)
    then show ?thesis using r True len 1 assms(3) by (intro exI [of _ "take 4 r"]) (simp add: small_def)
  next
    case 2
    then have "err \<noteq> None" "m' = m" "rest = drop 4 r"
      using assms(1,2) ml by (auto simp: Message_DecodeFrom_def validateMessageLength_def)
    then show ?thesis using r True assms(3) by (intro exI [of _ "take 4 r"]) auto
  next
    case 3
    from body_read [OF assms(1,3) ml 3(1) assms(2) 3(2)] obtain lr where
      "taken \<lparr>lr_R = drop 4 r, lr_N = unat len\<rparr> lr" "rest = lr_R lr" "small (unat maxLength) m'" "err = None \<longrightarrow> lr_N lr = 0" .
    then obtain c where "drop 4 r = c @ rest" "length c \<le> unat len" "small (unat maxLength) m'" "err = None \<longrightarrow> length c = unat len"
      by (auto simp: taken_def)
    then show ?thesis using r True 3(2) len by (intro exI [of _ "take 4 r @ c"]) (auto simp: word_less_nat_alt)
  qed
qed

subsection \<open>Streams of messages\<close>

definition read_message :: "bytes \<Rightarrow> (pmessage \<times> bytes) option" where
  "read_message r = (case DecodeToMessage r 0 of (None, m, rest) \<Rightarrow> Some (m, rest) | (Some _, _) \<Rightarrow> None)"

interpretation wire: codec Message_EncodeTo read_message "\<lambda>m. sendable m \<and> carried m = m"
  by unfold_locales (simp add: read_message_def DecodeToMessage_def frame_decodes)

section \<open>Properties\<close>

text \<open>C13: A bit field and a sorted list of pieces are two implementations of the same set, and one
  simulates the other: the list of the pieces that are set in a bit field after one more is set or
  unset is the list from before with the piece appended or removed. \<^verbatim>\<open>Sets\<close> gives exactly the
  pieces for which \<^verbatim>\<open>IsSet\<close> holds, in order, and \<^verbatim>\<open>Unsets\<close> the others; an index that is out of
  range changes nothing.\<close>

theorem bit_field_refines_pieces:
  assumes "8 * length bf \<le> 2 ^ 32"
  shows "BitField_Sets (BitField_Set bf i) =
      (if unat i < 8 * length bf then Pieces_Append (BitField_Sets bf) i else BitField_Sets bf) \<and>
    BitField_Sets (BitField_Unset bf i) = Pieces_Remove (BitField_Sets bf) i \<and>
    (i \<in> set (BitField_Sets bf) \<longleftrightarrow> BitField_IsSet bf i) \<and>
    (i \<in> set (BitField_Unsets bf) \<longleftrightarrow> unat i < 8 * length bf \<and> \<not> BitField_IsSet bf i) \<and>
    sorted (BitField_Sets bf) \<and> distinct (BitField_Sets bf) \<and> sorted (BitField_Unsets bf) \<and> distinct (BitField_Unsets bf)"
proof -
  note S = Sets_sorted [OF assms]
  have r: "i \<in> bits_room bf \<longleftrightarrow> unat i < 8 * length bf" by (simp add: bits_room_def)
  have "BitField_Sets (BitField_Set bf i) = (if i \<in> bits_room bf then Pieces_Append (BitField_Sets bf) i else BitField_Sets bf)"
    using Sets_sorted(1,2) [of "BitField_Set bf i"] assms S(1,2) listed.invar_add [OF S(1)] listed.abs_add [OF S(1)]
      field.abs_add [of bf i]
    by (auto intro!: pieces_eqI)
  moreover have "BitField_Sets (BitField_Unset bf i) = Pieces_Remove (BitField_Sets bf) i"
    using Sets_sorted(1,2) [of "BitField_Unset bf i"] assms S(1,2) listed.invar_del [OF S(1)] listed.abs_del [OF S(1)]
      field.abs_del [of bf i]
    by (auto intro!: pieces_eqI)
  ultimately show ?thesis using S r by (simp add: wf_pieces_def bits_of_def)
qed

theorem bit_field_refines_pieces_witness:
  "BitField_Sets [0x41, 0x80] = [1, 7, 8] \<and> BitField_Sets (BitField_Set [0x41, 0x80] 3) = [1, 3, 7, 8] \<and>
   BitField_Sets (BitField_Unset [0x41, 0x80] 7) = [1, 8]"
proof -
  have "BitField_Sets [0x41, 0x80] = [1, 7, 8]" by code_simp
  then show ?thesis
    using bit_field_refines_pieces [of "[0x41, 0x80]" 3] bit_field_refines_pieces [of "[0x41, 0x80]" 7]
    by (simp add: Pieces_Append_def)
qed

text \<open>A bit field made from a list of flags gives the flags back, followed by zeros up to the end of
  the last byte.\<close>

theorem bools_roundtrip:
  assumes "length bs \<le> 2 ^ 32"
  shows "\<exists>bf. NewBitFieldFromBools bs = Some bf \<and>
    BitField_Bools bf = bs @ replicate (8 * ((length bs + 7) div 8) - length bs) False"
proof -
  from FromBools_bits [OF assms] obtain bf where bf: "NewBitFieldFromBools bs = Some bf" "length bf = (length bs + 7) div 8"
    "bits_of bf = {i. unat i < length bs \<and> bs ! unat i}" .
  have l: "length bs \<le> 8 * length bf" "8 * length bf \<le> 2 ^ 32" using bf(2) assms by auto
  have "BitField_Bools bf = bs @ replicate (8 * length bf - length bs) False"
  proof (rule nth_equalityI)
    fix n assume "n < length (BitField_Bools bf)"
    then have n: "n < 8 * length bf" by (simp add: length_Bools)
    then have "of_nat n \<in> bits_of bf \<longleftrightarrow> n < length bs \<and> bs ! n"
      unfolding bf(3) using l(2) unat_index [of n] by simp
    then have "BitField_IsSet bf (of_nat n) \<longleftrightarrow> n < length bs \<and> bs ! n" by (simp add: bits_of_def)
    then show "BitField_Bools bf ! n = (bs @ replicate (8 * length bf - length bs) False) ! n"
      using nth_Bools [OF n l(2)] n by (auto simp: nth_append)
  qed (use l(1) in \<open>simp add: length_Bools\<close>)
  then show ?thesis using bf by simp
qed

theorem bools_roundtrip_witness:
  "\<exists>bf. NewBitFieldFromBools [True, False, True] = Some bf \<and>
    BitField_Bools bf = [True, False, True] @ replicate 5 False"
  using bools_roundtrip [of "[True, False, True]"] by simp

text \<open>C9: What one peer writes the other reads. Every message but \<^verbatim>\<open>Suggest\<close> and \<^verbatim>\<open>AllowedFast\<close> comes out
  of the decoder as it went into the encoder, with the fields that its type does not use at zero,
  and exactly its bytes are taken from the stream; so a sequence of messages is told apart without
  doubt.\<close>

theorem peer_message_roundtrip:
  assumes "sendable m" "maxLength = 0 \<or> body_length m \<le> unat maxLength"
  shows "Message_DecodeFrom noMessage (Message_EncodeTo m @ rest) maxLength = (None, carried m, rest) \<and>
    (sendable m' \<and> Message_EncodeTo m @ r = Message_EncodeTo m' @ r' \<longrightarrow> carried m = carried m' \<and> r = r')"
  using frame_decodes [OF assms] frame_decodes [OF assms(1), of 0 r] frame_decodes [of m' 0 r'] by auto

theorem peer_message_roundtrip_witness:
  "Message_DecodeFrom noMessage (Message_EncodeTo (noMessage\<lparr>pm_Type := MTypePiece, pm_Index := 3, pm_Begin := 9, pm_Piece := [1, 2]\<rparr>)
     @ [7]) 11 = (None, noMessage\<lparr>pm_Type := MTypePiece, pm_Index := 3, pm_Begin := 9, pm_Piece := [1, 2]\<rparr>, [7])"
proof -
  let ?m = "noMessage\<lparr>pm_Type := MTypePiece, pm_Index := 3, pm_Begin := 9, pm_Piece := [1, 2]\<rparr>"
  have a: "sendable ?m" and b: "body_length ?m \<le> unat (11 :: u32)" and c: "carried ?m = ?m"
    by (simp_all add: sendable_def body_length_def carried_def marshalBinaryType_def marshalPieceMessage_def no_payload_def noMessage_def)
  from peer_message_roundtrip [OF a, of 11 "[7]"] b have "Message_DecodeFrom noMessage (Message_EncodeTo ?m @ [7]) 11 = (None, carried ?m, [7])"
    by blast
  then show ?thesis unfolding c .
qed

text \<open>C38: A defect: a \<^verbatim>\<open>Suggest\<close> or \<^verbatim>\<open>AllowedFast\<close> message loses its piece index. The encoder writes
  no body for them, so the peer that reads such a message gets an error, whatever comes after it.\<close>

theorem suggest_not_transmitted:
  assumes "pm_Type m = MTypeSuggest \<or> pm_Type m = MTypeAllowedFast" "\<not> pm_Keepalive m" "pm_UnknownTypePayload m = []"
  shows "Message_EncodeTo m = [0, 0, 0, 1, pm_Type m] \<and>
    Message_DecodeFrom noMessage (Message_EncodeTo m @ rest) maxLength = (Some IoEOF, noMessage\<lparr>pm_Type := pm_Type m\<rparr>, rest)"
proof -
  have p: "put_u32 1 = [0, 0, 0, 1]" by code_simp
  have e: "Message_EncodeTo m = put_u32 1 @ [pm_Type m]"
    using assms by (auto simp: Message_EncodeTo_def marshalBinaryType_def no_payload_def Let_def)
  have "\<not> (0 < maxLength \<and> maxLength < 1)" by (auto simp: word_less_nat_alt)
  then have "Message_DecodeFrom noMessage (put_u32 1 @ pm_Type m # rest) maxLength =
      (Some IoEOF, noMessage\<lparr>pm_Type := pm_Type m\<rparr>, rest)"
    using assms(1)
    by (auto simp: Message_DecodeFrom_def validateMessageLength_def readByte_Cons decodeByMessageType_def no_payload_def
        decodeIndexOnlyMessage_def read_field_def ReadFull_def noMessage_def Let_def)
  then show ?thesis using e p by simp
qed

theorem suggest_not_transmitted_witness:
  "Message_DecodeFrom noMessage (Message_EncodeTo (noMessage\<lparr>pm_Type := MTypeSuggest, pm_Index := 5\<rparr>) @ []) 0 =
    (Some IoEOF, noMessage\<lparr>pm_Type := MTypeSuggest\<rparr>, [])"
proof -
  let ?m = "noMessage\<lparr>pm_Type := MTypeSuggest, pm_Index := 5\<rparr>"
  have t: "pm_Type ?m = MTypeSuggest" by simp
  have k: "\<not> pm_Keepalive ?m" "pm_UnknownTypePayload ?m = []" by (simp_all add: noMessage_def)
  show ?thesis using suggest_not_transmitted [OF disjI1 [OF t] k, of "[]" 0] unfolding t by (rule conjunct2)
qed

text \<open>C20: A peer cannot make the decoder read or keep more than the limit: whatever comes over the
  connection, at most 4 bytes and the limit are taken from it, no slice of the message is longer
  than the limit, and a message that is accepted has exactly the length that its prefix says.\<close>

theorem decode_bounded:
  assumes "DecodeToMessage r maxLength = (err, m, rest)" "0 < maxLength"
  shows "\<exists>c. r = c @ rest \<and> length c \<le> 4 + unat maxLength \<and>
    length (pm_Piece m) \<le> unat maxLength \<and> length (pm_BitField m) \<le> unat maxLength \<and>
    length (pm_ExtendedPayload m) \<le> unat maxLength \<and> length (pm_UnknownTypePayload m) \<le> unat maxLength \<and>
    (err = None \<longrightarrow> length c = 4 + be_get (take 4 c))"
  using frame_read [OF assms(1) [unfolded DecodeToMessage_def] assms(2)] by (auto simp: small_def noMessage_def)

theorem decode_bounded_witness:
  "\<exists>c. [0, 0, 0, 3, 7, 1, 2, 3] = c @ [3 :: byte] \<and> length c \<le> 4 + unat (8 :: u32)"
proof -
  have "DecodeToMessage [0, 0, 0, 3, 7, 1, 2, 3] 8 = (Some IoUnexpectedEOF, noMessage\<lparr>pm_Type := 7\<rparr>, [3])"
    by code_simp
  from decode_bounded [OF this] show ?thesis by auto
qed

end
