(* ===== verification/PeerExtension.thy ===== *)
theory PeerExtension
  imports StructDecode PeerMessage
begin

text \<open>
  The extension messages of the peer protocol, \<^verbatim>\<open>peerprotocol/extension.go\<close>: compact addresses, the
  extended handshake, the exchange of metadata and of peers, as bencoded structs.
\<close>

section \<open>Compact addresses\<close>

text \<open>
  Destination hashes are made by the package \<^verbatim>\<open>i2pkeys\<close>: \<open>dl_FromBytes\<close> gives the hash and whether
  there was an error.
\<close>

record dest_lib =
  dl_FromBytes :: "bytes \<Rightarrow> bytes \<times> bool"
  dl_String :: "bytes \<Rightarrow> bytes"

type_synonym compact_ip = bytes

definition CompactIP_String :: "dest_lib \<Rightarrow> compact_ip \<Rightarrow> bytes" where
  "CompactIP_String D ci =
     (if length ci = 4 then IP_String ci
      else if length ci = 16 then IP_String ci
      else if length ci = 32 then dl_String D (fst (dl_FromBytes D ci))
      else [])"

definition CompactIP_MarshalBencode :: "dest_lib \<Rightarrow> compact_ip \<Rightarrow> bencode_error + bytes" where
  "CompactIP_MarshalBencode D ci =
     (if length ci = 4 then encodeValue (GBytes ci)
      else if length ci = 16 then encodeValue (GBytes ci)
      else if length ci = 32
      then (case dl_FromBytes D ci of (h, err) \<Rightarrow> if err then Inl (MarshalError ''i2pkeys'') else encodeValue (GBytes h))
      else Inl (MarshalError ''invalid ipv4 or ipv6''))"

text \<open>The last bytes of the encoding, as many as its length allows for.\<close>

definition CompactIP_UnmarshalBencode :: "dest_lib \<Rightarrow> compact_ip \<Rightarrow> bytes \<Rightarrow> bencode_error + compact_ip" where
  "CompactIP_UnmarshalBencode D ci b =
     (if 4 \<le> length b \<and> length b < 16
      then let ip = drop (length b - 4) b in Inr (if IP_To4 ip \<noteq> [] then IP_To4 ip else ip)
      else if 16 \<le> length b \<and> length b < 32
      then let ip = drop (length b - 16) b in Inr (if IP_To16 ip \<noteq> [] then IP_To16 ip else ip)
      else if 32 \<le> length b then Inr (fst (dl_FromBytes D (drop (length b - 32) b)))
      else Inl (MarshalError ''invalid ipv4 or ipv6''))"

section \<open>The extended handshake\<close>

record ext_handshake =
  eh_M :: "(bytes, byte) gomap"
  eh_V :: bytes
  eh_Reqq :: int
  eh_Port :: u16
  eh_IPv6 :: bytes
  eh_IPv4 :: compact_ip
  eh_YourIP :: compact_ip
  eh_MetadataSize :: int

definition noExtHandshake :: ext_handshake where
  "noExtHandshake = \<lparr>eh_M = [], eh_V = [], eh_Reqq = 0, eh_Port = 0, eh_IPv6 = [], eh_IPv4 = [], eh_YourIP = [],
     eh_MetadataSize = 0\<rparr>"

definition ip_gval :: "dest_lib \<Rightarrow> compact_ip \<Rightarrow> gval" where
  "ip_gval D ci = GMarshaler (ci = []) (CompactIP_MarshalBencode D ci)"

definition ExtendedHandshakeMsg_gval :: "dest_lib \<Rightarrow> ext_handshake \<Rightarrow> gval" where
  "ExtendedHandshakeMsg_gval D m = GStruct (m = noExtHandshake) (map mk_field
     [(''M'', ''m'', False, GMap (map (\<lambda>(k, v). (k, GUint (unat v))) (eh_M m))),
      (''V'', ''v'', True, GString (eh_V m)),
      (''Reqq'', ''reqq'', True, GInt (eh_Reqq m)),
      (''Port'', ''p'', True, GUint (unat (eh_Port m))),
      (''IPv6'', ''ipv6'', True, GBytes (eh_IPv6 m)),
      (''IPv4'', ''ipv4'', True, ip_gval D (eh_IPv4 m)),
      (''YourIP'', ''yourip'', True, ip_gval D (eh_YourIP m)),
      (''MetadataSize'', ''metadata_size'', True, GInt (eh_MetadataSize m))])"

definition into_u8 :: "byte decoder" where
  "into_u8 = at_field unat (\<lambda>n _. of_nat n) (into_uint 8)"

definition into_ip :: "dest_lib \<Rightarrow> compact_ip decoder" where
  "into_ip D = into_unmarshaler (CompactIP_UnmarshalBencode D)"

definition ExtendedHandshakeMsg_fields :: "dest_lib \<Rightarrow> ext_handshake tfield list" where
  "ExtendedHandshakeMsg_fields D =
     [tagged ''M'' ''m'' eh_M (\<lambda>v m. m\<lparr>eh_M := v\<rparr>) (into_map False 0 into_u8),
      tagged ''V'' ''v,omitempty'' eh_V (\<lambda>v m. m\<lparr>eh_V := v\<rparr>) into_string,
      tagged ''Reqq'' ''reqq,omitempty'' eh_Reqq (\<lambda>v m. m\<lparr>eh_Reqq := v\<rparr>) (into_int 64),
      tagged ''Port'' ''p,omitempty'' (\<lambda>m. unat (eh_Port m)) (\<lambda>n m. m\<lparr>eh_Port := of_nat n\<rparr>) (into_uint 16),
      tagged ''IPv6'' ''ipv6,omitempty'' eh_IPv6 (\<lambda>v m. m\<lparr>eh_IPv6 := v\<rparr>) into_byte_slice,
      tagged ''IPv4'' ''ipv4,omitempty'' eh_IPv4 (\<lambda>v m. m\<lparr>eh_IPv4 := v\<rparr>) (into_ip D),
      tagged ''YourIP'' ''yourip,omitempty'' eh_YourIP (\<lambda>v m. m\<lparr>eh_YourIP := v\<rparr>) (into_ip D),
      tagged ''MetadataSize'' ''metadata_size,omitempty'' eh_MetadataSize (\<lambda>v m. m\<lparr>eh_MetadataSize := v\<rparr>) (into_int 64)]"

definition ExtendedHandshakeMsg_Decode :: "dest_lib \<Rightarrow> ext_handshake \<Rightarrow> bytes \<Rightarrow> bencode_error + ext_handshake" where
  "ExtendedHandshakeMsg_Decode D m b =
     (case into_struct False (ExtendedHandshakeMsg_fields D) m b of Inl e \<Rightarrow> Inl e | Inr (m', _) \<Rightarrow> Inr m')"

text \<open>\<^verbatim>\<open>Encode\<close> takes the bytes only when there was an error.\<close>

definition ExtendedHandshakeMsg_Encode :: "dest_lib \<Rightarrow> ext_handshake \<Rightarrow> bencode_error + bytes" where
  "ExtendedHandshakeMsg_Encode D m =
     (case encodeValue (ExtendedHandshakeMsg_gval D m) of Inl e \<Rightarrow> Inl e | Inr _ \<Rightarrow> Inr [])"

section \<open>Exchange of metadata\<close>

record ut_metadata =
  um_MsgType :: byte
  um_Piece :: int
  um_TotalSize :: int
  um_Data :: bytes

definition noMetadata :: ut_metadata where
  "noMetadata = \<lparr>um_MsgType = 0, um_Piece = 0, um_TotalSize = 0, um_Data = []\<rparr>"

abbreviation (input) UtMetadataExtendedMsgTypeData :: byte where
  "UtMetadataExtendedMsgTypeData \<equiv> 1"

text \<open>The data is not part of the struct on the wire. The decoder does not know the tag \<^verbatim>\<open>-\<close>.\<close>

definition UtMetadataExtendedMsg_gval :: "ut_metadata \<Rightarrow> gval" where
  "UtMetadataExtendedMsg_gval um = GStruct (um = noMetadata) (map mk_field
     [(''MsgType'', ''msg_type'', False, GUint (unat (um_MsgType um))),
      (''Piece'', ''piece'', False, GInt (um_Piece um)),
      (''TotalSize'', ''total_size'', True, GInt (um_TotalSize um)),
      (''Data'', ''-'', False, GBytes (um_Data um))])"

definition UtMetadataExtendedMsg_fields :: "ut_metadata tfield list" where
  "UtMetadataExtendedMsg_fields =
     [tagged ''MsgType'' ''msg_type'' um_MsgType (\<lambda>v m. m\<lparr>um_MsgType := v\<rparr>) into_u8,
      tagged ''Piece'' ''piece'' um_Piece (\<lambda>v m. m\<lparr>um_Piece := v\<rparr>) (into_int 64),
      tagged ''TotalSize'' ''total_size,omitempty'' um_TotalSize (\<lambda>v m. m\<lparr>um_TotalSize := v\<rparr>) (into_int 64),
      tagged ''Data'' ''-'' um_Data (\<lambda>v m. m\<lparr>um_Data := v\<rparr>) into_byte_slice]"

text \<open>What is appended to the buffer.\<close>

definition UtMetadataExtendedMsg_EncodeToPayload :: "ut_metadata \<Rightarrow> bencode_error + bytes" where
  "UtMetadataExtendedMsg_EncodeToPayload um =
     (let um1 = (if um_MsgType um \<noteq> UtMetadataExtendedMsgTypeData then um\<lparr>um_TotalSize := 0, um_Data := []\<rparr> else um)
      in case encodeValue (UtMetadataExtendedMsg_gval um1) of Inl e \<Rightarrow> Inl e | Inr b \<Rightarrow> Inr (b @ um_Data um1))"

definition UtMetadataExtendedMsg_DecodeFromPayload :: "ut_metadata \<Rightarrow> bytes \<Rightarrow> bencode_error + ut_metadata" where
  "UtMetadataExtendedMsg_DecodeFromPayload um b =
     (case into_struct False UtMetadataExtendedMsg_fields um b of
        Inl e \<Rightarrow> Inl e
      | Inr (um1, rest) \<Rightarrow> Inr (um1\<lparr>um_Data := rest\<rparr>))"

text \<open>\<^verbatim>\<open>Message.UtMetadataExtendedMsg\<close> panics on another type of message.\<close>

definition Message_UtMetadataExtendedMsg :: "pmessage \<Rightarrow> (bencode_error + ut_metadata) option" where
  "Message_UtMetadataExtendedMsg m =
     (if pm_Type m \<noteq> MTypeExtended then None
      else Some (UtMetadataExtendedMsg_DecodeFromPayload noMetadata (pm_ExtendedPayload m)))"

section \<open>Exchange of peers\<close>

record compact_peer =
  cp_IP :: compact_ip
  cp_Port :: u16

record ut_pex =
  px_Added :: "compact_peer list"
  px_AddedF :: bytes
  px_Added6 :: "compact_peer list"
  px_Added6F :: bytes
  px_Dropped :: "compact_peer list"
  px_Dropped6 :: "compact_peer list"

definition noPeer :: compact_peer where
  "noPeer = \<lparr>cp_IP = [], cp_Port = 0\<rparr>"

definition noPex :: ut_pex where
  "noPex = \<lparr>px_Added = [], px_AddedF = [], px_Added6 = [], px_Added6F = [], px_Dropped = [], px_Dropped6 = []\<rparr>"

definition CompactPeer_gval :: "dest_lib \<Rightarrow> compact_peer \<Rightarrow> gval" where
  "CompactPeer_gval D p = GStruct (p = noPeer) (map mk_field
     [(''IP'', ''ip'', False, ip_gval D (cp_IP p)),
      (''Port'', ''port'', False, GUint (unat (cp_Port p)))])"

definition CompactPeer_fields :: "dest_lib \<Rightarrow> compact_peer tfield list" where
  "CompactPeer_fields D =
     [tagged ''IP'' ''ip'' cp_IP (\<lambda>v p. p\<lparr>cp_IP := v\<rparr>) (into_ip D),
      tagged ''Port'' ''port'' (\<lambda>p. unat (cp_Port p)) (\<lambda>n p. p\<lparr>cp_Port := of_nat n\<rparr>) (into_uint 16)]"

definition peers_gval :: "dest_lib \<Rightarrow> compact_peer list \<Rightarrow> gval" where
  "peers_gval D ps = GSlice (map (CompactPeer_gval D) ps)"

definition into_peers :: "dest_lib \<Rightarrow> compact_peer list decoder" where
  "into_peers D = into_slice noPeer (into_struct False (CompactPeer_fields D))"

definition UtPexExtendedMsg_gval :: "dest_lib \<Rightarrow> ut_pex \<Rightarrow> gval" where
  "UtPexExtendedMsg_gval D pm = GStruct (pm = noPex) (map mk_field
     [(''Added'', ''added'', False, peers_gval D (px_Added pm)),
      (''AddedF'', ''added.f'', False, GBytes (px_AddedF pm)),
      (''Added6'', ''added6'', False, peers_gval D (px_Added6 pm)),
      (''Added6F'', ''added6.f'', False, GBytes (px_Added6F pm)),
      (''Dropped'', ''dropped'', False, peers_gval D (px_Dropped pm)),
      (''Dropped6'', ''dropped6'', False, peers_gval D (px_Dropped6 pm))])"

definition UtPexExtendedMsg_fields :: "dest_lib \<Rightarrow> ut_pex tfield list" where
  "UtPexExtendedMsg_fields D =
     [tagged ''Added'' ''added'' px_Added (\<lambda>v m. m\<lparr>px_Added := v\<rparr>) (into_peers D),
      tagged ''AddedF'' ''added.f'' px_AddedF (\<lambda>v m. m\<lparr>px_AddedF := v\<rparr>) into_byte_slice,
      tagged ''Added6'' ''added6'' px_Added6 (\<lambda>v m. m\<lparr>px_Added6 := v\<rparr>) (into_peers D),
      tagged ''Added6F'' ''added6.f'' px_Added6F (\<lambda>v m. m\<lparr>px_Added6F := v\<rparr>) into_byte_slice,
      tagged ''Dropped'' ''dropped'' px_Dropped (\<lambda>v m. m\<lparr>px_Dropped := v\<rparr>) (into_peers D),
      tagged ''Dropped6'' ''dropped6'' px_Dropped6 (\<lambda>v m. m\<lparr>px_Dropped6 := v\<rparr>) (into_peers D)]"

definition UtPexExtendedMsg_EncodeToPayload :: "dest_lib \<Rightarrow> ut_pex \<Rightarrow> bencode_error + bytes" where
  "UtPexExtendedMsg_EncodeToPayload D pm = encodeValue (UtPexExtendedMsg_gval D pm)"

definition UtPexExtendedMsg_DecodeFromPayload :: "dest_lib \<Rightarrow> ut_pex \<Rightarrow> bytes \<Rightarrow> bencode_error + ut_pex" where
  "UtPexExtendedMsg_DecodeFromPayload D pm b =
     (case into_struct False (UtPexExtendedMsg_fields D) pm b of Inl e \<Rightarrow> Inl e | Inr (pm', _) \<Rightarrow> Inr pm')"

section \<open>Maps\<close>

lemma mput_fresh: "k \<notin> fst ` set m \<Longrightarrow> mput m k v = m @ [(k, v)]"
  unfolding mput_def by (induction m) auto

lemma map_pairs_carried:
  assumes "sorted (map fst m)" "distinct (map fst m)" "fst ` set acc \<inter> fst ` set m = {}"
    "\<forall>(k, v) \<in> set m. length k < 2 ^ 31 \<and> carries (f v) d (\<lambda>c. c = zero) (\<lambda>_. v)"
    "\<forall>l. lk = Some l \<longrightarrow> list_all (\<lambda>(k, v). l \<le> k) m"
  shows "\<exists>b. cat_results (map (\<lambda>(k, v). keyed k (encodeValue (f v))) m) = Inr b \<and> length m \<le> length b \<and>
     (\<forall>n s. length m < n \<longrightarrow> into_map_pairs n fu lk zero d acc (b @ 101 # s) = Inr (acc @ m, s))"
  using assms
proof (induction m arbitrary: lk acc)
  case Nil
  then show ?case by (auto simp: gr0_conv_Suc into_map_pairs.simps)
next
  case (Cons x m)
  obtain k v where x: "x = (k, v)" by (cases x)
  obtain b where b: "encodeValue (f v) = Inr b" "\<And>s. d zero (b @ s) = Inr (v, s)" and k: "length k < 2 ^ 31"
    using Cons.prems(4) x by (auto simp: carries_def)
  have fresh: "mput acc k v = acc @ [(k, v)]" using Cons.prems(3) x by (intro mput_fresh) auto
  have le: "list_all (\<lambda>(k', v). k \<le> k') m" using Cons.prems(1) x by (auto simp: list_all_iff)
  obtain bs where bs: "cat_results (map (\<lambda>(k, v). keyed k (encodeValue (f v))) m) = Inr bs" "length m \<le> length bs"
    "\<And>n s. length m < n \<Longrightarrow> into_map_pairs n fu (Some k) zero d (acc @ [(k, v)]) (bs @ 101 # s) = Inr ((acc @ [(k, v)]) @ m, s)"
    using Cons.IH [of "acc @ [(k, v)]" "Some k"] Cons.prems x le by auto
  have o: "validateKeyOrder fu lk k" using Cons.prems(5) x by (auto simp: validateKeyOrder_def not_less split: option.split)
  obtain c r where c: "encodeStringType k = c # r" "48 \<le> c" "c \<le> 57" using encodeStringType_head [of k "[]"] by auto
  then have c': "c \<noteq> 101" by (auto simp: word_le_nat_alt)
  have "into_map_pairs (Suc n) fu lk zero d acc ((encodeStringType k @ b @ bs) @ 101 # s) = Inr (acc @ x # m, s)"
    if "length m < n" for n s
  proof -
    have "decodeString (c # r @ b @ bs @ 101 # s) = Inr (k, b @ bs @ 101 # s)"
      using decodeString_encode [OF k, of "b @ bs @ 101 # s"] c(1) by simp
    then show ?thesis using bs(3) [OF that, of s] b(2) o c' c(1) x fresh by (simp add: into_map_pairs.simps)
  qed
  moreover have "length (x # m) \<le> length (encodeStringType k @ b @ bs)" using bs(2) c(1) by simp
  ultimately show ?case using b(1) bs(1) x
    by (auto simp: keyed_def Suc_less_eq2 intro!: exI [of _ "encodeStringType k @ b @ bs"])
qed

lemma not_nil_map [simp]: "\<not> isNilValue (GMap kvs)"
  by (simp add: isNilValue_def)

lemma carries_map:
  assumes "distinct (map fst m)" "\<forall>(k, v) \<in> set m. length k < 2 ^ 31 \<and> carries (f v) d (\<lambda>c. c = zero) (\<lambda>_. v)"
    "\<And>v. \<not> isNilValue (f v)"
  shows "carries (GMap (map (\<lambda>(k, v). (k, f v)) m)) (into_map fu zero d) (\<lambda>c. c = []) (\<lambda>_. sort_key fst m)"
proof -
  let ?m = "sort_key fst m"
  have d: "distinct (map fst ?m)" using assms(1) by (simp add: distinct_map)
  have w: "\<forall>(k, v) \<in> set ?m. length k < 2 ^ 31 \<and> carries (f v) d (\<lambda>c. c = zero) (\<lambda>_. v)" using assms(2) by simp
  obtain b where b: "cat_results (map (\<lambda>(k, v). keyed k (encodeValue (f v))) ?m) = Inr b" "length ?m \<le> length b"
     "\<And>n s. length ?m < n \<Longrightarrow> into_map_pairs n fu None zero d [] (b @ 101 # s) = Inr ([] @ ?m, s)"
    using map_pairs_carried [OF _ d, of "[]" f d zero None fu] w by (simp del: length_sort) blast
  have s: "sort_key fst (map (\<lambda>(k, v). (k, f v)) m) = map (\<lambda>(k, v). (k, f v)) ?m"
    using sort_key_map [of fst "\<lambda>(k, v). (k, f v)" m] by (simp add: split_beta)
  have e: "map (\<lambda>(k, v). keyed k (encodeValue v)) (filter (\<lambda>(k, v). \<not> isNilValue v) (map (\<lambda>(k, v). (k, f v)) xs)) =
      map (\<lambda>(k, v). keyed k (encodeValue (f v))) xs" for xs
    using assms(3) by (induction xs) auto
  have "encodeValue (GMap (map (\<lambda>(k, v). (k, f v)) m)) = Inr (100 # b @ [101])"
    by (simp add: encodeValue.simps [of "GMap _"] s e b(1) wrap_def)
  then show ?thesis
    using b(2,3) by (intro carriesI [of _ 100 "b @ [101]"]) (simp_all add: into_map_def dispatchDecodeByType_def)
qed

section \<open>What is written is read\<close>

text \<open>The package \<^verbatim>\<open>i2pkeys\<close> takes 32 bytes for a hash as they are.\<close>

definition takes_hashes :: "dest_lib \<Rightarrow> bool" where
  "takes_hashes D \<longleftrightarrow> (\<forall>b. length b = 32 \<longrightarrow> dl_FromBytes D b = (b, False))"

definition valid_ip :: "compact_ip \<Rightarrow> bool" where
  "valid_ip ci \<longleftrightarrow> length ci = 4 \<or> length ci = 16 \<or> length ci = 32"

lemma CompactIP_Marshal: "takes_hashes D \<Longrightarrow> valid_ip ci \<Longrightarrow> CompactIP_MarshalBencode D ci = encodeValue (GBytes ci)"
  by (auto simp: CompactIP_MarshalBencode_def takes_hashes_def valid_ip_def)

lemma CompactIP_Unmarshal: "takes_hashes D \<Longrightarrow> valid_ip ci \<Longrightarrow> CompactIP_UnmarshalBencode D cur (encodeStringType ci) = Inr ci"
proof -
  assume D: "takes_hashes D" and ci: "valid_ip ci"
  have l: "length (dec_nat 4) = 1" "length (dec_nat 16) = 2" "length (dec_nat 32) = 2" by code_simp+
  have d: "drop (length (encodeStringType ci) - length ci) (encodeStringType ci) = ci" by (simp add: encodeStringType_def)
  have n: "length (encodeStringType ci) = length (dec_nat (length ci)) + 1 + length ci" by (simp add: encodeStringType_def)
  from ci consider "length ci = 4" | "length ci = 16" | "length ci = 32" by (auto simp: valid_ip_def)
  then show ?thesis
  proof cases
    case 1
    then have "IP_To4 ci = ci" "ci \<noteq> []" by (auto simp: IP_To4_def)
    then show ?thesis using 1 n d l(1) by (simp add: CompactIP_UnmarshalBencode_def Let_def)
  next
    case 2
    then have "IP_To16 ci = ci" "ci \<noteq> []" by (auto simp: IP_To16_def)
    then show ?thesis using 2 n d l(2) by (simp add: CompactIP_UnmarshalBencode_def Let_def)
  next
    case 3
    then show ?thesis using n d l(3) D by (simp add: CompactIP_UnmarshalBencode_def takes_hashes_def)
  qed
qed

lemma ip_reads:
  assumes "takes_hashes D" "valid_ip ci"
  shows "carries (ip_gval D ci) (into_ip D) (\<lambda>_. True) (\<lambda>_. ci)"
  unfolding ip_gval_def into_ip_def
proof (rule carries_unmarshaler)
  have "length ci < 2 ^ 31" using assms(2) by (auto simp: valid_ip_def)
  then show "denotes (GMarshaler (ci = []) (CompactIP_MarshalBencode D ci)) (BStr ci)"
    unfolding CompactIP_Marshal [OF assms] by (intro marshaled_denotes [OF denotes_bytes]) (simp_all add: fits_def)
  show "CompactIP_UnmarshalBencode D cur b = Inr ci" if "CompactIP_MarshalBencode D ci = Inr b" for cur b
    using that CompactIP_Unmarshal [OF assms] by (simp add: CompactIP_Marshal [OF assms] encodeValue.simps is_byte_slice_def)
qed

lemma u8_reads: "carries (GUint (unat (x :: byte))) into_u8 (\<lambda>_. True) (\<lambda>_. x)"
  using carries_at [OF carries_uint [of "unat x" 8], of unat "\<lambda>n _. of_nat n :: byte"] unsigned_less [of x, where ?'a = nat]
  by (simp add: into_u8_def)

lemma peer_tags:
  "list_all good_tag [''m'', ''v'', ''reqq'', ''p'', ''ipv6'', ''ipv4'', ''yourip'', ''metadata_size'', ''msg_type'',
     ''piece'', ''total_size'', ''ip'', ''port'', ''added'', ''added.f'', ''added6'', ''added6.f'', ''dropped'', ''dropped6'']"
  by code_simp

lemma peer_tag_names:
  "fst (parseTag (ascii ''m'')) = ascii ''m''" "fst (parseTag (ascii ''v,omitempty'')) = ascii ''v''"
  "fst (parseTag (ascii ''reqq,omitempty'')) = ascii ''reqq''" "fst (parseTag (ascii ''p,omitempty'')) = ascii ''p''"
  "fst (parseTag (ascii ''ipv6,omitempty'')) = ascii ''ipv6''" "fst (parseTag (ascii ''ipv4,omitempty'')) = ascii ''ipv4''"
  "fst (parseTag (ascii ''yourip,omitempty'')) = ascii ''yourip''"
  "fst (parseTag (ascii ''metadata_size,omitempty'')) = ascii ''metadata_size''"
  "fst (parseTag (ascii ''msg_type'')) = ascii ''msg_type''" "fst (parseTag (ascii ''piece'')) = ascii ''piece''"
  "fst (parseTag (ascii ''total_size,omitempty'')) = ascii ''total_size''" "fst (parseTag (ascii ''-'')) = ascii ''-''"
  "fst (parseTag (ascii ''ip'')) = ascii ''ip''" "fst (parseTag (ascii ''port'')) = ascii ''port''"
  "fst (parseTag (ascii ''added'')) = ascii ''added''" "fst (parseTag (ascii ''added.f'')) = ascii ''added.f''"
  "fst (parseTag (ascii ''added6'')) = ascii ''added6''" "fst (parseTag (ascii ''added6.f'')) = ascii ''added6.f''"
  "fst (parseTag (ascii ''dropped'')) = ascii ''dropped''" "fst (parseTag (ascii ''dropped6'')) = ascii ''dropped6''"
  by code_simp+

lemma peer_names_distinct:
  "distinct (map ascii [''m'', ''v'', ''reqq'', ''p'', ''ipv6'', ''ipv4'', ''yourip'', ''metadata_size''])"
  "distinct (map ascii [''msg_type'', ''piece'', ''total_size'', ''-''])"
  "distinct (map ascii [''ip'', ''port''])"
  "distinct (map ascii [''added'', ''added.f'', ''added6'', ''added6.f'', ''dropped'', ''dropped6''])"
  by code_simp+

definition ExtendedHandshakeMsg_views :: "dest_lib \<Rightarrow> ext_handshake \<Rightarrow> ext_handshake field_view list" where
  "ExtendedHandshakeMsg_views D m =
     [((''M'', ''m'', False, GMap (map (\<lambda>(k, v). (k, GUint (unat v))) (eh_M m))), \<lambda>s. eh_M s = [], \<lambda>s. s\<lparr>eh_M := sort_key fst (eh_M m)\<rparr>),
      ((''V'', ''v'', True, GString (eh_V m)), \<lambda>_. True, \<lambda>s. s\<lparr>eh_V := eh_V m\<rparr>),
      ((''Reqq'', ''reqq'', True, GInt (eh_Reqq m)), \<lambda>_. True, \<lambda>s. s\<lparr>eh_Reqq := eh_Reqq m\<rparr>),
      ((''Port'', ''p'', True, GUint (unat (eh_Port m))), \<lambda>_. True, \<lambda>s. s\<lparr>eh_Port := eh_Port m\<rparr>),
      ((''IPv6'', ''ipv6'', True, GBytes (eh_IPv6 m)), \<lambda>_. True, \<lambda>s. s\<lparr>eh_IPv6 := eh_IPv6 m\<rparr>),
      ((''IPv4'', ''ipv4'', True, ip_gval D (eh_IPv4 m)), \<lambda>_. True, \<lambda>s. s\<lparr>eh_IPv4 := eh_IPv4 m\<rparr>),
      ((''YourIP'', ''yourip'', True, ip_gval D (eh_YourIP m)), \<lambda>_. True, \<lambda>s. s\<lparr>eh_YourIP := eh_YourIP m\<rparr>),
      ((''MetadataSize'', ''metadata_size'', True, GInt (eh_MetadataSize m)), \<lambda>_. True, \<lambda>s. s\<lparr>eh_MetadataSize := eh_MetadataSize m\<rparr>)]"

definition wf_ext_handshake :: "ext_handshake \<Rightarrow> bool" where
  "wf_ext_handshake m \<longleftrightarrow> wf_map (eh_M m) \<and> list_all (\<lambda>(k, v). fits k) (eh_M m) \<and> fits (eh_V m) \<and> fits (eh_IPv6 m) \<and>
     is_int64 (eh_Reqq m) \<and> is_int64 (eh_MetadataSize m) \<and>
     (eh_IPv4 m = [] \<or> valid_ip (eh_IPv4 m)) \<and> (eh_YourIP m = [] \<or> valid_ip (eh_YourIP m))"

lemma ExtendedHandshakeMsg_fields_read:
  assumes "wf_ext_handshake m" "takes_hashes D"
  shows "list_all2 field_reads (ExtendedHandshakeMsg_fields D) (ExtendedHandshakeMsg_views D m)"
proof -
  have M: "carries (GMap (map (\<lambda>(k, v). (k, GUint (unat v))) (eh_M m))) (into_map False 0 into_u8) (\<lambda>c. c = [])
      (\<lambda>_. sort_key fst (eh_M m))"
    using assms(1)
    by (intro carries_map) (auto simp: wf_ext_handshake_def list_all_iff fits_def intro: carries_any u8_reads)
  show ?thesis
    unfolding ExtendedHandshakeMsg_fields_def ExtendedHandshakeMsg_views_def
    by (intro list.rel_intros; (rule string_reads | rule number_reads | rule u16_field_reads | rule field_readsI [OF _ _ _ M]
          | rule field_readsI [where ready = "\<lambda>_. True", OF _ _ _ ip_reads])?;
        (rule extract_tag)?; (use assms in \<open>simp add: peer_tag_names peer_tags [simplified] wf_ext_handshake_def fits_def is_int64_def
          ip_gval_def\<close>)?)
qed

lemma field_names:
  "map extractFieldName (ExtendedHandshakeMsg_fields D) = map ascii [''m'', ''v'', ''reqq'', ''p'', ''ipv6'', ''ipv4'', ''yourip'', ''metadata_size'']"
  "map extractFieldName UtMetadataExtendedMsg_fields = map ascii [''msg_type'', ''piece'', ''total_size'', ''-'']"
  "map extractFieldName (CompactPeer_fields D) = map ascii [''ip'', ''port'']"
  "map extractFieldName (UtPexExtendedMsg_fields D) = map ascii [''added'', ''added.f'', ''added6'', ''added6.f'', ''dropped'', ''dropped6'']"
proof -
  have "ascii t \<noteq> []" if "t \<noteq> []" for t using that by (simp add: ascii_def)
  then show "map extractFieldName (ExtendedHandshakeMsg_fields D) = map ascii [''m'', ''v'', ''reqq'', ''p'', ''ipv6'', ''ipv4'', ''yourip'', ''metadata_size'']"
    "map extractFieldName UtMetadataExtendedMsg_fields = map ascii [''msg_type'', ''piece'', ''total_size'', ''-'']"
    "map extractFieldName (CompactPeer_fields D) = map ascii [''ip'', ''port'']"
    "map extractFieldName (UtPexExtendedMsg_fields D) = map ascii [''added'', ''added.f'', ''added6'', ''added6.f'', ''dropped'', ''dropped6'']"
    by (simp_all add: ExtendedHandshakeMsg_fields_def UtMetadataExtendedMsg_fields_def CompactPeer_fields_def
        UtPexExtendedMsg_fields_def extract_tagged peer_tag_names Let_def)
qed

lemma ExtendedHandshakeMsg_reads:
  assumes "wf_ext_handshake m" "takes_hashes D"
  shows "carries (ExtendedHandshakeMsg_gval D m) (into_struct fu (ExtendedHandshakeMsg_fields D)) (\<lambda>s. s = noExtHandshake)
    (\<lambda>_. m\<lparr>eh_M := sort_key fst (eh_M m)\<rparr>)"
proof (rule carries_fields [OF ExtendedHandshakeMsg_fields_read [OF assms]])
  let ?xs = "ExtendedHandshakeMsg_views D m" and ?fs = "ExtendedHandshakeMsg_fields D"
  show "distinct (map extractFieldName ?fs)" using peer_names_distinct(1) by (simp only: field_names)
  show "\<forall>x\<in>set ?xs. \<forall>y\<in>set ?xs. v_tag x \<noteq> v_tag y \<longrightarrow> (\<forall>s. v_ready y s \<longrightarrow> v_ready y (v_upd x s))"
    "\<forall>x\<in>set ?xs. \<forall>y\<in>set ?xs. \<forall>s. v_upd x (v_upd y s) = v_upd y (v_upd x s)"
    by (simp_all add: ExtendedHandshakeMsg_views_def)
  show "\<forall>x\<in>set ?xs. \<not> v_present x \<longrightarrow> v_upd x noExtHandshake = noExtHandshake" "list_all (\<lambda>x. v_ready x noExtHandshake) ?xs"
    by (simp_all add: ExtendedHandshakeMsg_views_def v_present_def noExtHandshake_def unat_zero_iff ip_gval_def)
qed (simp_all add: ExtendedHandshakeMsg_views_def ExtendedHandshakeMsg_gval_def ExtendedHandshakeMsg_fields_def noExtHandshake_def)

definition CompactPeer_views :: "dest_lib \<Rightarrow> compact_peer \<Rightarrow> compact_peer field_view list" where
  "CompactPeer_views D p =
     [((''IP'', ''ip'', False, ip_gval D (cp_IP p)), \<lambda>_. True, \<lambda>s. s\<lparr>cp_IP := cp_IP p\<rparr>),
      ((''Port'', ''port'', False, GUint (unat (cp_Port p))), \<lambda>_. True, \<lambda>s. s\<lparr>cp_Port := cp_Port p\<rparr>)]"

lemma CompactPeer_reads:
  assumes "valid_ip (cp_IP p)" "takes_hashes D"
  shows "carries (CompactPeer_gval D p) (into_struct fu (CompactPeer_fields D)) (\<lambda>s. s = noPeer) (\<lambda>_. p)"
proof (rule carries_fields)
  let ?xs = "CompactPeer_views D p" and ?fs = "CompactPeer_fields D"
  show "list_all2 field_reads ?fs ?xs"
    unfolding CompactPeer_fields_def CompactPeer_views_def
    by (intro list.rel_intros; (rule u16_field_reads | rule field_readsI [where ready = "\<lambda>_. True", OF _ _ _ ip_reads])?;
        (rule extract_tag)?; (use assms in \<open>simp add: peer_tag_names peer_tags [simplified] ip_gval_def\<close>)?)
  show "distinct (map extractFieldName ?fs)" using peer_names_distinct(3) by (simp only: field_names)
  show "\<forall>x\<in>set ?xs. \<forall>y\<in>set ?xs. v_tag x \<noteq> v_tag y \<longrightarrow> (\<forall>s. v_ready y s \<longrightarrow> v_ready y (v_upd x s))"
    "\<forall>x\<in>set ?xs. \<forall>y\<in>set ?xs. \<forall>s. v_upd x (v_upd y s) = v_upd y (v_upd x s)"
    "\<forall>x\<in>set ?xs. \<not> v_present x \<longrightarrow> v_upd x noPeer = noPeer" "list_all (\<lambda>x. v_ready x noPeer) ?xs"
    by (simp_all add: CompactPeer_views_def v_present_def)
qed (simp_all add: CompactPeer_views_def CompactPeer_gval_def CompactPeer_fields_def noPeer_def)

lemma peers_read:
  assumes "list_all (\<lambda>p. valid_ip (cp_IP p)) ps" "takes_hashes D"
  shows "carries (peers_gval D ps) (into_peers D) (\<lambda>c. c = []) (\<lambda>_. ps)"
  unfolding peers_gval_def into_peers_def
  by (rule carries_slice) (use assms in \<open>auto simp: list_all_iff intro: CompactPeer_reads\<close>)

definition UtPexExtendedMsg_views :: "dest_lib \<Rightarrow> ut_pex \<Rightarrow> ut_pex field_view list" where
  "UtPexExtendedMsg_views D m =
     [((''Added'', ''added'', False, peers_gval D (px_Added m)), \<lambda>s. px_Added s = [], \<lambda>s. s\<lparr>px_Added := px_Added m\<rparr>),
      ((''AddedF'', ''added.f'', False, GBytes (px_AddedF m)), \<lambda>_. True, \<lambda>s. s\<lparr>px_AddedF := px_AddedF m\<rparr>),
      ((''Added6'', ''added6'', False, peers_gval D (px_Added6 m)), \<lambda>s. px_Added6 s = [], \<lambda>s. s\<lparr>px_Added6 := px_Added6 m\<rparr>),
      ((''Added6F'', ''added6.f'', False, GBytes (px_Added6F m)), \<lambda>_. True, \<lambda>s. s\<lparr>px_Added6F := px_Added6F m\<rparr>),
      ((''Dropped'', ''dropped'', False, peers_gval D (px_Dropped m)), \<lambda>s. px_Dropped s = [], \<lambda>s. s\<lparr>px_Dropped := px_Dropped m\<rparr>),
      ((''Dropped6'', ''dropped6'', False, peers_gval D (px_Dropped6 m)), \<lambda>s. px_Dropped6 s = [], \<lambda>s. s\<lparr>px_Dropped6 := px_Dropped6 m\<rparr>)]"

definition wf_pex :: "ut_pex \<Rightarrow> bool" where
  "wf_pex m \<longleftrightarrow> list_all (\<lambda>p. valid_ip (cp_IP p)) (px_Added m @ px_Added6 m @ px_Dropped m @ px_Dropped6 m) \<and>
     fits (px_AddedF m) \<and> fits (px_Added6F m)"

lemma UtPexExtendedMsg_reads:
  assumes "wf_pex m" "takes_hashes D"
  shows "carries (UtPexExtendedMsg_gval D m) (into_struct fu (UtPexExtendedMsg_fields D)) (\<lambda>s. s = noPex) (\<lambda>_. m)"
proof (rule carries_fields)
  let ?xs = "UtPexExtendedMsg_views D m" and ?fs = "UtPexExtendedMsg_fields D"
  have p: "list_all (\<lambda>p. valid_ip (cp_IP p)) ps"
    if "ps = px_Added m \<or> ps = px_Added6 m \<or> ps = px_Dropped m \<or> ps = px_Dropped6 m" for ps
    using assms(1) that by (auto simp: wf_pex_def)
  have n: "\<not> isNilValue (peers_gval D ps)" for ps by (simp add: peers_gval_def)
  show "list_all2 field_reads ?fs ?xs"
    unfolding UtPexExtendedMsg_fields_def UtPexExtendedMsg_views_def
    by (intro list.rel_intros; (rule string_reads | rule field_readsI [where ready = "\<lambda>c. c = []", OF _ _ _ peers_read [OF _ assms(2)]])?;
        (rule extract_tag)?; (use assms p n in \<open>simp add: peer_tag_names peer_tags [simplified] wf_pex_def fits_def\<close>)?)
  show "distinct (map extractFieldName ?fs)" using peer_names_distinct(4) by (simp only: field_names)
  show "\<forall>x\<in>set ?xs. \<forall>y\<in>set ?xs. v_tag x \<noteq> v_tag y \<longrightarrow> (\<forall>s. v_ready y s \<longrightarrow> v_ready y (v_upd x s))"
    "\<forall>x\<in>set ?xs. \<forall>y\<in>set ?xs. \<forall>s. v_upd x (v_upd y s) = v_upd y (v_upd x s)"
    "\<forall>x\<in>set ?xs. \<not> v_present x \<longrightarrow> v_upd x noPex = noPex" "list_all (\<lambda>x. v_ready x noPex) ?xs"
    by (simp_all add: UtPexExtendedMsg_views_def v_present_def noPex_def)
qed (simp_all add: UtPexExtendedMsg_views_def UtPexExtendedMsg_gval_def UtPexExtendedMsg_fields_def noPex_def)

definition UtMetadataExtendedMsg_views :: "ut_metadata \<Rightarrow> ut_metadata field_view list" where
  "UtMetadataExtendedMsg_views um =
     [((''MsgType'', ''msg_type'', False, GUint (unat (um_MsgType um))), \<lambda>_. True, \<lambda>s. s\<lparr>um_MsgType := um_MsgType um\<rparr>),
      ((''Piece'', ''piece'', False, GInt (um_Piece um)), \<lambda>_. True, \<lambda>s. s\<lparr>um_Piece := um_Piece um\<rparr>),
      ((''TotalSize'', ''total_size'', True, GInt (um_TotalSize um)), \<lambda>_. True, \<lambda>s. s\<lparr>um_TotalSize := um_TotalSize um\<rparr>)]"

lemma readStruct_append: "readStruct (fs @ gs) = readStruct fs @ readStruct gs"
  by (induction fs) auto

lemma readStruct_dash: "readStruct [mk_field (n, ''-'', False, g)] = []"
  by (simp add: mk_field_def processFieldTag_def ascii_def)

lemma encode_struct_cong: "readStruct fs = readStruct gs \<Longrightarrow> encodeValue (GStruct z fs) = encodeValue (GStruct z gs)"
  by (simp add: encodeValue.simps [of "GStruct z fs"] encodeValue.simps [of "GStruct z gs"])

lemma carries_cong: "encodeValue g = encodeValue g' \<Longrightarrow> carries g d ready upd = carries g' d ready upd"
  by (simp add: carries_def)

lemma UtMetadataExtendedMsg_good:
  assumes "is_int64 (um_Piece um)" "is_int64 (um_TotalSize um)"
  shows "list_all (v_good (setStructValues [] UtMetadataExtendedMsg_fields)) (UtMetadataExtendedMsg_views um)"
proof -
  let ?fs = UtMetadataExtendedMsg_fields
  have t: "list_all (\<lambda>k. isValidTag (ascii k)) [''msg_type'', ''piece'', ''total_size'', ''-'']" by code_simp
  have "list_all isValidTag (map extractFieldName ?fs)" using t by (simp only: field_names) (simp add: list_all_iff)
  then have "list_all (\<lambda>f. \<not> tf_anonymous f \<and> tf_exported f \<and> isValidTag (extractFieldName f)) ?fs"
    by (simp add: UtMetadataExtendedMsg_fields_def)
  then have k: "map_of (setStructValues [] ?fs) = map_of (map (\<lambda>f. (extractFieldName f, tf_decode f)) ?fs)"
    by (rule struct_keys) (use peer_names_distinct(2) in \<open>simp only: field_names\<close>)
  have n: "extractFieldName (?fs ! i) = map ascii [''msg_type'', ''piece'', ''total_size'', ''-''] ! i" if "i < 4" for i
    using field_names(2) that nth_map [of i ?fs extractFieldName] by (simp add: UtMetadataExtendedMsg_fields_def)
  have l: "map_of (setStructValues [] ?fs) (map ascii [''msg_type'', ''piece'', ''total_size'', ''-''] ! i) = Some (tf_decode (?fs ! i))"
    if "i < 4" for i
  proof -
    have "length ?fs = 4" by (simp add: UtMetadataExtendedMsg_fields_def)
    then have "?fs ! i \<in> set ?fs" using that by (metis nth_mem)
    then have "(extractFieldName (?fs ! i), tf_decode (?fs ! i)) \<in> set (map (\<lambda>f. (extractFieldName f, tf_decode f)) ?fs)" by auto
    then show ?thesis unfolding k n [OF that, symmetric]
      using peer_names_distinct(2) by (intro map_of_is_SomeI) (simp_all only: field_names map_map comp_def fst_conv)
  qed
  show ?thesis
    using l [of 0] l [of 1] l [of 2] assms peer_tags
      carries_at [OF u8_reads [of "um_MsgType um"], of "um_MsgType :: ut_metadata \<Rightarrow> _" "\<lambda>v m. m\<lparr>um_MsgType := v\<rparr>"]
      carries_at [OF carries_int [of "um_Piece um"], of "um_Piece :: ut_metadata \<Rightarrow> _" "\<lambda>v m. m\<lparr>um_Piece := v\<rparr>"]
      carries_at [OF carries_int [of "um_TotalSize um"], of "um_TotalSize :: ut_metadata \<Rightarrow> _" "\<lambda>v m. m\<lparr>um_TotalSize := v\<rparr>"]
    by (simp add: UtMetadataExtendedMsg_views_def v_good_def UtMetadataExtendedMsg_fields_def is_int64_def)
qed

lemma UtMetadataExtendedMsg_reads:
  assumes "is_int64 (um_Piece um)" "is_int64 (um_TotalSize um)"
  shows "carries (UtMetadataExtendedMsg_gval um) (into_struct fu UtMetadataExtendedMsg_fields) (\<lambda>s. s = noMetadata)
    (\<lambda>_. um\<lparr>um_Data := []\<rparr>)"
proof -
  let ?xs = "UtMetadataExtendedMsg_views um" and ?fs = UtMetadataExtendedMsg_fields and ?z = "um = noMetadata"
  have d: "distinct (map v_tag ?xs)" using peer_names_distinct(2) by (simp add: UtMetadataExtendedMsg_views_def)
  have c: "carries (GStruct ?z (map mk_field (map fst ?xs))) (into_struct fu ?fs) (\<lambda>s. s = noMetadata) (\<lambda>_. fold v_upd ?xs noMetadata)"
    by (rule carries_struct [OF UtMetadataExtendedMsg_good [OF assms] d])
       (simp_all add: UtMetadataExtendedMsg_views_def v_present_def noMetadata_def)
  let ?dash = "mk_field (''Data'', ''-'', False, GBytes (um_Data um))"
  have g: "UtMetadataExtendedMsg_gval um = GStruct ?z (map mk_field (map fst ?xs) @ [?dash])"
    by (simp add: UtMetadataExtendedMsg_views_def UtMetadataExtendedMsg_gval_def)
  have r: "readStruct (map mk_field (map fst ?xs) @ [?dash]) = readStruct (map mk_field (map fst ?xs))"
    unfolding readStruct_append readStruct_dash by simp
  have e: "encodeValue (UtMetadataExtendedMsg_gval um) = encodeValue (GStruct ?z (map mk_field (map fst ?xs)))"
    unfolding g by (rule encode_struct_cong [OF r])
  have f: "fold v_upd ?xs noMetadata = um\<lparr>um_Data := []\<rparr>"
    by (simp add: UtMetadataExtendedMsg_views_def noMetadata_def)
  show ?thesis using c unfolding carries_cong [OF e] f .
qed

section \<open>Properties\<close>

text \<open>C31: A piece of metadata survives the extension message: the receiver reads the header and takes
  the rest of the payload, whatever bytes it has, as the data. A message of another type is sent
  without its data and its size.\<close>

theorem ut_metadata_roundtrip:
  assumes "is_int64 (um_Piece um)" "is_int64 (um_TotalSize um)"
  shows "\<exists>b. UtMetadataExtendedMsg_EncodeToPayload um = Inr b \<and>
    UtMetadataExtendedMsg_DecodeFromPayload noMetadata b =
      Inr (if um_MsgType um = UtMetadataExtendedMsgTypeData then um else um\<lparr>um_TotalSize := 0, um_Data := []\<rparr>)"
proof -
  define um1 where "um1 = (if um_MsgType um \<noteq> UtMetadataExtendedMsgTypeData then um\<lparr>um_TotalSize := 0, um_Data := []\<rparr> else um)"
  have "is_int64 (um_Piece um1)" "is_int64 (um_TotalSize um1)" using assms by (auto simp: um1_def is_int64_def)
  from UtMetadataExtendedMsg_reads [OF this, of False] obtain b where
    b: "encodeValue (UtMetadataExtendedMsg_gval um1) = Inr b"
      "\<And>s. into_struct False UtMetadataExtendedMsg_fields noMetadata (b @ s) = Inr (um1\<lparr>um_Data := []\<rparr>, s)"
    by (auto simp: carries_def)
  have "UtMetadataExtendedMsg_EncodeToPayload um = Inr (b @ um_Data um1)"
    unfolding UtMetadataExtendedMsg_EncodeToPayload_def Let_def um1_def [symmetric] by (simp add: b(1))
  moreover have "UtMetadataExtendedMsg_DecodeFromPayload noMetadata (b @ um_Data um1) = Inr um1"
    by (simp add: UtMetadataExtendedMsg_DecodeFromPayload_def b(2))
  ultimately show ?thesis by (auto simp: um1_def)
qed

theorem ut_metadata_roundtrip_witness:
  "\<exists>b. UtMetadataExtendedMsg_EncodeToPayload \<lparr>um_MsgType = 1, um_Piece = 2, um_TotalSize = 9, um_Data = [100, 101]\<rparr> = Inr b \<and>
    UtMetadataExtendedMsg_DecodeFromPayload noMetadata b =
      Inr \<lparr>um_MsgType = 1, um_Piece = 2, um_TotalSize = 9, um_Data = [100, 101]\<rparr>"
  using ut_metadata_roundtrip [of "\<lparr>um_MsgType = 1, um_Piece = 2, um_TotalSize = 9, um_Data = [100, 101]\<rparr>"]
  by (simp add: is_int64_def)

end
