(* ===== verification/PeerConn.thy ===== *)
theory PeerConn
  imports PeerExtension
begin

text \<open>
  Connections between peers: the handshake (\<^verbatim>\<open>peerprotocol/handshake.go\<close>), the state of a connection
  with its handlers (\<^verbatim>\<open>peerprotocol/peerconn.go\<close>, \<^verbatim>\<open>peerprotocol/noop_handler.go\<close>) and the server that
  runs them (\<^verbatim>\<open>peerprotocol/server.go\<close>).

  A connection is the bytes that are still to come in, up to the end of the file, and the bytes that
  went out. How much of a write goes out, the \<^verbatim>\<open>OnWriteMsg\<close> hook and the handler are parameters: a
  method of the handler is a function from the state of the connection to an error or not and the
  state after it, so a handler that panics or blocks is not described. Deadlines, closing the connection
  and the context data of the user are left out: a peer that keeps a connection open without sending is not an
  input of this model, and without a timeout, which is the default, the code waits for it for ever.
\<close>

section \<open>The connection\<close>

datatype conn_error =
    IoError peer_error
  | WriteFailed
  | ErrShortWrite
  | InvalidProtocolHeader
  | InconsistentInfohash
  | ErrNotFirstMsg
  | ErrNotSupportDHT
  | ErrNotSupportFast
  | ErrNotSupportExtended
  | ErrSecondExtHandshake
  | ErrNoExtHandshake
  | BencodeFailed bencode_error
  | HandlerFailed bytes

record conn_io =
  io_in :: bytes
  io_out :: bytes

text \<open>For what went out so far and what is to be written: how many bytes go, and whether it failed.\<close>

type_synonym writer = "bytes \<Rightarrow> bytes \<Rightarrow> nat \<times> bool"

definition conn_Write :: "writer \<Rightarrow> conn_io \<Rightarrow> bytes \<Rightarrow> (nat \<times> bool) \<times> conn_io" where
  "conn_Write W c b = (case W (io_out c) b of (n, failed) \<Rightarrow> ((n, failed), c\<lparr>io_out := io_out c @ take n b\<rparr>))"

section \<open>The handshake\<close>

type_synonym extension_bits = bytes

text \<open>The value of the caller when a method with a value receiver has changed its copy.\<close>

definition by_value :: "'a \<Rightarrow> 'a \<Rightarrow> 'a" where
  "by_value original changed = original"

definition ExtensionBits_String :: "extension_bits \<Rightarrow> bytes" where
  "ExtensionBits_String eb = hex_encode eb"

text \<open>\<open>None\<close>: a bit of 64 or more is out of the range of the array.\<close>

definition ExtensionBits_Set :: "extension_bits \<Rightarrow> nat \<Rightarrow> extension_bits option" where
  "ExtensionBits_Set eb b =
     (if b div 8 \<le> 7
      then let i = 7 - b div 8 in Some (by_value eb (eb[i := eb ! i OR push_bit (b mod 8) 1]))
      else None)"

definition ExtensionBits_Unset :: "extension_bits \<Rightarrow> nat \<Rightarrow> extension_bits option" where
  "ExtensionBits_Unset eb b =
     (if b div 8 \<le> 7
      then let i = 7 - b div 8 in Some (by_value eb (eb[i := eb ! i AND NOT (push_bit (b mod 8) 1)]))
      else None)"

definition ExtensionBits_IsSet :: "extension_bits \<Rightarrow> nat \<Rightarrow> bool option" where
  "ExtensionBits_IsSet eb b =
     (if b div 8 \<le> 7 then Some (eb ! (7 - b div 8) AND push_bit (b mod 8) 1 \<noteq> 0) else None)"

definition IsSupportDHT :: "extension_bits \<Rightarrow> bool" where
  "IsSupportDHT eb \<longleftrightarrow> ExtensionBits_IsSet eb 0 = Some True"

definition IsSupportFast :: "extension_bits \<Rightarrow> bool" where
  "IsSupportFast eb \<longleftrightarrow> ExtensionBits_IsSet eb 2 = Some True"

definition IsSupportExtended :: "extension_bits \<Rightarrow> bool" where
  "IsSupportExtended eb \<longleftrightarrow> ExtensionBits_IsSet eb 20 = Some True"

record handshake_msg =
  hm_ExtensionBits :: extension_bits
  hm_PeerID :: hash
  hm_InfoHash :: hash

definition noHandshake :: handshake_msg where
  "noHandshake = \<lparr>hm_ExtensionBits = replicate 8 0, hm_PeerID = zeroHash, hm_InfoHash = zeroHash\<rparr>"

definition NewHandshakeMsg :: "hash \<Rightarrow> hash \<Rightarrow> extension_bits list \<Rightarrow> handshake_msg" where
  "NewHandshakeMsg peerID infoHash es =
     \<lparr>hm_ExtensionBits = (case es of [] \<Rightarrow> replicate 8 0 | e # _ \<Rightarrow> e), hm_PeerID = peerID, hm_InfoHash = infoHash\<rparr>"

definition ProtocolHeader :: bytes where
  "ProtocolHeader = 0x13 # ascii ''BitTorrent protocol''"

definition getPeerHandshakeMsg :: "conn_io \<Rightarrow> handshake_msg \<Rightarrow> conn_error option \<times> handshake_msg \<times> conn_io" where
  "getPeerHandshakeMsg sock ret =
     (let b = take 68 (io_in sock); sock1 = sock\<lparr>io_in := drop 68 (io_in sock)\<rparr>
      in if length b < 68 then (Some (IoError (if b = [] then IoEOF else IoUnexpectedEOF)), ret, sock1)
         else if take 20 b \<noteq> ProtocolHeader then (Some InvalidProtocolHeader, ret, sock1)
         else (None, \<lparr>hm_ExtensionBits = take 8 (drop 20 b), hm_PeerID = take 20 (drop 48 b),
                      hm_InfoHash = take 20 (drop 28 b)\<rparr>, sock1))"

definition readInitialPeerHandshake :: "conn_io \<Rightarrow> conn_error option \<times> handshake_msg \<times> conn_io" where
  "readInitialPeerHandshake sock = getPeerHandshakeMsg sock noHandshake"

text \<open>Writes in order, up to the first error.\<close>

fun write_each :: "writer \<Rightarrow> conn_io \<Rightarrow> bytes list \<Rightarrow> conn_error option \<times> conn_io" where
  "write_each W sock [] = (None, sock)"
| "write_each W sock (b # bs) =
     (case conn_Write W sock b of
        ((n, failed), sock1) \<Rightarrow> if failed then (Some WriteFailed, sock1) else write_each W sock1 bs)"

definition writeHandshakeMessage :: "writer \<Rightarrow> conn_io \<Rightarrow> handshake_msg \<Rightarrow> conn_error option \<times> conn_io" where
  "writeHandshakeMessage W sock msg =
     write_each W sock [ProtocolHeader, hm_ExtensionBits msg, hm_InfoHash msg, hm_PeerID msg]"

definition Handshake :: "writer \<Rightarrow> conn_io \<Rightarrow> handshake_msg \<Rightarrow> conn_error option \<times> handshake_msg \<times> conn_io" where
  "Handshake W sock msg =
     (if Hash_IsZero (hm_InfoHash msg)
      then case readInitialPeerHandshake sock of
             (Some e, ret, sock1) \<Rightarrow> (Some e, ret, sock1)
           | (None, ret, sock1) \<Rightarrow>
               (case writeHandshakeMessage W sock1 (msg\<lparr>hm_InfoHash := hm_InfoHash ret\<rparr>) of (err, sock2) \<Rightarrow> (err, ret, sock2))
      else case writeHandshakeMessage W sock msg of
             (Some e, sock1) \<Rightarrow> (Some e, noHandshake, sock1)
           | (None, sock1) \<Rightarrow> getPeerHandshakeMsg sock1 noHandshake)"

section \<open>The state of a connection\<close>

record peer_conn =
  pc_Conn :: conn_io
  pc_InfoHash :: hash
  pc_ID :: hash
  pc_ExtBits :: extension_bits
  pc_PeerID :: hash
  pc_PeerExtBits :: extension_bits
  pc_Choked :: bool
  pc_Interested :: bool
  pc_PeerChoked :: bool
  pc_PeerInterested :: bool
  pc_MaxLength :: u32
  pc_Fasts :: pieces
  pc_Suggests :: pieces
  pc_BitField :: bit_field
  pc_ExtendedHandshakeMsg :: ext_handshake
  pc_notFirstMsg :: bool
  pc_extHandshake :: bool

type_synonym conn_result = "conn_error option \<times> peer_conn"

record conn_env =
  ce_Write :: writer
  ce_OnWriteMsg :: "(peer_conn \<Rightarrow> pmessage \<Rightarrow> conn_result) option"
  ce_dest :: dest_lib

definition NewPeerConn :: "conn_io \<Rightarrow> hash \<Rightarrow> hash \<Rightarrow> peer_conn" where
  "NewPeerConn conn peerid infohash =
     \<lparr>pc_Conn = conn, pc_InfoHash = infohash, pc_ID = peerid, pc_ExtBits = replicate 8 0, pc_PeerID = zeroHash,
      pc_PeerExtBits = replicate 8 0, pc_Choked = True, pc_Interested = False, pc_PeerChoked = True,
      pc_PeerInterested = False, pc_MaxLength = 262144, pc_Fasts = [], pc_Suggests = [], pc_BitField = [],
      pc_ExtendedHandshakeMsg = noExtHandshake, pc_notFirstMsg = False, pc_extHandshake = False\<rparr>"

definition PeerConn_Handshake :: "conn_env \<Rightarrow> peer_conn \<Rightarrow> conn_result" where
  "PeerConn_Handshake E pc =
     (let m = \<lparr>hm_ExtensionBits = pc_ExtBits pc, hm_PeerID = pc_ID pc, hm_InfoHash = pc_InfoHash pc\<rparr>
      in case Handshake (ce_Write E) (pc_Conn pc) m of
           (Some e, rhm, io) \<Rightarrow> (Some e, pc\<lparr>pc_Conn := io\<rparr>)
         | (None, rhm, io) \<Rightarrow>
             let pc1 = pc\<lparr>pc_Conn := io, pc_PeerID := hm_PeerID rhm, pc_PeerExtBits := hm_ExtensionBits rhm\<rparr>
             in if Hash_IsZero (pc_InfoHash pc1) then (None, pc1\<lparr>pc_InfoHash := hm_InfoHash rhm\<rparr>)
                else if pc_InfoHash pc1 \<noteq> hm_InfoHash rhm then (Some InconsistentInfohash, pc1)
                else (None, pc1))"

subsection \<open>Messages out\<close>

definition ReadMsg :: "peer_conn \<Rightarrow> peer_error option \<times> pmessage \<times> peer_conn" where
  "ReadMsg pc =
     (case Message_DecodeFrom noMessage (io_in (pc_Conn pc)) (pc_MaxLength pc) of
        (err, m, rest) \<Rightarrow> (err, m, pc\<lparr>pc_Conn := (pc_Conn pc)\<lparr>io_in := rest\<rparr>\<rparr>))"

definition WriteMsg :: "conn_env \<Rightarrow> peer_conn \<Rightarrow> pmessage \<Rightarrow> conn_result" where
  "WriteMsg E pc m =
     (case ce_OnWriteMsg E of
        Some f \<Rightarrow> f pc m
      | None \<Rightarrow>
          let buf = Message_EncodeTo m
          in case conn_Write (ce_Write E) (pc_Conn pc) buf of
               ((n, failed), io) \<Rightarrow>
                 (if failed then Some WriteFailed else if n < length buf then Some ErrShortWrite else None,
                  pc\<lparr>pc_Conn := io\<rparr>))"

definition SendKeepalive :: "conn_env \<Rightarrow> peer_conn \<Rightarrow> conn_result" where
  "SendKeepalive E pc = WriteMsg E pc (noMessage\<lparr>pm_Keepalive := True\<rparr>)"

definition SendChoke :: "conn_env \<Rightarrow> peer_conn \<Rightarrow> conn_result" where
  "SendChoke E pc = WriteMsg E pc (noMessage\<lparr>pm_Type := MTypeChoke\<rparr>)"

definition SendUnchoke :: "conn_env \<Rightarrow> peer_conn \<Rightarrow> conn_result" where
  "SendUnchoke E pc = WriteMsg E pc (noMessage\<lparr>pm_Type := MTypeUnchoke\<rparr>)"

definition SendInterested :: "conn_env \<Rightarrow> peer_conn \<Rightarrow> conn_result" where
  "SendInterested E pc = WriteMsg E pc (noMessage\<lparr>pm_Type := MTypeInterested\<rparr>)"

definition SendNotInterested :: "conn_env \<Rightarrow> peer_conn \<Rightarrow> conn_result" where
  "SendNotInterested E pc = WriteMsg E pc (noMessage\<lparr>pm_Type := MTypeNotInterested\<rparr>)"

definition SendBitfield :: "conn_env \<Rightarrow> peer_conn \<Rightarrow> bit_field \<Rightarrow> conn_result" where
  "SendBitfield E pc bits = WriteMsg E pc (noMessage\<lparr>pm_Type := MTypeBitField, pm_BitField := bits\<rparr>)"

definition SendHave :: "conn_env \<Rightarrow> peer_conn \<Rightarrow> u32 \<Rightarrow> conn_result" where
  "SendHave E pc index = WriteMsg E pc (noMessage\<lparr>pm_Type := MTypeHave, pm_Index := index\<rparr>)"

definition SendRequest :: "conn_env \<Rightarrow> peer_conn \<Rightarrow> u32 \<Rightarrow> u32 \<Rightarrow> u32 \<Rightarrow> conn_result" where
  "SendRequest E pc index begin' len =
     WriteMsg E pc (noMessage\<lparr>pm_Type := MTypeRequest, pm_Index := index, pm_Begin := begin', pm_Length := len\<rparr>)"

definition SendCancel :: "conn_env \<Rightarrow> peer_conn \<Rightarrow> u32 \<Rightarrow> u32 \<Rightarrow> u32 \<Rightarrow> conn_result" where
  "SendCancel E pc index begin' len =
     WriteMsg E pc (noMessage\<lparr>pm_Type := MTypeCancel, pm_Index := index, pm_Begin := begin', pm_Length := len\<rparr>)"

definition SendPiece :: "conn_env \<Rightarrow> peer_conn \<Rightarrow> u32 \<Rightarrow> u32 \<Rightarrow> bytes \<Rightarrow> conn_result" where
  "SendPiece E pc index begin' piece =
     WriteMsg E pc (noMessage\<lparr>pm_Type := MTypePiece, pm_Index := index, pm_Begin := begin', pm_Piece := piece\<rparr>)"

definition SendPort :: "conn_env \<Rightarrow> peer_conn \<Rightarrow> u16 \<Rightarrow> conn_result" where
  "SendPort E pc port = WriteMsg E pc (noMessage\<lparr>pm_Type := MTypePort, pm_Port := port\<rparr>)"

definition SendHaveAll :: "conn_env \<Rightarrow> peer_conn \<Rightarrow> conn_result" where
  "SendHaveAll E pc = WriteMsg E pc (noMessage\<lparr>pm_Type := MTypeHaveAll\<rparr>)"

definition SendHaveNone :: "conn_env \<Rightarrow> peer_conn \<Rightarrow> conn_result" where
  "SendHaveNone E pc = WriteMsg E pc (noMessage\<lparr>pm_Type := MTypeHaveNone\<rparr>)"

definition SendSuggest :: "conn_env \<Rightarrow> peer_conn \<Rightarrow> u32 \<Rightarrow> conn_result" where
  "SendSuggest E pc index = WriteMsg E pc (noMessage\<lparr>pm_Type := MTypeSuggest, pm_Index := index\<rparr>)"

definition SendReject :: "conn_env \<Rightarrow> peer_conn \<Rightarrow> u32 \<Rightarrow> u32 \<Rightarrow> u32 \<Rightarrow> conn_result" where
  "SendReject E pc index begin' len =
     WriteMsg E pc (noMessage\<lparr>pm_Type := MTypeReject, pm_Index := index, pm_Begin := begin', pm_Length := len\<rparr>)"

definition SendAllowedFast :: "conn_env \<Rightarrow> peer_conn \<Rightarrow> u32 \<Rightarrow> conn_result" where
  "SendAllowedFast E pc index = WriteMsg E pc (noMessage\<lparr>pm_Type := MTypeAllowedFast, pm_Index := index\<rparr>)"

definition SendExtMsg :: "conn_env \<Rightarrow> peer_conn \<Rightarrow> byte \<Rightarrow> bytes \<Rightarrow> conn_result" where
  "SendExtMsg E pc extID payload =
     WriteMsg E pc (noMessage\<lparr>pm_Type := MTypeExtended, pm_ExtendedID := extID, pm_ExtendedPayload := payload\<rparr>)"

definition SendExtHandshakeMsg :: "conn_env \<Rightarrow> peer_conn \<Rightarrow> ext_handshake \<Rightarrow> conn_result" where
  "SendExtHandshakeMsg E pc m =
     (case encodeValue (ExtendedHandshakeMsg_gval (ce_dest E) m) of
        Inl e \<Rightarrow> (Some (BencodeFailed e), pc)
      | Inr b \<Rightarrow> SendExtMsg E pc 0 b)"

text \<open>A state of the local side is only changed when the message for it was sent.\<close>

definition when_sent :: "conn_result \<Rightarrow> (peer_conn \<Rightarrow> peer_conn) \<Rightarrow> conn_result" where
  "when_sent r f = (case r of (None, pc) \<Rightarrow> (None, f pc) | (Some e, pc) \<Rightarrow> (Some e, pc))"

definition SetChoked :: "conn_env \<Rightarrow> peer_conn \<Rightarrow> conn_result" where
  "SetChoked E pc = (if \<not> pc_Choked pc then when_sent (SendChoke E pc) (\<lambda>pc. pc\<lparr>pc_Choked := True\<rparr>) else (None, pc))"

definition SetUnchoked :: "conn_env \<Rightarrow> peer_conn \<Rightarrow> conn_result" where
  "SetUnchoked E pc = (if pc_Choked pc then when_sent (SendUnchoke E pc) (\<lambda>pc. pc\<lparr>pc_Choked := False\<rparr>) else (None, pc))"

definition SetInterested :: "conn_env \<Rightarrow> peer_conn \<Rightarrow> conn_result" where
  "SetInterested E pc =
     (if \<not> pc_Interested pc then when_sent (SendInterested E pc) (\<lambda>pc. pc\<lparr>pc_Interested := True\<rparr>) else (None, pc))"

definition SetNotInterested :: "conn_env \<Rightarrow> peer_conn \<Rightarrow> conn_result" where
  "SetNotInterested E pc =
     (if pc_Interested pc then when_sent (SendNotInterested E pc) (\<lambda>pc. pc\<lparr>pc_Interested := False\<rparr>) else (None, pc))"

section \<open>Messages in\<close>

text \<open>
  The calls of a handler. Which of the optional interfaces it implements is known; their methods, and
  those of \<^verbatim>\<open>Handler\<close>, are one function.
\<close>

datatype handler_call =
    OnHandShake
  | OnMessage pmessage
  | OnClose
  | HChoke
  | HUnchoke
  | HInterested
  | HNotInterested
  | HHave u32
  | HBitField bit_field
  | HRequest u32 u32 u32
  | HPiece u32 u32 bytes
  | HCancel u32 u32 u32
  | HPort u16
  | HHaveAll
  | HHaveNone
  | HSuggest u32
  | HAllowedFast u32
  | HReject u32 u32 u32
  | OnExtHandShake
  | OnPayload byte bytes

record handler =
  h_Bep3 :: bool
  h_Bep5 :: bool
  h_Bep6 :: bool
  h_Bep10 :: bool
  h_call :: "handler_call \<Rightarrow> peer_conn \<Rightarrow> conn_result"

text \<open>The handlers of \<^verbatim>\<open>noop_handler.go\<close>, all embedded in one.\<close>

definition NoopHandler :: handler where
  "NoopHandler = \<lparr>h_Bep3 = True, h_Bep5 = True, h_Bep6 = True, h_Bep10 = True, h_call = \<lambda>_ pc. (None, pc)\<rparr>"

definition isBep3MessageType :: "message_type \<Rightarrow> bool" where
  "isBep3MessageType t \<longleftrightarrow> t \<in> {MTypeChoke, MTypeUnchoke, MTypeInterested, MTypeNotInterested, MTypeHave, MTypeBitField,
     MTypeRequest, MTypePiece, MTypeCancel}"

definition isBep6MessageType :: "message_type \<Rightarrow> bool" where
  "isBep6MessageType t \<longleftrightarrow> t \<in> {MTypeSuggest, MTypeHaveAll, MTypeHaveNone, MTypeReject, MTypeAllowedFast}"

definition invokeBep3Handler :: "handler \<Rightarrow> peer_conn \<Rightarrow> handler_call \<Rightarrow> pmessage \<Rightarrow> conn_result" where
  "invokeBep3Handler h pc call msg = (if h_Bep3 h then h_call h call pc else h_call h (OnMessage msg) pc)"

definition invokeBep6Handler :: "handler \<Rightarrow> peer_conn \<Rightarrow> handler_call \<Rightarrow> pmessage \<Rightarrow> conn_result" where
  "invokeBep6Handler h pc call msg = (if h_Bep6 h then h_call h call pc else h_call h (OnMessage msg) pc)"

definition handleBitFieldMessage :: "handler \<Rightarrow> peer_conn \<Rightarrow> pmessage \<Rightarrow> conn_result" where
  "handleBitFieldMessage h pc msg =
     (if pc_notFirstMsg pc then (Some ErrNotFirstMsg, pc)
      else invokeBep3Handler h (pc\<lparr>pc_BitField := pm_BitField msg\<rparr>) (HBitField (pm_BitField msg)) msg)"

definition handleBep3Message :: "handler \<Rightarrow> peer_conn \<Rightarrow> pmessage \<Rightarrow> conn_result" where
  "handleBep3Message h pc msg =
     (let t = pm_Type msg
      in if t = MTypeChoke then invokeBep3Handler h (pc\<lparr>pc_PeerChoked := True\<rparr>) HChoke msg
         else if t = MTypeUnchoke then invokeBep3Handler h (pc\<lparr>pc_PeerChoked := False\<rparr>) HUnchoke msg
         else if t = MTypeInterested then invokeBep3Handler h (pc\<lparr>pc_PeerInterested := True\<rparr>) HInterested msg
         else if t = MTypeNotInterested then invokeBep3Handler h (pc\<lparr>pc_PeerInterested := False\<rparr>) HNotInterested msg
         else if t = MTypeHave then invokeBep3Handler h pc (HHave (pm_Index msg)) msg
         else if t = MTypeBitField then handleBitFieldMessage h pc msg
         else if t = MTypeRequest
           then invokeBep3Handler h pc (HRequest (pm_Index msg) (pm_Begin msg) (pm_Length msg)) msg
         else if t = MTypePiece then invokeBep3Handler h pc (HPiece (pm_Index msg) (pm_Begin msg) (pm_Piece msg)) msg
         else if t = MTypeCancel
           then invokeBep3Handler h pc (HCancel (pm_Index msg) (pm_Begin msg) (pm_Length msg)) msg
         else (None, pc))"

definition handleBep5Message :: "handler \<Rightarrow> peer_conn \<Rightarrow> pmessage \<Rightarrow> conn_result" where
  "handleBep5Message h pc msg =
     (if \<not> IsSupportDHT (pc_ExtBits pc) then (Some ErrNotSupportDHT, pc)
      else if h_Bep5 h then h_call h (HPort (pm_Port msg)) pc
      else h_call h (OnMessage msg) pc)"

definition handleSuggestMessage :: "handler \<Rightarrow> peer_conn \<Rightarrow> pmessage \<Rightarrow> conn_result" where
  "handleSuggestMessage h pc msg =
     (if \<not> IsSupportFast (pc_ExtBits pc) then (Some ErrNotSupportFast, pc)
      else invokeBep6Handler h (pc\<lparr>pc_Suggests := Pieces_Append (pc_Suggests pc) (pm_Index msg)\<rparr>) (HSuggest (pm_Index msg)) msg)"

definition handleHaveAllMessage :: "handler \<Rightarrow> peer_conn \<Rightarrow> pmessage \<Rightarrow> conn_result" where
  "handleHaveAllMessage h pc msg =
     (if pc_notFirstMsg pc then (Some ErrNotFirstMsg, pc)
      else if \<not> IsSupportFast (pc_ExtBits pc) then (Some ErrNotSupportFast, pc)
      else invokeBep6Handler h pc HHaveAll msg)"

definition handleHaveNoneMessage :: "handler \<Rightarrow> peer_conn \<Rightarrow> pmessage \<Rightarrow> conn_result" where
  "handleHaveNoneMessage h pc msg =
     (if pc_notFirstMsg pc then (Some ErrNotFirstMsg, pc)
      else if \<not> IsSupportFast (pc_ExtBits pc) then (Some ErrNotSupportFast, pc)
      else invokeBep6Handler h pc HHaveNone msg)"

definition handleRejectMessage :: "handler \<Rightarrow> peer_conn \<Rightarrow> pmessage \<Rightarrow> conn_result" where
  "handleRejectMessage h pc msg =
     (if \<not> IsSupportFast (pc_ExtBits pc) then (Some ErrNotSupportFast, pc)
      else invokeBep6Handler h pc (HReject (pm_Index msg) (pm_Begin msg) (pm_Length msg)) msg)"

definition handleAllowedFastMessage :: "handler \<Rightarrow> peer_conn \<Rightarrow> pmessage \<Rightarrow> conn_result" where
  "handleAllowedFastMessage h pc msg =
     (if \<not> IsSupportFast (pc_ExtBits pc) then (Some ErrNotSupportFast, pc)
      else invokeBep6Handler h (pc\<lparr>pc_Fasts := Pieces_Append (pc_Fasts pc) (pm_Index msg)\<rparr>) (HAllowedFast (pm_Index msg)) msg)"

definition handleBep6Message :: "handler \<Rightarrow> peer_conn \<Rightarrow> pmessage \<Rightarrow> conn_result" where
  "handleBep6Message h pc msg =
     (let t = pm_Type msg
      in if t = MTypeSuggest then handleSuggestMessage h pc msg
         else if t = MTypeHaveAll then handleHaveAllMessage h pc msg
         else if t = MTypeHaveNone then handleHaveNoneMessage h pc msg
         else if t = MTypeReject then handleRejectMessage h pc msg
         else if t = MTypeAllowedFast then handleAllowedFastMessage h pc msg
         else (None, pc))"

text \<open>
  The handshake message is decoded into the one of the connection. After an error of the decoder the
  old one stands here, while the code has filled it in part; the server gives the connection up then.
\<close>

definition handleExtMsg :: "conn_env \<Rightarrow> handler \<Rightarrow> peer_conn \<Rightarrow> pmessage \<Rightarrow> conn_result" where
  "handleExtMsg E h pc m =
     (if pm_ExtendedID m = 0
      then if pc_extHandshake pc then (Some ErrSecondExtHandshake, pc)
           else let pc1 = pc\<lparr>pc_extHandshake := True\<rparr>
                in case ExtendedHandshakeMsg_Decode (ce_dest E) (pc_ExtendedHandshakeMsg pc1) (pm_ExtendedPayload m) of
                     Inl e \<Rightarrow> (Some (BencodeFailed e), pc1)
                   | Inr eh \<Rightarrow> h_call h OnExtHandShake (pc1\<lparr>pc_ExtendedHandshakeMsg := eh\<rparr>)
      else if pc_extHandshake pc then h_call h (OnPayload (pm_ExtendedID m) (pm_ExtendedPayload m)) pc
      else (Some ErrNoExtHandshake, pc))"

definition handleBep10Message :: "conn_env \<Rightarrow> handler \<Rightarrow> peer_conn \<Rightarrow> pmessage \<Rightarrow> conn_result" where
  "handleBep10Message E h pc msg =
     (if \<not> IsSupportExtended (pc_ExtBits pc) then (Some ErrNotSupportExtended, pc)
      else if h_Bep10 h then handleExtMsg E h pc msg
      else h_call h (OnMessage msg) pc)"

definition HandleMessage :: "conn_env \<Rightarrow> handler \<Rightarrow> peer_conn \<Rightarrow> pmessage \<Rightarrow> conn_result" where
  "HandleMessage E h pc msg =
     (if pm_Keepalive msg then (None, pc)
      else let t = pm_Type msg;
               (err, pc1) =
                 (if isBep3MessageType t then handleBep3Message h pc msg
                  else if t = MTypePort then handleBep5Message h pc msg
                  else if isBep6MessageType t then handleBep6Message h pc msg
                  else if t = MTypeExtended then handleBep10Message E h pc msg
                  else h_call h (OnMessage msg) pc)
           in (err, if \<not> pc_notFirstMsg pc1 then pc1\<lparr>pc_notFirstMsg := True\<rparr> else pc1))"

section \<open>The server\<close>

text \<open>
  The configuration with its defaults: \<^verbatim>\<open>HandleMessage\<close> forwards to the connection. The error log is
  left out.
\<close>

record peer_config =
  pcf_ExtBits :: extension_bits
  pcf_MaxLength :: u32

definition peer_Config_set :: "peer_config \<Rightarrow> peer_config list \<Rightarrow> peer_config" where
  "peer_Config_set c conf =
     (let c1 = (case conf of [] \<Rightarrow> c | c' # _ \<Rightarrow> c')
      in if pcf_MaxLength c1 = 0 then c1\<lparr>pcf_MaxLength := 262144\<rparr> else c1)"

record peer_server =
  ps_ID :: hash
  ps_Handler :: handler
  ps_Config :: peer_config

definition peer_NewServer :: "hash \<Rightarrow> handler \<Rightarrow> peer_config list \<Rightarrow> peer_server option" where
  "peer_NewServer peerid h c =
     (if Hash_IsZero peerid then None
      else Some \<lparr>ps_ID = peerid, ps_Handler = h,
                  ps_Config = peer_Config_set \<lparr>pcf_ExtBits = replicate 8 0, pcf_MaxLength = 0\<rparr> c\<rparr>)"

text \<open>
  The loop over the messages of a connection: \<open>None\<close> when it never ends. The end of the file is no
  error; none of the other errors of the decoder mentions a closed connection in its text.
\<close>

partial_function (option) loopRun :: "conn_env \<Rightarrow> handler \<Rightarrow> peer_conn \<Rightarrow> conn_result option" where
  [code]: "loopRun E h pc =
     (case ReadMsg pc of
        (Some e, _, pc1) \<Rightarrow> Some (if e = IoEOF then None else Some (IoError e), pc1)
      | (None, msg, pc1) \<Rightarrow>
          (case HandleMessage E h pc1 msg of
             (Some e, pc2) \<Rightarrow> Some (Some e, pc2)
           | (None, pc2) \<Rightarrow> loopRun E h pc2))"

definition handlePeerMessage :: "conn_env \<Rightarrow> handler \<Rightarrow> peer_conn \<Rightarrow> conn_result option" where
  "handlePeerMessage E h pc =
     (case PeerConn_Handshake E pc of
        (Some e, pc1) \<Rightarrow> Some (Some e, pc1)
      | (None, pc1) \<Rightarrow>
          (case h_call h OnHandShake pc1 of
             (Some e, pc2) \<Rightarrow> Some (Some e, pc2)
           | (None, pc2) \<Rightarrow>
               map_option (\<lambda>(err, pc3). (err, snd (h_call h OnClose pc3))) (loopRun E h pc2)))"

datatype conn_end = Panicked | Unending | Ended "conn_error option" peer_conn

text \<open>After an error of \<^verbatim>\<open>Accept\<close> the connection is nil, and handled like any other: writing the handshake to it
  panics, which is the only panic here. \<open>Unending\<close> is a loop that does not return.\<close>

definition handleConn :: "conn_env \<Rightarrow> peer_server \<Rightarrow> conn_io option \<Rightarrow> conn_end" where
  "handleConn E s conn =
     (case conn of
        None \<Rightarrow> Panicked
      | Some c \<Rightarrow>
          let pc = (NewPeerConn c (ps_ID s) zeroHash)\<lparr>pc_ExtBits := pcf_ExtBits (ps_Config s),
                     pc_MaxLength := pcf_MaxLength (ps_Config s)\<rparr>
          in case handlePeerMessage E (ps_Handler s) pc of
               None \<Rightarrow> Unending
             | Some (err, pc1) \<Rightarrow> Ended err pc1)"

definition Run_once :: "conn_env \<Rightarrow> peer_server \<Rightarrow> (unit + conn_io) \<Rightarrow> conn_end" where
  "Run_once E s accepted =
     (let s1 = s\<lparr>ps_Config := peer_Config_set (ps_Config s) []\<rparr>
      in case accepted of Inl _ \<Rightarrow> handleConn E s1 None | Inr conn \<Rightarrow> handleConn E s1 (Some conn))"

section \<open>The handshake is an exchange\<close>

definition writes_fully :: "writer \<Rightarrow> bool" where
  "writes_fully W \<longleftrightarrow> (\<forall>out b. W out b = (length b, False))"

definition with_input :: "bytes \<Rightarrow> peer_conn \<Rightarrow> peer_conn" where
  "with_input r pc = pc\<lparr>pc_Conn := (pc_Conn pc)\<lparr>io_in := r\<rparr>\<rparr>"

definition handshake_bytes :: "handshake_msg \<Rightarrow> bytes" where
  "handshake_bytes m = ProtocolHeader @ hm_ExtensionBits m @ hm_InfoHash m @ hm_PeerID m"

definition wf_handshake :: "handshake_msg \<Rightarrow> bool" where
  "wf_handshake m \<longleftrightarrow> length (hm_ExtensionBits m) = 8 \<and> wf_hash (hm_InfoHash m) \<and> wf_hash (hm_PeerID m)"

lemma length_ProtocolHeader [simp]: "length ProtocolHeader = 20"
  by (simp add: ProtocolHeader_def ascii_def)

lemma write_each_all: "writes_fully W \<Longrightarrow> write_each W c bs = (None, c\<lparr>io_out := io_out c @ concat bs\<rparr>)"
  by (induction bs arbitrary: c) (auto simp: conn_Write_def writes_fully_def)

lemma handshake_written: "writes_fully W \<Longrightarrow> writeHandshakeMessage W c m = (None, c\<lparr>io_out := io_out c @ handshake_bytes m\<rparr>)"
  by (simp add: writeHandshakeMessage_def write_each_all handshake_bytes_def del: write_each.simps)

lemma handshake_read:
  assumes "wf_handshake m" "io_in c = handshake_bytes m @ r"
  shows "getPeerHandshakeMsg c z = (None, m, c\<lparr>io_in := r\<rparr>)"
proof -
  have l: "length (hm_ExtensionBits m) = 8" "length (hm_InfoHash m) = 20" "length (hm_PeerID m) = 20"
    using assms(1) by (simp_all add: wf_handshake_def wf_hash_def HashSize_def)
  then have "length (handshake_bytes m) = 68" by (simp add: handshake_bytes_def)
  then have t: "take 68 (io_in c) = handshake_bytes m" "drop 68 (io_in c) = r" using assms(2) by simp_all
  show ?thesis
    using l unfolding getPeerHandshakeMsg_def t Let_def by (simp add: handshake_bytes_def)
qed

definition own_handshake :: "peer_conn \<Rightarrow> handshake_msg" where
  "own_handshake pc = \<lparr>hm_ExtensionBits = pc_ExtBits pc, hm_PeerID = pc_ID pc, hm_InfoHash = pc_InfoHash pc\<rparr>"

lemma conn_handshake:
  assumes "writes_fully (ce_Write E)" "wf_handshake m" "\<not> Hash_IsZero (pc_InfoHash pc) \<or> \<not> Hash_IsZero (hm_InfoHash m)"
  shows "\<exists>ih. ih = (if Hash_IsZero (pc_InfoHash pc) then hm_InfoHash m else pc_InfoHash pc) \<and>
    PeerConn_Handshake E (with_input (handshake_bytes m @ r) pc) =
      (if ih = hm_InfoHash m then None else Some InconsistentInfohash,
       pc\<lparr>pc_Conn := \<lparr>io_in = r, io_out = io_out (pc_Conn pc) @ handshake_bytes ((own_handshake pc)\<lparr>hm_InfoHash := ih\<rparr>)\<rparr>,
          pc_PeerID := hm_PeerID m, pc_PeerExtBits := hm_ExtensionBits m, pc_InfoHash := ih\<rparr>)"
  using assms(1,3) handshake_read [OF assms(2)]
  by (auto simp: PeerConn_Handshake_def Handshake_def with_input_def readInitialPeerHandshake_def handshake_written
      own_handshake_def Let_def)

section \<open>Messages over a connection\<close>

lemma with_input_simps [simp]:
  "io_in (pc_Conn (with_input r pc)) = r" "io_out (pc_Conn (with_input r pc)) = io_out (pc_Conn pc)"
  "pc_MaxLength (with_input r pc) = pc_MaxLength pc" "with_input r (with_input r' pc) = with_input r pc"
  "with_input (io_in (pc_Conn pc)) pc = pc"
  by (simp_all add: with_input_def)

definition fits_limit :: "u32 \<Rightarrow> pmessage \<Rightarrow> bool" where
  "fits_limit k m \<longleftrightarrow> sendable m \<and> (k = 0 \<or> body_length m \<le> unat k)"

lemma ReadMsg_message:
  assumes "io_in (pc_Conn pc) = Message_EncodeTo m @ r" "fits_limit (pc_MaxLength pc) m"
  shows "ReadMsg pc = (None, carried m, with_input r pc)"
  using frame_decodes [of m "pc_MaxLength pc" r] assms by (simp add: ReadMsg_def fits_limit_def with_input_def)

lemma ReadMsg_end: "io_in (pc_Conn pc) = [] \<Longrightarrow> ReadMsg pc = (Some IoEOF, noMessage, pc)"
  by (simp add: ReadMsg_def Message_DecodeFrom_def readMessageLength_def)

lemma WriteMsg_all:
  assumes "ce_OnWriteMsg E = None" "writes_fully (ce_Write E)"
  shows "WriteMsg E pc m = (None, pc\<lparr>pc_Conn := (pc_Conn pc)\<lparr>io_out := io_out (pc_Conn pc) @ Message_EncodeTo m\<rparr>\<rparr>)"
  using assms by (simp add: WriteMsg_def conn_Write_def writes_fully_def)

lemma ReadMsg_shorter:
  assumes "ReadMsg pc = (None, m, pc1)"
  shows "length (io_in (pc_Conn pc1)) + 4 \<le> length (io_in (pc_Conn pc))"
proof -
  let ?r = "io_in (pc_Conn pc)" and ?k = "pc_MaxLength pc"
  obtain rest where d: "Message_DecodeFrom noMessage ?r ?k = (None, m, rest)" "io_in (pc_Conn pc1) = rest"
    using assms by (auto simp: ReadMsg_def split: prod.splits)
  obtain len r1 where l: "readMessageLength ?r = (Inr len, r1)" "length r1 + 4 \<le> length ?r"
    using d(1) by (auto simp: Message_DecodeFrom_def readMessageLength_def split: if_splits)
  have "length rest \<le> length r1"
  proof (cases "len = 0")
    case True
    then show ?thesis using d(1) l(1) by (simp add: Message_DecodeFrom_def)
  next
    case False
    let ?lr = "\<lparr>lr_R = r1, lr_N = unat len\<rparr>"
    obtain t lr1 where b: "readByte ?lr = (Inr t, lr1)"
      using d(1) l(1) False by (auto simp: Message_DecodeFrom_def Let_def split: option.splits prod.splits sum.splits)
    let ?m = "noMessage\<lparr>pm_Keepalive := False, pm_Type := t\<rparr>"
    obtain e m2 lr2 where s: "decodeByMessageType ?m lr1 len = (e, m2, lr2)" by (cases "decodeByMessageType ?m lr1 len") auto
    then have "rest = lr_R lr2"
      using d(1) l(1) False b by (auto simp: Message_DecodeFrom_def Let_def split: option.splits)
    then show ?thesis
      using taken_trans [OF taken_readByte [OF b] good_stepD(1) [OF good_decode s]] by (auto simp: taken_def)
  qed
  then show ?thesis using d(2) l(2) by simp
qed

text \<open>A handler that leaves the input and the limit of the connection alone, and does not look at the
  input.\<close>

definition quiet :: "handler \<Rightarrow> bool" where
  "quiet h \<longleftrightarrow> (\<forall>c pc r. h_call h c (with_input r pc) = map_prod id (with_input r) (h_call h c pc)) \<and>
     (\<forall>c pc. pc_MaxLength (snd (h_call h c pc)) = pc_MaxLength pc)"

lemma quietD:
  assumes "quiet h"
  shows "h_call h c (with_input r pc) = map_prod id (with_input r) (h_call h c pc)"
    "pc_MaxLength (snd (h_call h c pc)) = pc_MaxLength pc"
  using assms by (auto simp: quiet_def)

lemma with_input_update [simp]:
  "(with_input r pc)\<lparr>pc_PeerChoked := b\<rparr> = with_input r (pc\<lparr>pc_PeerChoked := b\<rparr>)"
  "(with_input r pc)\<lparr>pc_PeerInterested := b\<rparr> = with_input r (pc\<lparr>pc_PeerInterested := b\<rparr>)"
  "(with_input r pc)\<lparr>pc_BitField := bf\<rparr> = with_input r (pc\<lparr>pc_BitField := bf\<rparr>)"
  "(with_input r pc)\<lparr>pc_Suggests := ps\<rparr> = with_input r (pc\<lparr>pc_Suggests := ps\<rparr>)"
  "(with_input r pc)\<lparr>pc_Fasts := ps\<rparr> = with_input r (pc\<lparr>pc_Fasts := ps\<rparr>)"
  "(with_input r pc)\<lparr>pc_extHandshake := b\<rparr> = with_input r (pc\<lparr>pc_extHandshake := b\<rparr>)"
  "(with_input r pc)\<lparr>pc_ExtendedHandshakeMsg := eh\<rparr> = with_input r (pc\<lparr>pc_ExtendedHandshakeMsg := eh\<rparr>)"
  "(with_input r pc)\<lparr>pc_notFirstMsg := b\<rparr> = with_input r (pc\<lparr>pc_notFirstMsg := b\<rparr>)"
  by (simp_all add: with_input_def)

lemma with_input_select [simp]:
  "pc_ExtBits (with_input r pc) = pc_ExtBits pc" "pc_notFirstMsg (with_input r pc) = pc_notFirstMsg pc"
  "pc_extHandshake (with_input r pc) = pc_extHandshake pc" "pc_Suggests (with_input r pc) = pc_Suggests pc"
  "pc_Fasts (with_input r pc) = pc_Fasts pc" "pc_ExtendedHandshakeMsg (with_input r pc) = pc_ExtendedHandshakeMsg pc"
  by (simp_all add: with_input_def)

lemma invoke_input:
  assumes "quiet h"
  shows "invokeBep3Handler h (with_input r pc) c m = map_prod id (with_input r) (invokeBep3Handler h pc c m)"
    "invokeBep6Handler h (with_input r pc) c m = map_prod id (with_input r) (invokeBep6Handler h pc c m)"
  using quietD(1) [OF assms] by (simp_all add: invokeBep3Handler_def invokeBep6Handler_def)

lemma handle_input:
  assumes "quiet h"
  shows "handleBep3Message h (with_input r pc) m = map_prod id (with_input r) (handleBep3Message h pc m)"
    "handleBep5Message h (with_input r pc) m = map_prod id (with_input r) (handleBep5Message h pc m)"
    "handleBep6Message h (with_input r pc) m = map_prod id (with_input r) (handleBep6Message h pc m)"
    "handleBep10Message E h (with_input r pc) m = map_prod id (with_input r) (handleBep10Message E h pc m)"
proof -
  note [simp] = invoke_input [OF assms] quietD(1) [OF assms] if_distrib [of "map_prod id (with_input r)"]
  show "handleBep3Message h (with_input r pc) m = map_prod id (with_input r) (handleBep3Message h pc m)"
    by (simp add: handleBep3Message_def handleBitFieldMessage_def Let_def)
  show "handleBep5Message h (with_input r pc) m = map_prod id (with_input r) (handleBep5Message h pc m)"
    by (simp add: handleBep5Message_def)
  show "handleBep6Message h (with_input r pc) m = map_prod id (with_input r) (handleBep6Message h pc m)"
    by (simp add: handleBep6Message_def handleSuggestMessage_def handleHaveAllMessage_def handleHaveNoneMessage_def
        handleRejectMessage_def handleAllowedFastMessage_def Let_def)
  show "handleBep10Message E h (with_input r pc) m = map_prod id (with_input r) (handleBep10Message E h pc m)"
    by (simp add: handleBep10Message_def handleExtMsg_def Let_def split: sum.split)
qed

definition dispatch :: "conn_env \<Rightarrow> handler \<Rightarrow> peer_conn \<Rightarrow> pmessage \<Rightarrow> conn_result" where
  "dispatch E h pc m =
     (if isBep3MessageType (pm_Type m) then handleBep3Message h pc m
      else if pm_Type m = MTypePort then handleBep5Message h pc m
      else if isBep6MessageType (pm_Type m) then handleBep6Message h pc m
      else if pm_Type m = MTypeExtended then handleBep10Message E h pc m
      else h_call h (OnMessage m) pc)"

lemma HandleMessage_dispatch:
  "HandleMessage E h pc m =
     (if pm_Keepalive m then (None, pc)
      else case dispatch E h pc m of (err, pc1) \<Rightarrow> (err, if \<not> pc_notFirstMsg pc1 then pc1\<lparr>pc_notFirstMsg := True\<rparr> else pc1))"
  unfolding HandleMessage_def dispatch_def Let_def by (rule refl)

lemma HandleMessage_input:
  assumes "quiet h"
  shows "HandleMessage E h (with_input r pc) m = map_prod id (with_input r) (HandleMessage E h pc m)"
proof -
  have "dispatch E h (with_input r pc) m = map_prod id (with_input r) (dispatch E h pc m)"
    unfolding dispatch_def handle_input [OF assms] quietD(1) [OF assms] by (simp only: if_distrib [of "map_prod id (with_input r)"])
  then show ?thesis by (cases "dispatch E h pc m") (simp add: HandleMessage_dispatch)
qed

text \<open>The limit stays as it is.\<close>

lemma HandleMessage_limit:
  assumes "quiet h"
  shows "pc_MaxLength (snd (HandleMessage E h pc m)) = pc_MaxLength pc"
proof -
  note [simp] = quietD(2) [OF assms] if_distrib [of snd] if_distrib [of pc_MaxLength]
  have i: "pc_MaxLength (snd (invokeBep3Handler h pc c m)) = pc_MaxLength pc"
    "pc_MaxLength (snd (invokeBep6Handler h pc c m)) = pc_MaxLength pc" for pc c
    by (simp_all add: invokeBep3Handler_def invokeBep6Handler_def)
  have "pc_MaxLength (snd (handleBep3Message h pc m)) = pc_MaxLength pc"
    by (simp add: handleBep3Message_def handleBitFieldMessage_def Let_def i)
  moreover have "pc_MaxLength (snd (handleBep5Message h pc m)) = pc_MaxLength pc" by (simp add: handleBep5Message_def)
  moreover have "pc_MaxLength (snd (handleBep6Message h pc m)) = pc_MaxLength pc"
    by (simp add: handleBep6Message_def handleSuggestMessage_def handleHaveAllMessage_def handleHaveNoneMessage_def
        handleRejectMessage_def handleAllowedFastMessage_def Let_def i)
  moreover have "pc_MaxLength (snd (handleBep10Message E h pc m)) = pc_MaxLength pc"
    by (simp add: handleBep10Message_def handleExtMsg_def Let_def split: sum.split)
  ultimately have "pc_MaxLength (snd (dispatch E h pc m)) = pc_MaxLength pc" by (simp add: dispatch_def)
  then show ?thesis by (cases "dispatch E h pc m") (simp add: HandleMessage_dispatch)
qed

lemma HandleMessage_keeps_input:
  assumes "quiet h"
  shows "io_in (pc_Conn (snd (HandleMessage E h pc m))) = io_in (pc_Conn pc)"
  using arg_cong [OF HandleMessage_input [OF assms, of E "io_in (pc_Conn pc)" pc m], of "\<lambda>x. io_in (pc_Conn (snd x))"] by simp

section \<open>What one side sends, the other handles\<close>

text \<open>The bytes that went out between two states of a connection.\<close>

definition sent :: "peer_conn \<Rightarrow> peer_conn \<Rightarrow> bytes" where
  "sent pc pc' = drop (length (io_out (pc_Conn pc))) (io_out (pc_Conn pc'))"

text \<open>C12: the handshake is an exchange. Let the connecting side know its infohash, and let each side read exactly
  what the other one writes. Then each learns the peer ID and the extension bits of the other; a side
  that accepted the connection with a zero infohash takes the one of the peer over, and both succeed;
  with the same infohash both succeed as well, and with different ones both fail with the same error.\<close>

theorem handshake_agrees:
  assumes "writes_fully (ce_Write E)" "wf_handshake (own_handshake a)" "wf_handshake (own_handshake b)"
    "\<not> Hash_IsZero (pc_InfoHash a)"
  shows "\<exists>ea a' eb b'. PeerConn_Handshake E (with_input (sent b b') a) = (ea, a') \<and>
    PeerConn_Handshake E (with_input (sent a a') b) = (eb, b') \<and>
    pc_PeerID a' = pc_ID b \<and> pc_PeerID b' = pc_ID a \<and>
    pc_PeerExtBits a' = pc_ExtBits b \<and> pc_PeerExtBits b' = pc_ExtBits a \<and>
    (if Hash_IsZero (pc_InfoHash b) \<or> pc_InfoHash b = pc_InfoHash a
     then ea = None \<and> eb = None \<and> pc_InfoHash a' = pc_InfoHash a \<and> pc_InfoHash b' = pc_InfoHash a
     else ea = Some InconsistentInfohash \<and> eb = Some InconsistentInfohash)"
proof -
  define ih where "ih = (if Hash_IsZero (pc_InfoHash b) then pc_InfoHash a else pc_InfoHash b)"
  define mb where "mb = (own_handshake b)\<lparr>hm_InfoHash := ih\<rparr>"
  have "wf_handshake mb" using assms(2,3) by (simp add: mb_def ih_def wf_handshake_def own_handshake_def)
  then have A: "PeerConn_Handshake E (with_input (handshake_bytes mb) a) =
      (if pc_InfoHash a = ih then None else Some InconsistentInfohash,
       a\<lparr>pc_Conn := \<lparr>io_in = [], io_out = io_out (pc_Conn a) @ handshake_bytes (own_handshake a)\<rparr>,
         pc_PeerID := pc_ID b, pc_PeerExtBits := pc_ExtBits b\<rparr>)" (is "_ = (?ea, ?a)")
    using conn_handshake [OF assms(1), of mb a "[]"] assms(4) by (simp add: mb_def own_handshake_def)
  have B: "PeerConn_Handshake E (with_input (handshake_bytes (own_handshake a)) b) =
      (if ih = pc_InfoHash a then None else Some InconsistentInfohash,
       b\<lparr>pc_Conn := \<lparr>io_in = [], io_out = io_out (pc_Conn b) @ handshake_bytes mb\<rparr>,
         pc_PeerID := pc_ID a, pc_PeerExtBits := pc_ExtBits a, pc_InfoHash := ih\<rparr>)" (is "_ = (?eb, ?b)")
    using conn_handshake [OF assms(1,2), of b "[]"] assms(4) by (simp add: mb_def ih_def own_handshake_def)
  have "sent b ?b = handshake_bytes mb" "sent a ?a = handshake_bytes (own_handshake a)" by (simp_all add: sent_def)
  then show ?thesis
    by (intro exI [of _ ?ea] exI [of _ ?a] exI [of _ ?eb] exI [of _ ?b]) (use A B in \<open>auto simp: ih_def\<close>)
qed

definition example_dest :: dest_lib where
  "example_dest = \<lparr>dl_FromBytes = \<lambda>b. (b, length b \<noteq> 32), dl_String = hex_encode\<rparr>"

definition example_conn_env :: conn_env where
  "example_conn_env = \<lparr>ce_Write = \<lambda>_ b. (length b, False), ce_OnWriteMsg = None, ce_dest = example_dest\<rparr>"

definition example_conn :: "byte \<Rightarrow> hash \<Rightarrow> peer_conn" where
  "example_conn i infohash = NewPeerConn \<lparr>io_in = [], io_out = []\<rparr> (replicate 20 i) infohash"

lemma example_conn_env: "writes_fully (ce_Write example_conn_env)" "ce_OnWriteMsg example_conn_env = None"
  by (simp_all add: example_conn_env_def writes_fully_def)

theorem handshake_agrees_witness:
  "\<exists>a' b'. PeerConn_Handshake example_conn_env (with_input (sent (example_conn 2 zeroHash) b') (example_conn 1 (replicate 20 7))) =
      (None, a') \<and>
    PeerConn_Handshake example_conn_env (with_input (sent (example_conn 1 (replicate 20 7)) a') (example_conn 2 zeroHash)) = (None, b') \<and>
    pc_PeerID a' = replicate 20 2 \<and> pc_PeerID b' = replicate 20 1 \<and> pc_InfoHash b' = replicate 20 7"
proof -
  have z: "Hash_IsZero zeroHash" "\<not> Hash_IsZero (replicate 20 7)" by code_simp+
  have w: "wf_handshake (own_handshake (example_conn 1 (replicate 20 7)))" "wf_handshake (own_handshake (example_conn 2 zeroHash))"
    by code_simp+
  have s: "pc_InfoHash (example_conn i h) = h" "pc_ID (example_conn i h) = replicate 20 i" for i h
    by (simp_all add: example_conn_def NewPeerConn_def)
  show ?thesis using handshake_agrees [OF example_conn_env(1) w] z unfolding s by metis
qed

section \<open>The loop over the messages\<close>

text \<open>The specification of the loop: the messages handled one by one, up to the first error.\<close>

fun handle_all :: "conn_env \<Rightarrow> handler \<Rightarrow> peer_conn \<Rightarrow> pmessage list \<Rightarrow> conn_result" where
  "handle_all E h pc [] = (None, pc)"
| "handle_all E h pc (m # ms) =
     (case HandleMessage E h pc m of (Some e, pc1) \<Rightarrow> (Some e, pc1) | (None, pc1) \<Rightarrow> handle_all E h pc1 ms)"

definition frames :: "pmessage list \<Rightarrow> bytes" where
  "frames ms = concat (map Message_EncodeTo ms)"

lemma frames_simps [simp]: "frames [] = []" "frames (m # ms) = Message_EncodeTo m @ frames ms" "frames (ms @ ms') = frames ms @ frames ms'"
  by (simp_all add: frames_def)

text \<open>C4: the loop of a connection refines the abstract one. On the encodings of any messages within the limit
  of the connection, one after the other, it handles exactly these messages, in their order, up to the
  first error of a handler; without one it ends at the end of the input and reports no error.\<close>

theorem loop_refines:
  assumes "quiet h" "list_all (fits_limit (pc_MaxLength pc)) ms"
  shows "\<exists>rest. loopRun E h (with_input (frames ms) pc) = Some (map_prod id (with_input rest) (handle_all E h pc (map carried ms))) \<and>
    (fst (handle_all E h pc (map carried ms)) = None \<longrightarrow> rest = [])"
  using assms(2)
proof (induction ms arbitrary: pc)
  case Nil
  then show ?case by (subst loopRun.simps) (simp add: ReadMsg_end)
next
  case (Cons m ms)
  obtain err pc1 where h: "HandleMessage E h pc (carried m) = (err, pc1)" by (cases "HandleMessage E h pc (carried m)")
  have r: "ReadMsg (with_input (frames (m # ms)) pc) = (None, carried m, with_input (frames ms) pc)"
    using Cons.prems ReadMsg_message [of "with_input (frames (m # ms)) pc" m "frames ms"] by simp
  have h': "HandleMessage E h (with_input (frames ms) pc) (carried m) = (err, with_input (frames ms) pc1)"
    using HandleMessage_input [OF assms(1), of E "frames ms" pc "carried m"] by (simp add: h)
  show ?case
  proof (cases err)
    case None
    have "list_all (fits_limit (pc_MaxLength pc1)) ms"
      using Cons.prems HandleMessage_limit [OF assms(1), of E pc "carried m"] h by simp
    from Cons.IH [OF this] show ?thesis by (subst loopRun.simps) (simp only: r h h' None list.map handle_all.simps prod.case option.case)
  next
    case (Some e)
    have "loopRun E h (with_input (frames (m # ms)) pc) = Some (Some e, with_input (frames ms) pc1)"
      by (subst loopRun.simps) (simp only: r h' Some prod.case option.case)
    then show ?thesis by (auto simp: h Some)
  qed
qed

lemma quiet_Noop: "quiet NoopHandler"
  by (simp add: quiet_def NoopHandler_def)

definition example_messages :: "pmessage list" where
  "example_messages = [noMessage\<lparr>pm_Type := MTypeUnchoke\<rparr>, noMessage\<lparr>pm_Type := MTypeInterested\<rparr>, noMessage\<lparr>pm_Keepalive := True\<rparr>]"

theorem loop_refines_witness:
  "\<exists>pc. loopRun example_conn_env NoopHandler (with_input (frames example_messages) (example_conn 1 zeroHash)) = Some (None, pc) \<and>
    \<not> pc_PeerChoked pc \<and> pc_PeerInterested pc \<and> io_in (pc_Conn pc) = []"
proof -
  let ?pc = "example_conn 1 zeroHash"
  have f: "list_all (fits_limit (pc_MaxLength ?pc)) example_messages"
    by (simp add: example_messages_def fits_limit_def sendable_def body_length_def marshalBinaryType_def no_payload_def
        example_conn_def NewPeerConn_def noMessage_def)
  have "fst (handle_all example_conn_env NoopHandler ?pc (map carried example_messages)) = None \<and>
    (let pc = snd (handle_all example_conn_env NoopHandler ?pc (map carried example_messages))
     in \<not> pc_PeerChoked pc \<and> pc_PeerInterested pc)"
    by code_simp
  then show ?thesis using loop_refines [OF quiet_Noop f, of example_conn_env]
    by (cases "handle_all example_conn_env NoopHandler ?pc (map carried example_messages)")
      (auto simp: with_input_def)
qed

text \<open>The messages that an input starts with, one after the other, and what is left behind them.\<close>

inductive decodes_to :: "u32 \<Rightarrow> bytes \<Rightarrow> pmessage list \<Rightarrow> bytes \<Rightarrow> bool" for k where
  decodes_nothing: "decodes_to k r [] r"
| decodes_message: "Message_DecodeFrom noMessage r k = (None, m, r1) \<Longrightarrow> decodes_to k r1 ms rest \<Longrightarrow> decodes_to k r (m # ms) rest"

lemma decodes_to_length:
  assumes "decodes_to k r ms rest"
  shows "4 * length ms + length rest \<le> length r"
  using assms
proof induction
  case (decodes_message r m r1 ms rest)
  then show ?case
    using ReadMsg_shorter [of "(NewPeerConn \<lparr>io_in = r, io_out = []\<rparr> zeroHash zeroHash)\<lparr>pc_MaxLength := k\<rparr>" m]
    by (simp add: ReadMsg_def NewPeerConn_def)
qed simp

lemma ReadMsg_decodes:
  "ReadMsg pc = (err, m, pc1) \<Longrightarrow>
    Message_DecodeFrom noMessage (io_in (pc_Conn pc)) (pc_MaxLength pc) = (err, m, io_in (pc_Conn pc1)) \<and>
    pc1 = with_input (io_in (pc_Conn pc1)) pc"
  by (auto simp: ReadMsg_def with_input_def split: prod.splits)

text \<open>How the loop stops after the messages \<open>ms\<close>: at the error of a handler, with the bytes behind the message
  that gave it unread, or at the first bytes that are no message; the end of the input is not an error.\<close>

definition stops_after :: "conn_env \<Rightarrow> handler \<Rightarrow> peer_conn \<Rightarrow> pmessage list \<Rightarrow> bytes \<Rightarrow> conn_result \<Rightarrow> bool" where
  "stops_after E h pc ms rest res \<longleftrightarrow>
     (case handle_all E h pc ms of
        (Some e, pc1) \<Rightarrow> res = (Some e, with_input rest pc1)
      | (None, pc1) \<Rightarrow>
          (\<exists>e m rest1. Message_DecodeFrom noMessage rest (pc_MaxLength pc) = (Some e, m, rest1) \<and>
             res = (if e = IoEOF then None else Some (IoError e), with_input rest1 pc1)))"

lemma handle_all_input:
  assumes "quiet h"
  shows "handle_all E h (with_input r pc) ms = map_prod id (with_input r) (handle_all E h pc ms)"
proof (induction ms arbitrary: pc)
  case (Cons m ms)
  obtain err pc1 where "HandleMessage E h pc m = (err, pc1)" by (cases "HandleMessage E h pc m")
  then show ?case using Cons.IH HandleMessage_input [OF assms, of E r pc m] by (cases err) simp_all
qed simp

lemma stops_after_input:
  assumes "quiet h"
  shows "stops_after E h (with_input r pc) ms rest res = stops_after E h pc ms rest res"
proof -
  have "with_input x (with_input r pc1) = with_input x pc1" "pc_MaxLength (with_input r pc) = pc_MaxLength pc" for x pc1
    by (simp_all add: with_input_def)
  then show ?thesis unfolding stops_after_def handle_all_input [OF assms]
    by (cases "handle_all E h pc ms") (simp only: map_prod_simp id_apply prod.case)
qed

lemma stops_after_Cons:
  assumes "HandleMessage E h pc m = (None, pc1)" "pc_MaxLength pc1 = pc_MaxLength pc"
  shows "stops_after E h pc (m # ms) rest res = stops_after E h pc1 ms rest res"
  unfolding stops_after_def handle_all.simps assms prod.case option.case by (rule refl)

lemma loop_stops:
  assumes "quiet h"
  shows "\<exists>ms rest res. decodes_to (pc_MaxLength pc) (io_in (pc_Conn pc)) ms rest \<and> loopRun E h pc = Some res \<and>
    stops_after E h pc ms rest res"
proof (induction "length (io_in (pc_Conn pc))" arbitrary: pc rule: less_induct)
  case less
  obtain err m pc1 where r: "ReadMsg pc = (err, m, pc1)" by (cases "ReadMsg pc")
  note d = ReadMsg_decodes [OF r]
  obtain err2 pc2 where h: "HandleMessage E h pc1 m = (err2, pc2)" by (cases "HandleMessage E h pc1 m")
  define in1 where "in1 = io_in (pc_Conn pc1)"
  have i: "io_in (pc_Conn pc2) = in1" "pc_MaxLength pc2 = pc_MaxLength pc"
    using HandleMessage_keeps_input [OF assms, of E pc1 m] HandleMessage_limit [OF assms, of E pc1 m] h r
    by (auto simp: in1_def ReadMsg_def split: prod.splits)
  obtain pc3 where h': "HandleMessage E h pc m = (err2, pc3)" "pc2 = with_input in1 pc3"
    using HandleMessage_input [OF assms, of E in1 pc m] d h unfolding in1_def by (cases "HandleMessage E h pc m") auto
  show ?case
  proof (cases err)
    case (Some e)
    have "stops_after E h pc [] (io_in (pc_Conn pc)) (if e = IoEOF then None else Some (IoError e), pc1)"
      using d Some by (auto simp: stops_after_def)
    moreover have "loopRun E h pc = Some (if e = IoEOF then None else Some (IoError e), pc1)"
      by (subst loopRun.simps) (simp only: r Some prod.case option.case)
    ultimately show ?thesis using decodes_nothing by blast
  next
    case None
    note step = decodes_message [of "io_in (pc_Conn pc)" "pc_MaxLength pc" m in1]
    show ?thesis
    proof (cases err2)
      case (Some e)
      have "stops_after E h pc [m] in1 (Some e, pc2)" using h' Some by (simp add: stops_after_def)
      moreover have "loopRun E h pc = Some (Some e, pc2)"
        by (subst loopRun.simps) (simp only: r h None Some prod.case option.case)
      ultimately show ?thesis using step [OF _ decodes_nothing] d None unfolding in1_def by blast
    next
      case ok: None
      have "length (io_in (pc_Conn pc2)) < length (io_in (pc_Conn pc))"
        using ReadMsg_shorter [of pc m pc1] r None i(1) by (simp add: in1_def)
      from less [OF this] obtain ms rest res where
        "decodes_to (pc_MaxLength pc) in1 ms rest" "loopRun E h pc2 = Some res" "stops_after E h pc2 ms rest res"
        unfolding i by blast
      moreover have "loopRun E h pc = loopRun E h pc2"
        by (subst loopRun.simps) (simp only: r h None ok prod.case option.case)
      moreover have "stops_after E h pc (m # ms) rest res \<longleftrightarrow> stops_after E h pc2 ms rest res" for ms rest res
        using stops_after_Cons [of E h pc m pc3 ms rest res] stops_after_input [OF assms, of E in1 pc3] h' ok i(2) by simp
      ultimately show ?thesis using step d None unfolding in1_def by (metis (no_types))
    qed
  qed
qed

text \<open>C17: the loop of a connection ends on every input that ends, whatever bytes it holds, when the handlers neither
  add to the input nor change the limit. It handles in their order the messages that the input starts
  with, at most one for every four bytes, and stops at the first error of a handler or at the first bytes that
  are not a message; when these are the end of the input it reports no error.\<close>

theorem loop_ends:
  assumes "quiet h"
  shows "\<exists>ms rest res. decodes_to (pc_MaxLength pc) (io_in (pc_Conn pc)) ms rest \<and>
    4 * length ms + length rest \<le> length (io_in (pc_Conn pc)) \<and>
    loopRun E h pc = Some res \<and> stops_after E h pc ms rest res"
  using loop_stops [OF assms] decodes_to_length by blast

theorem loop_ends_witness:
  "let pc = with_input [0, 0, 0, 1, 0, 0, 0, 7] (example_conn 1 zeroHash)
   in \<exists>ms rest res. decodes_to (pc_MaxLength pc) (io_in (pc_Conn pc)) ms rest \<and>
     4 * length ms + length rest \<le> length (io_in (pc_Conn pc)) \<and>
     loopRun example_conn_env NoopHandler pc = Some res \<and> stops_after example_conn_env NoopHandler pc ms rest res"
  unfolding Let_def by (rule loop_ends [OF quiet_Noop])

section \<open>Choking and interest\<close>

text \<open>A handler that looks at the connection and says whether there is an error.\<close>

definition observer :: "handler \<Rightarrow> bool" where
  "observer h \<longleftrightarrow> (\<forall>c pc. snd (h_call h c pc) = pc)"

text \<open>What a message tells about the choking and the interest of its sender.\<close>

definition heard :: "pmessage \<Rightarrow> bool \<times> bool \<Rightarrow> bool \<times> bool" where
  "heard m = (\<lambda>(c, i).
     if pm_Keepalive m then (c, i)
     else if pm_Type m = MTypeChoke then (True, i)
     else if pm_Type m = MTypeUnchoke then (False, i)
     else if pm_Type m = MTypeInterested then (c, True)
     else if pm_Type m = MTypeNotInterested then (c, False)
     else (c, i))"

definition peer_told :: "peer_conn \<Rightarrow> bool \<times> bool" where
  "peer_told pc = (pc_PeerChoked pc, pc_PeerInterested pc)"

definition own_state :: "peer_conn \<Rightarrow> bool \<times> bool" where
  "own_state pc = (pc_Choked pc, pc_Interested pc)"

definition same_side :: "peer_conn \<Rightarrow> peer_conn \<Rightarrow> bool" where
  "same_side pc pc' \<longleftrightarrow> own_state pc' = own_state pc \<and> pc_Conn pc' = pc_Conn pc \<and> pc_MaxLength pc' = pc_MaxLength pc"

lemmas side_defs = same_side_def peer_told_def own_state_def

lemma heard_carried [simp]: "heard (carried m) = heard m"
  by (auto simp: heard_def carried_def noMessage_def no_payload_def Let_def)

lemma observed:
  assumes "observer h"
  shows "snd (h_call h c pc) = pc" "snd (invokeBep3Handler h pc c m) = pc" "snd (invokeBep6Handler h pc c m) = pc"
  using assms by (simp_all add: observer_def invokeBep3Handler_def invokeBep6Handler_def)

lemma handled_Bep3:
  assumes "observer h" "\<not> pm_Keepalive m"
  shows "same_side pc (snd (handleBep3Message h pc m)) \<and> peer_told (snd (handleBep3Message h pc m)) = heard m (peer_told pc)"
  using assms(2)
  by (simp add: handleBep3Message_def handleBitFieldMessage_def Let_def observed [OF assms(1)] heard_def side_defs if_distrib [of snd])

lemma handled_other:
  assumes "observer h"
  shows "same_side pc (snd (handleBep5Message h pc m)) \<and> peer_told (snd (handleBep5Message h pc m)) = peer_told pc"
    "same_side pc (snd (handleBep6Message h pc m)) \<and> peer_told (snd (handleBep6Message h pc m)) = peer_told pc"
    "same_side pc (snd (handleBep10Message E h pc m)) \<and> peer_told (snd (handleBep10Message E h pc m)) = peer_told pc"
proof -
  note o = observed [OF assms]
  show "same_side pc (snd (handleBep5Message h pc m)) \<and> peer_told (snd (handleBep5Message h pc m)) = peer_told pc"
    by (simp add: handleBep5Message_def o side_defs)
  show "same_side pc (snd (handleBep6Message h pc m)) \<and> peer_told (snd (handleBep6Message h pc m)) = peer_told pc"
    by (simp add: handleBep6Message_def handleSuggestMessage_def handleHaveAllMessage_def handleHaveNoneMessage_def
        handleRejectMessage_def handleAllowedFastMessage_def Let_def o side_defs if_distrib [of snd])
  show "same_side pc (snd (handleBep10Message E h pc m)) \<and> peer_told (snd (handleBep10Message E h pc m)) = peer_told pc"
    by (simp add: handleBep10Message_def handleExtMsg_def Let_def o side_defs split: sum.split)
qed

lemma HandleMessage_told:
  assumes "observer h" "HandleMessage E h pc m = (err, pc')"
  shows "same_side pc pc' \<and> peer_told pc' = heard m (peer_told pc)"
proof (cases "pm_Keepalive m")
  case True
  then show ?thesis using assms(2) by (auto simp: HandleMessage_def heard_def side_defs)
next
  case False
  have "heard m s = s" if "\<not> isBep3MessageType (pm_Type m)" for s
    using that by (cases s) (simp add: heard_def isBep3MessageType_def)
  then have "same_side pc (snd (dispatch E h pc m)) \<and> peer_told (snd (dispatch E h pc m)) = heard m (peer_told pc)"
    using handled_Bep3 [OF assms(1) False, of pc] handled_other(1,2) [OF assms(1), of pc m] handled_other(3) [OF assms(1), of pc E m]
    by (simp add: dispatch_def observed [OF assms(1)]) (simp add: same_side_def)
  then show ?thesis using assms(2) False
    by (cases "dispatch E h pc m") (auto simp: HandleMessage_dispatch side_defs split: if_splits)
qed

text \<open>
  Two connected sides: what one sends is appended to what the other one has to read. A side sends by
  the four operations on its state, or by sending any message that does not speak about it; it takes
  in the next message at any time.
\<close>

definition delivered :: "peer_conn \<Rightarrow> peer_conn \<Rightarrow> peer_conn \<Rightarrow> peer_conn" where
  "delivered a a' b = with_input (io_in (pc_Conn b) @ sent a a') b"

inductive half_step :: "conn_env \<Rightarrow> handler \<Rightarrow> peer_conn \<times> peer_conn \<Rightarrow> peer_conn \<times> peer_conn \<Rightarrow> bool" for E h where
  chokes: "SetChoked E a = (err, a') \<Longrightarrow> half_step E h (a, b) (a', delivered a a' b)"
| unchokes: "SetUnchoked E a = (err, a') \<Longrightarrow> half_step E h (a, b) (a', delivered a a' b)"
| interested: "SetInterested E a = (err, a') \<Longrightarrow> half_step E h (a, b) (a', delivered a a' b)"
| not_interested: "SetNotInterested E a = (err, a') \<Longrightarrow> half_step E h (a, b) (a', delivered a a' b)"
| sends: "WriteMsg E a m = (err, a') \<Longrightarrow> heard m = id \<Longrightarrow> fits_limit (pc_MaxLength b) m \<Longrightarrow>
    half_step E h (a, b) (a', delivered a a' b)"
| takes: "ReadMsg b = (None, m, b1) \<Longrightarrow> HandleMessage E h b1 m = (err, b') \<Longrightarrow> half_step E h (a, b) (a, b')"

definition link_step :: "conn_env \<Rightarrow> handler \<Rightarrow> peer_conn \<times> peer_conn \<Rightarrow> peer_conn \<times> peer_conn \<Rightarrow> bool" where
  "link_step E h s t \<longleftrightarrow> half_step E h s t \<or> half_step E h (prod.swap s) (prod.swap t)"

definition fresh_conn :: "peer_conn \<Rightarrow> bool" where
  "fresh_conn pc \<longleftrightarrow> io_in (pc_Conn pc) = [] \<and> own_state pc = (True, False) \<and> peer_told pc = (True, False)"

text \<open>What is still to be read brings the view of the other side up to date.\<close>

definition in_sync :: "peer_conn \<Rightarrow> peer_conn \<Rightarrow> bool" where
  "in_sync a b \<longleftrightarrow> (\<exists>ms. io_in (pc_Conn b) = frames ms \<and> list_all (fits_limit (pc_MaxLength b)) ms \<and>
     fold heard ms (peer_told b) = own_state a)"

definition link_ok :: "conn_env \<Rightarrow> handler \<Rightarrow> peer_conn \<times> peer_conn \<Rightarrow> bool" where
  "link_ok E h s \<longleftrightarrow> writes_fully (ce_Write E) \<and> ce_OnWriteMsg E = None \<and> observer h \<longrightarrow>
     in_sync (fst s) (snd s) \<and> in_sync (snd s) (fst s)"

lemma small_fits: "no_payload (pm_Type m) \<Longrightarrow> \<not> pm_Keepalive m \<Longrightarrow> fits_limit k m"
  by (auto simp: fits_limit_def sendable_def body_length_def marshalBinaryType_def no_payload_def unat_gt_0 Suc_le_eq)

text \<open>A message that is written is on its way, and tells what has changed.\<close>

lemma written_in_sync:
  assumes "in_sync a b" "fits_limit (pc_MaxLength b) m" "own_state a' = heard m (own_state a)"
    "io_out (pc_Conn a') = io_out (pc_Conn a) @ Message_EncodeTo m"
  shows "in_sync a' (delivered a a' b)"
proof -
  obtain ms where ms: "io_in (pc_Conn b) = frames ms" "list_all (fits_limit (pc_MaxLength b)) ms"
    "fold heard ms (peer_told b) = own_state a" using assms(1) by (auto simp: in_sync_def)
  have "peer_told (delivered a a' b) = peer_told b" by (simp add: delivered_def with_input_def peer_told_def)
  then show ?thesis using assms(2-4) ms
    by (auto simp: in_sync_def delivered_def sent_def intro!: exI [of _ "ms @ [m]"])
qed

lemma idle_in_sync: "in_sync a b \<Longrightarrow> in_sync a (delivered a a b)"
  by (simp add: delivered_def sent_def)

lemma sent_Set:
  assumes "writes_fully (ce_Write E)" "ce_OnWriteMsg E = None" "in_sync a b"
  shows "SetChoked E a = (err, a') \<Longrightarrow> in_sync a' (delivered a a' b)"
    "SetUnchoked E a = (err, a') \<Longrightarrow> in_sync a' (delivered a a' b)"
    "SetInterested E a = (err, a') \<Longrightarrow> in_sync a' (delivered a a' b)"
    "SetNotInterested E a = (err, a') \<Longrightarrow> in_sync a' (delivered a a' b)"
  using assms(3) idle_in_sync [OF assms(3)]
  by (auto simp: SetChoked_def SetUnchoked_def SetInterested_def SetNotInterested_def when_sent_def SendChoke_def SendUnchoke_def
      SendInterested_def SendNotInterested_def WriteMsg_all [OF assms(2,1)] split: if_splits
      intro!: written_in_sync [OF assms(3)] small_fits) (simp_all add: noMessage_def no_payload_def heard_def own_state_def)

lemma taken_in_sync:
  assumes "observer h" "in_sync a b" "ReadMsg b = (None, m, b1)" "HandleMessage E h b1 m = (err, b')"
  shows "in_sync a b'"
proof -
  obtain ms where ms: "io_in (pc_Conn b) = frames ms" "list_all (fits_limit (pc_MaxLength b)) ms"
    "fold heard ms (peer_told b) = own_state a" using assms(2) by (auto simp: in_sync_def)
  have "ms \<noteq> []" using ReadMsg_end [of b] assms(3) ms(1) by auto
  then obtain x xs where x: "ms = x # xs" by (cases ms) auto
  then have b1: "m = carried x" "b1 = with_input (frames xs) b" using ReadMsg_message [of b x "frames xs"] ms(1,2) assms(3) by simp_all
  have t: "peer_told b1 = peer_told b" by (simp add: b1(2) with_input_def peer_told_def)
  show ?thesis unfolding in_sync_def
    using HandleMessage_told [OF assms(1,4)] ms(2,3) t x b1 by (auto simp: same_side_def intro!: exI [of _ xs])
qed

text \<open>Nothing that one side does changes what it has heard or is to hear.\<close>

lemma half_other:
  assumes "half_step E h (a, b) (a', b')" "writes_fully (ce_Write E)" "ce_OnWriteMsg E = None" "observer h" "in_sync b a"
  shows "in_sync b' a'"
proof -
  have d: "own_state (delivered a x b) = own_state b" for x by (simp add: delivered_def with_input_def own_state_def)
  have k: "in_sync (delivered a x b) x"
    if "peer_told x = peer_told a" "io_in (pc_Conn x) = io_in (pc_Conn a)" "pc_MaxLength x = pc_MaxLength a" for x
    using that assms(5) d by (simp add: in_sync_def)
  note w = WriteMsg_all [OF assms(3,2)]
  from assms(1) show ?thesis
  proof cases
    case (takes m b1 err)
    then have "own_state b' = own_state b"
      using HandleMessage_told [OF assms(4) takes(3)] by (auto simp: ReadMsg_def side_defs split: prod.splits)
    then show ?thesis using assms(5) takes(1) by (simp add: in_sync_def)
  qed (insert k [of a], auto intro!: k simp: w SetChoked_def SetUnchoked_def SetInterested_def SetNotInterested_def when_sent_def SendChoke_def
      SendUnchoke_def SendInterested_def SendNotInterested_def peer_told_def split: if_splits)
qed

lemma half_step_in_sync:
  assumes "half_step E h (a, b) (a', b')" "writes_fully (ce_Write E)" "ce_OnWriteMsg E = None" "observer h" "in_sync a b"
  shows "in_sync a' b'"
  using assms(1)
proof cases
  case (sends m err)
  then show ?thesis
    using written_in_sync [OF assms(5) sends(4), of a'] by (auto simp: WriteMsg_all [OF assms(3,2)] own_state_def)
qed (use sent_Set [OF assms(2,3,5)] taken_in_sync [OF assms(4,5)] in auto)

interpretation link: inductive_invariant "\<lambda>s. fresh_conn (fst s) \<and> fresh_conn (snd s)" "link_step E h" "link_ok E h" for E h
proof
  fix s t assume "link_ok E h s" "link_step E h s t"
  then show "link_ok E h t"
    using half_step_in_sync [of E h "fst s" "snd s" "fst t" "snd t"] half_step_in_sync [of E h "snd s" "fst s" "snd t" "fst t"]
      half_other [of E h "fst s" "snd s" "fst t" "snd t"] half_other [of E h "snd s" "fst s" "snd t" "fst t"]
    by (auto simp: link_ok_def link_step_def prod.swap_def)
qed (auto simp: link_ok_def fresh_conn_def in_sync_def intro!: exI [of _ "[]"])

text \<open>C7: the two sides of a connection agree on choking and interest. Starting from new connections, with every write
  complete and a handler that only observes, after any interleaving of operations of both sides a side
  that has nothing left to read knows exactly the state of the other one: the peer is choked or
  interested in its view if and only if the other side has it so.\<close>

theorem choke_agrees:
  assumes "reach (\<lambda>s. fresh_conn (fst s) \<and> fresh_conn (snd s)) (link_step E h) (a, b)"
    "writes_fully (ce_Write E)" "ce_OnWriteMsg E = None" "observer h" "io_in (pc_Conn b) = []"
  shows "pc_PeerChoked b = pc_Choked a \<and> pc_PeerInterested b = pc_Interested a"
proof -
  have "in_sync a b" using link.reach_inv [OF assms(1)] assms(2-4) by (simp add: link_ok_def)
  then obtain ms where ms: "frames ms = []" "fold heard ms (peer_told b) = own_state a" using assms(5) by (metis in_sync_def)
  have "Message_EncodeTo m \<noteq> []" for m by (simp add: Message_EncodeTo_def Let_def put_u32_def)
  then have "ms = []" using ms(1) by (cases ms) auto
  then show ?thesis using ms(2) by (simp add: peer_told_def own_state_def)
qed

definition example_unchoked :: "peer_conn \<times> peer_conn" where
  "example_unchoked =
     (let a = example_conn 1 zeroHash; b = example_conn 2 zeroHash; a' = snd (SetUnchoked example_conn_env a);
          (_, m, b1) = ReadMsg (delivered a a' b)
      in (a', snd (HandleMessage example_conn_env NoopHandler b1 m)))"

theorem choke_agrees_witness:
  "pc_PeerChoked (snd example_unchoked) = pc_Choked (fst example_unchoked) \<and>
   pc_PeerInterested (snd example_unchoked) = pc_Interested (fst example_unchoked) \<and> \<not> pc_PeerChoked (snd example_unchoked)"
proof -
  let ?a = "example_conn 1 zeroHash" and ?b = "example_conn 2 zeroHash" and ?i = "\<lambda>s. fresh_conn (fst s) \<and> fresh_conn (snd s)"
  define a' where "a' = snd (SetUnchoked example_conn_env ?a)"
  define b0 where "b0 = delivered ?a a' ?b"
  have "fresh_conn ?a" "fresh_conn ?b" by (simp_all add: fresh_conn_def example_conn_def NewPeerConn_def own_state_def peer_told_def)
  then have "reach ?i (link_step example_conn_env NoopHandler) (?a, ?b)" by (auto intro: reach.intros)
  moreover have "link_step example_conn_env NoopHandler (?a, ?b) (a', b0)"
    unfolding link_step_def a'_def b0_def by (intro disjI1 half_step.unchokes [of _ _ "fst (SetUnchoked example_conn_env ?a)"]) simp
  ultimately have r: "reach ?i (link_step example_conn_env NoopHandler) (a', b0)" by (rule reach.intros)
  obtain m b1 where m: "ReadMsg b0 = (None, m, b1)"
  proof -
    have "fst (ReadMsg b0) = None" unfolding b0_def a'_def by code_simp
    then show ?thesis using that by (cases "ReadMsg b0") auto
  qed
  then have "link_step example_conn_env NoopHandler (a', b0) (a', snd (HandleMessage example_conn_env NoopHandler b1 m))"
    unfolding link_step_def
    by (intro disjI1 half_step.takes [of _ m b1 _ _ "fst (HandleMessage example_conn_env NoopHandler b1 m)"]) simp_all
  moreover have e: "example_unchoked = (a', snd (HandleMessage example_conn_env NoopHandler b1 m))"
    using m by (simp add: example_unchoked_def Let_def a'_def b0_def)
  ultimately have "reach ?i (link_step example_conn_env NoopHandler) (fst example_unchoked, snd example_unchoked)"
    using reach.intros(2) [OF r] by simp
  moreover have "io_in (pc_Conn (snd example_unchoked)) = []" "\<not> pc_PeerChoked (snd example_unchoked)" by code_simp+
  moreover have "observer NoopHandler" by (simp add: observer_def NoopHandler_def)
  ultimately show ?thesis using choke_agrees example_conn_env by blast
qed

section \<open>The extended handshake over a connection\<close>

definition ext_message :: "byte \<Rightarrow> bytes \<Rightarrow> pmessage" where
  "ext_message extID p = noMessage\<lparr>pm_Type := MTypeExtended, pm_ExtendedID := extID, pm_ExtendedPayload := p\<rparr>"

lemma ext_message:
  "carried (ext_message i p) = ext_message i p" "\<not> pm_Keepalive (ext_message i p)"
  by (simp_all add: ext_message_def carried_def noMessage_def no_payload_def Let_def)

lemma later_msg: "pc_notFirstMsg pc \<Longrightarrow> pc\<lparr>pc_notFirstMsg := True\<rparr> = pc"
  by (cases pc) simp

lemma ext_dispatch: "dispatch E h pc (ext_message i p) = handleBep10Message E h pc (ext_message i p)"
  by (simp add: dispatch_def ext_message_def isBep3MessageType_def isBep6MessageType_def)

lemma sent_decodes:
  assumes "wf_ext_handshake m" "takes_hashes D" "encodeValue (ExtendedHandshakeMsg_gval D m) = Inr p"
  shows "ExtendedHandshakeMsg_Decode D noExtHandshake p = Inr (m\<lparr>eh_M := sort_key fst (eh_M m)\<rparr>)"
proof -
  have "\<forall>s. into_struct False (ExtendedHandshakeMsg_fields D) noExtHandshake (p @ s) = Inr (m\<lparr>eh_M := sort_key fst (eh_M m)\<rparr>, s)"
    using ExtendedHandshakeMsg_reads [OF assms(1,2), of False] assms(3) by (auto simp: carries_def)
  from spec [OF this, of "[]"] show ?thesis by (simp add: ExtendedHandshakeMsg_Decode_def)
qed

text \<open>C28: the extended handshake arrives. What \<^verbatim>\<open>SendExtHandshakeMsg\<close> writes, within the limit of the receiver, is
  read there as one message; handled by a side that supports the extension and has had none yet, it
  sets the handshake of the peer to what was sent, and then calls the handler.\<close>

theorem ext_handshake_arrives:
  assumes "writes_fully (ce_Write E)" "ce_OnWriteMsg E = None" "takes_hashes (ce_dest E)" "wf_ext_handshake m"
    "encodeValue (ExtendedHandshakeMsg_gval (ce_dest E) m) = Inr p" "fits_limit (pc_MaxLength b) (ext_message 0 p)"
    "IsSupportExtended (pc_ExtBits b)" "\<not> pc_extHandshake b" "pc_ExtendedHandshakeMsg b = noExtHandshake"
    "h_Bep10 h" "observer h" "io_in (pc_Conn b) = []"
  shows "\<exists>a' msg pc. SendExtHandshakeMsg E a m = (None, a') \<and> ReadMsg (delivered a a' b) = (None, msg, b) \<and>
    pc = b\<lparr>pc_extHandshake := True, pc_ExtendedHandshakeMsg := m\<lparr>eh_M := sort_key fst (eh_M m)\<rparr>\<rparr> \<and>
    HandleMessage E h b msg = (fst (h_call h OnExtHandShake pc), pc\<lparr>pc_notFirstMsg := True\<rparr>)"
proof -
  let ?x = "ext_message 0 p" and ?pc = "b\<lparr>pc_extHandshake := True, pc_ExtendedHandshakeMsg := m\<lparr>eh_M := sort_key fst (eh_M m)\<rparr>\<rparr>"
  let ?a = "a\<lparr>pc_Conn := (pc_Conn a)\<lparr>io_out := io_out (pc_Conn a) @ Message_EncodeTo ?x\<rparr>\<rparr>"
  have "SendExtHandshakeMsg E a m = (None, ?a)"
    unfolding SendExtHandshakeMsg_def assms(5) by (simp add: SendExtMsg_def WriteMsg_all [OF assms(2,1)] ext_message_def)
  moreover have "ReadMsg (delivered a ?a b) = (None, ?x, b)"
    using ReadMsg_message [of "delivered a ?a b" ?x "[]"] assms(6,12) with_input_simps(5) [of b]
    by (simp add: delivered_def sent_def ext_message)
  moreover have h: "handleBep10Message E h b ?x = h_call h OnExtHandShake ?pc"
    unfolding handleBep10Message_def handleExtMsg_def
    using assms(7-10) sent_decodes [OF assms(4,3,5)] by (simp add: ext_message_def)
  have "snd (h_call h OnExtHandShake ?pc) = ?pc" using assms(11) by (simp add: observer_def)
  then have "HandleMessage E h b ?x = (fst (h_call h OnExtHandShake ?pc), ?pc\<lparr>pc_notFirstMsg := True\<rparr>)"
    by (cases "h_call h OnExtHandShake ?pc") (auto simp: HandleMessage_dispatch ext_message ext_dispatch h later_msg)
  ultimately show ?thesis by blast
qed

definition example_ext_handshake :: ext_handshake where
  "example_ext_handshake = noExtHandshake\<lparr>eh_M := [(ascii ''ut_metadata'', 2)], eh_V := ascii ''v'', eh_MetadataSize := 9\<rparr>"

definition extended_conn :: peer_conn where
  "extended_conn = (example_conn 2 zeroHash)\<lparr>pc_ExtBits := [0, 0, 0, 0, 0, 16, 0, 0]\<rparr>"

theorem ext_handshake_arrives_witness:
  "\<exists>a' msg pc. SendExtHandshakeMsg example_conn_env (example_conn 1 zeroHash) example_ext_handshake = (None, a') \<and>
    ReadMsg (delivered (example_conn 1 zeroHash) a' extended_conn) = (None, msg, extended_conn) \<and>
    HandleMessage example_conn_env NoopHandler extended_conn msg = (None, pc) \<and>
    eh_MetadataSize (pc_ExtendedHandshakeMsg pc) = 9"
proof -
  obtain p where p: "encodeValue (ExtendedHandshakeMsg_gval (ce_dest example_conn_env) example_ext_handshake) = Inr p" "length p < 100"
  proof -
    have "case encodeValue (ExtendedHandshakeMsg_gval (ce_dest example_conn_env) example_ext_handshake) of
      Inl _ \<Rightarrow> False | Inr p \<Rightarrow> length p < 100" by code_simp
    then show ?thesis using that by (auto split: sum.splits)
  qed
  have c: "IsSupportExtended (pc_ExtBits extended_conn)" "\<not> pc_extHandshake extended_conn"
    "pc_ExtendedHandshakeMsg extended_conn = noExtHandshake" "io_in (pc_Conn extended_conn) = []"
    "pc_MaxLength extended_conn = 262144"
    by (code_simp, simp_all add: extended_conn_def example_conn_def NewPeerConn_def)
  have f: "fits_limit (pc_MaxLength extended_conn) (ext_message 0 p)"
    using p(2) by (simp add: c(5) fits_limit_def sendable_def body_length_def ext_message_def marshalBinaryType_def no_payload_def
        noMessage_def marshalExtendedMessage_def)
  have w: "wf_ext_handshake example_ext_handshake" "takes_hashes (ce_dest example_conn_env)"
    by (simp_all add: wf_ext_handshake_def example_ext_handshake_def noExtHandshake_def fits_def ascii_def is_int64_def
        takes_hashes_def example_conn_env_def example_dest_def)
  have "h_Bep10 NoopHandler" "observer NoopHandler" "fst (h_call NoopHandler c pc) = None" for c pc
    by (simp_all add: NoopHandler_def observer_def)
  then show ?thesis
    using ext_handshake_arrives [OF example_conn_env w(2,1) p(1) f c(1-3) _ _ c(4), of NoopHandler "example_conn 1 zeroHash"]
    by (auto simp: example_ext_handshake_def)
qed

end
