(* ===== verification/Torrent.thy ===== *)
theory Torrent
  imports Resolver Sha "HOL-Library.Signed_Division" "HOL-Library.Product_Lexorder"
begin

text \<open>
  The layout of a torrent (\<^verbatim>\<open>metainfo/info.go\<close>, \<^verbatim>\<open>metainfo/file.go\<close>, \<^verbatim>\<open>metainfo/piece.go\<close>,
  \<^verbatim>\<open>utils/io.go\<close>): the files with their paths, the pieces that cut across them, the blocks of a piece
  and the hashes of the pieces. Offsets and lengths are integers that wrap at 64 bits, and positions in a
  piece words of 32 bits, as in the code. \<open>None\<close> stands for a panic.
\<close>

section \<open>Paths\<close>

text \<open>
  \<^verbatim>\<open>filepath.Clean\<close> and \<^verbatim>\<open>filepath.Join\<close> with the separator of Unix: empty elements and dots are left
  out, and two dots take the element before them away.
\<close>

definition clean_step :: "bool \<Rightarrow> bytes list \<Rightarrow> bytes \<Rightarrow> bytes list" where
  "clean_step rooted out e =
     (if e = [] \<or> e = ascii ''.'' then out
      else if e = ascii ''..''
      then if out \<noteq> [] \<and> last out \<noteq> ascii ''..'' then butlast out else if rooted then out else out @ [e]
      else out @ [e])"

definition Clean :: "bytes \<Rightarrow> bytes" where
  "Clean p =
     (let rooted = (p \<noteq> [] \<and> hd p = 47);
          out = foldl (clean_step rooted) [] (split_on 47 p)
      in if rooted then 47 # join_with [47] out
         else if out = [] then ascii ''.'' else join_with [47] out)"

definition Join :: "bytes list \<Rightarrow> bytes" where
  "Join elem = (case dropWhile ((=) []) elem of [] \<Rightarrow> [] | es \<Rightarrow> Clean (join_with [47] es))"

section \<open>Files and pieces\<close>

abbreviation i64 :: "int \<Rightarrow> int" where
  "i64 \<equiv> wrap_signed 64"

record tfile =
  fl_Length :: int
  fl_Paths :: "bytes list"

record info =
  in_Name :: bytes
  in_PieceLength :: int
  in_Pieces :: "hash list"
  in_Length :: int
  in_Files :: "tfile list"

definition IsDir :: "info \<Rightarrow> bool" where
  "IsDir info \<longleftrightarrow> length (in_Files info) \<noteq> 0"

definition CountPieces :: "info \<Rightarrow> int" where
  "CountPieces info = int (length (in_Pieces info))"

definition TotalLength :: "info \<Rightarrow> int" where
  "TotalLength info =
     (if IsDir info then foldl (\<lambda>ret fi. i64 (ret + fl_Length fi)) 0 (in_Files info) else in_Length info)"

definition PieceOffset :: "info \<Rightarrow> u32 \<Rightarrow> u32 \<Rightarrow> int" where
  "PieceOffset info index offset = i64 (i64 (uint index * in_PieceLength info) + uint offset)"

definition AllFiles :: "info \<Rightarrow> tfile list" where
  "AllFiles info = (if IsDir info then in_Files info else [\<lparr>fl_Length = in_Length info, fl_Paths = []\<rparr>])"

text \<open>The loop of \<^verbatim>\<open>GetFileByOffset\<close>: what it returns, or the variables after its last round.\<close>

fun find_file :: "tfile list \<Rightarrow> tfile \<Rightarrow> int \<Rightarrow> (tfile \<times> int) + (tfile \<times> int)" where
  "find_file [] file fileOffset = Inr (file, fileOffset)"
| "find_file (f # fs) file fileOffset =
     (if fileOffset < fl_Length f then Inl (f, fileOffset)
      else if fileOffset = fl_Length f \<and> fs = [] then Inl (f, fileOffset)
      else find_file fs f (i64 (fileOffset - fl_Length f)))"

definition noFile :: tfile where
  "noFile = \<lparr>fl_Length = 0, fl_Paths = []\<rparr>"

definition GetFileByOffset :: "info \<Rightarrow> int \<Rightarrow> (tfile \<times> int) option" where
  "GetFileByOffset info offset =
     (if \<not> IsDir info
      then if offset > in_Length info then None
           else Some (\<lparr>fl_Length = in_Length info, fl_Paths = [in_Name info]\<rparr>, offset)
      else case find_file (in_Files info) noFile offset of
             Inl r \<Rightarrow> Some r
           | Inr (file, fileOffset) \<Rightarrow> if fileOffset > fl_Length file then None else Some (file, fileOffset))"

definition File_String :: "tfile \<Rightarrow> bytes" where
  "File_String f = Join (fl_Paths f)"

definition File_Path :: "tfile \<Rightarrow> info \<Rightarrow> bytes" where
  "File_Path f info = (if IsDir info then Join (in_Name info # fl_Paths f) else in_Name info)"

definition PathWithPrefix :: "tfile \<Rightarrow> bytes \<Rightarrow> info \<Rightarrow> bytes" where
  "PathWithPrefix f prefix info =
     (if IsDir info then Join (prefix # in_Name info # fl_Paths f) else Join [prefix, in_Name info])"

fun offset_from :: "bytes \<Rightarrow> info \<Rightarrow> int \<Rightarrow> tfile list \<Rightarrow> int option" where
  "offset_from path info ret [] = None"
| "offset_from path info ret (file # fs) =
     (if path = File_Path file info then Some ret else offset_from path info (i64 (ret + fl_Length file)) fs)"

definition File_Offset :: "tfile \<Rightarrow> info \<Rightarrow> int option" where
  "File_Offset f info = offset_from (File_Path f info) info 0 (AllFiles info)"

text \<open>The piece of an index; a negative one passes the check and panics when it is used.\<close>

record piece =
  p_info :: info
  p_index :: int

definition Info_Piece :: "info \<Rightarrow> int \<Rightarrow> piece option" where
  "Info_Piece info index = (if index \<ge> int (length (in_Pieces info)) then None else Some \<lparr>p_info = info, p_index = index\<rparr>)"

definition Piece_Offset :: "piece \<Rightarrow> int" where
  "Piece_Offset p = i64 (p_index p * in_PieceLength (p_info p))"

definition Piece_Hash :: "piece \<Rightarrow> hash option" where
  "Piece_Hash p =
     (if 0 \<le> p_index p \<and> p_index p < CountPieces (p_info p) then Some (in_Pieces (p_info p) ! nat (p_index p)) else None)"

definition Piece_Length :: "piece \<Rightarrow> int" where
  "Piece_Length p =
     (if p_index p = CountPieces (p_info p) - 1
      then i64 (TotalLength (p_info p) - i64 (p_index p * in_PieceLength (p_info p)))
      else in_PieceLength (p_info p))"

section \<open>Blocks and parts of pieces\<close>

record piece_block =
  pb_Index :: u32
  pb_Offset :: u32
  pb_Length :: u32

record file_piece =
  fp_Index :: u32
  fp_Offset :: u32
  fp_Length :: u32

definition TotalOffset :: "file_piece \<Rightarrow> int \<Rightarrow> int" where
  "TotalOffset fp pieceLength = i64 (i64 (uint (fp_Index fp) * pieceLength) + uint (fp_Offset fp))"

function blocks_from :: "u32 \<Rightarrow> u32 \<Rightarrow> u32 \<Rightarrow> piece_block list" where
  "blocks_from index offset rest =
     (if rest > 0
      then let len = (if rest < 16384 then rest else 16384)
           in \<lparr>pb_Index = index, pb_Offset = offset, pb_Length = len\<rparr> # blocks_from index (offset + len) (rest - len)
      else [])"
  by pat_completeness auto
termination
proof (relation "measure (\<lambda>(_, _, rest). unat rest)")
  fix rest len :: u32
  assume "rest > 0" "len = (if rest < 16384 then rest else 16384)"
  then have "0 < len" "len \<le> rest" by (auto simp: not_less)
  then show "((index, offset + len, rest - len), index, offset, rest) \<in> measure (\<lambda>(_, _, rest). unat rest)" for index offset :: u32
    by (simp add: unat_sub word_less_nat_alt word_le_nat_alt)
qed simp

declare blocks_from.simps [simp del]

definition FilePiece_Blocks :: "file_piece \<Rightarrow> piece_block list" where
  "FilePiece_Blocks fp = blocks_from (fp_Index fp) (fp_Offset fp) (fp_Length fp)"

text \<open>Division is that of Go, towards zero; division by zero panics.\<close>

definition FilePieces :: "tfile \<Rightarrow> info \<Rightarrow> file_piece list option" where
  "FilePieces f info =
     (if fl_Length f < 1 then Some []
      else do {
        startOffset \<leftarrow> File_Offset f info;
        let pl = in_PieceLength info;
        if pl = 0 then None
        else let startPieceIndex = i64 (startOffset sdiv pl); startPieceOffset = startOffset smod pl;
                 endOffset = i64 (startOffset + fl_Length f);
                 endPieceIndex = i64 (endOffset sdiv pl); endPieceOffset = endOffset smod pl
             in if startPieceIndex = endPieceIndex
                then Some [\<lparr>fp_Index = of_int startPieceIndex, fp_Offset = of_int startPieceOffset,
                            fp_Length = of_int (i64 (endPieceOffset - startPieceOffset))\<rparr>]
                else if i64 (i64 (endPieceIndex - startPieceIndex) + 1) < 0 then None
                else Some (\<lparr>fp_Index = of_int startPieceIndex, fp_Offset = of_int startPieceOffset,
                             fp_Length = of_int (i64 (pl - startPieceOffset))\<rparr> #
                           map (\<lambda>i. \<lparr>fp_Index = of_int i, fp_Offset = 0, fp_Length = of_int pl\<rparr>)
                             [startPieceIndex + 1 .. endPieceIndex - 1] @
                           [\<lparr>fp_Index = of_int endPieceIndex, fp_Offset = 0, fp_Length = of_int endPieceOffset\<rparr>])
      })"

text \<open>
  \<^verbatim>\<open>merge\<close> takes the parts of one piece, sorted by their offset; a part that begins where the one before
  ends is put together with it. The sort leaves the order of parts with the same index and offset open;
  here it is the order they came in.
\<close>

fun merge_run :: "u32 \<Rightarrow> u32 \<Rightarrow> u32 \<Rightarrow> file_piece list \<Rightarrow> file_piece list" where
  "merge_run index offset len [] = [\<lparr>fp_Index = index, fp_Offset = offset, fp_Length = len\<rparr>]"
| "merge_run index offset len (fp # fps) =
     (if offset + len = fp_Offset fp then merge_run index offset (len + fp_Length fp) fps
      else \<lparr>fp_Index = index, fp_Offset = offset, fp_Length = len\<rparr> # merge_run index (fp_Offset fp) (fp_Length fp) fps)"

definition merge_parts :: "file_piece list \<Rightarrow> file_piece list \<Rightarrow> file_piece list" where
  "merge_parts fpset results =
     (case fpset of
        [] \<Rightarrow> results
      | [fp] \<Rightarrow> results @ [fp]
      | fp # fps \<Rightarrow> results @ merge_run (fp_Index fp) (fp_Offset fp) (fp_Length fp) fps)"

text \<open>The loop over the sorted parts; \<open>cur\<close> is the slice from \<^verbatim>\<open>lastpos\<close> on.\<close>

fun merge_loop :: "u32 \<Rightarrow> file_piece list \<Rightarrow> file_piece list \<Rightarrow> file_piece list \<Rightarrow> file_piece list" where
  "merge_loop curindex cur results [] = merge_parts cur results"
| "merge_loop curindex cur results (fp # fps) =
     (if fp_Index fp \<noteq> curindex then merge_loop (fp_Index fp) [fp] (merge_parts cur results) fps
      else merge_loop curindex (cur @ [fp]) results fps)"

definition FilePieces_Merge :: "file_piece list \<Rightarrow> file_piece list" where
  "FilePieces_Merge fps =
     (if length fps < 2 then fps
      else let s = sort_key (\<lambda>fp. (fp_Index fp, fp_Offset fp)) fps in merge_loop (fp_Index (hd s)) [] [] s)"

section \<open>Hashing the pieces\<close>

text \<open>A reader is the bytes that it gives and the error after them, if it is not the end of the file.\<close>

datatype copy_error = CopyEOF | CopyFailed bytes

type_synonym data_reader = "bytes \<times> bytes option"

definition CopyNBuffer :: "data_reader \<Rightarrow> int \<Rightarrow> bytes \<times> copy_error option \<times> data_reader" where
  "CopyNBuffer src n =
     (case src of (d, e) \<Rightarrow>
        let out = take (nat n) d; written = int (length out); src' = (drop (nat n) d, e)
        in if written = n then (out, None, src')
           else if written < n
           then (out, Some (case e of None \<Rightarrow> CopyEOF | Some m \<Rightarrow> CopyFailed m), src')
           else (out, None, src'))"

text \<open>\<open>None\<close>: the length is negative, or zero, for which the loop never ends.\<close>

partial_function (option) generate_loop :: "int \<Rightarrow> data_reader \<Rightarrow> hash list \<Rightarrow> (copy_error + hash list) option" where
  [code]: "generate_loop pieceLength r hs =
     (case CopyNBuffer r pieceLength of (out, err, r') \<Rightarrow> do {
        hs' \<leftarrow> (if length out > 0 then (case NewHash (sha1 out) of Inl _ \<Rightarrow> None | Inr h \<Rightarrow> Some (hs @ [h])) else Some hs);
        case err of
          Some CopyEOF \<Rightarrow> Some (Inr hs')
        | Some e \<Rightarrow> Some (Inl e)
        | None \<Rightarrow> generate_loop pieceLength r' hs'
      })"

definition GeneratePieces :: "data_reader \<Rightarrow> int \<Rightarrow> (copy_error + hash list) option" where
  "GeneratePieces r pieceLength = (if pieceLength < 0 then None else generate_loop pieceLength r [])"

fun writeFiles :: "tfile list \<Rightarrow> (tfile \<Rightarrow> bytes + data_reader) \<Rightarrow> data_reader" where
  "writeFiles [] open' = ([], None)"
| "writeFiles (file # files) open' =
     (case open' file of
        Inl e \<Rightarrow> ([], Some e)
      | Inr r \<Rightarrow>
          (case CopyNBuffer r (fl_Length file) of (out, err, _) \<Rightarrow>
             if int (length out) \<noteq> fl_Length file then (out, Some (ascii ''error copying''))
             else case writeFiles files open' of (d, e) \<Rightarrow> (out @ d, e)))"

definition GeneratePiecesFromFiles ::
    "tfile list \<Rightarrow> int \<Rightarrow> (tfile \<Rightarrow> bytes + data_reader) \<Rightarrow> (copy_error + hash list) option" where
  "GeneratePiecesFromFiles files pieceLength open' =
     (if pieceLength \<le> 0 then Some (Inl (CopyFailed (ascii ''piece length must be a positive integer'')))
      else GeneratePieces (writeFiles files open') pieceLength)"

text \<open>
  The file system: what \<^verbatim>\<open>os.Stat\<close> says of a path, the files below a directory in the order of the walk
  with their paths relative to it, and what is read from a path.
\<close>

datatype stat = NoStat bytes | RegularFile int | Directory

record file_system =
  fs_Stat :: "bytes \<Rightarrow> stat"
  fs_Walk :: "bytes \<Rightarrow> bytes + (bytes list \<times> int) list"
  fs_Open :: "bytes \<Rightarrow> bytes + data_reader"

definition getAllInfoFiles :: "file_system \<Rightarrow> bytes \<Rightarrow> bytes + tfile list" where
  "getAllInfoFiles F rootDir =
     (case fs_Walk F rootDir of
        Inl e \<Rightarrow> Inl e
      | Inr ws \<Rightarrow>
          let files = map (\<lambda>(paths, size). \<lparr>fl_Length = size, fl_Paths = paths\<rparr>)
                        (filter (\<lambda>(paths, size). ascii ''.git'' \<notin> set paths) ws)
          in if files = [] then Inl (ascii ''no files in the directory'') else Inr files)"

definition open_below :: "file_system \<Rightarrow> bytes \<Rightarrow> tfile \<Rightarrow> bytes + data_reader" where
  "open_below F root file = (if length (fl_Paths file) > 0 then fs_Open F (Join (root # fl_Paths file)) else fs_Open F root)"

text \<open>\<^verbatim>\<open>filepath.Base\<close> of a cleaned path.\<close>

definition Base :: "bytes \<Rightarrow> bytes" where
  "Base p = (if p = [47] then p else last (split_on 47 p))"

definition noInfo :: info where
  "noInfo = \<lparr>in_Name = [], in_PieceLength = 0, in_Pieces = [], in_Length = 0, in_Files = []\<rparr>"

definition NewInfoFromFilePath :: "file_system \<Rightarrow> bytes \<Rightarrow> int \<Rightarrow> (bytes + info) option" where
  "NewInfoFromFilePath F root0 pieceLength =
     (let root = Clean root0;
          found = (case fs_Stat F root of
                     NoStat e \<Rightarrow> Inl e
                   | RegularFile n \<Rightarrow> Inr (noInfo\<lparr>in_Length := n\<rparr>)
                   | Directory \<Rightarrow> (case getAllInfoFiles F root of Inl e \<Rightarrow> Inl e | Inr fs \<Rightarrow> Inr (noInfo\<lparr>in_Files := fs\<rparr>)))
      in case found of
           Inl e \<Rightarrow> Some (Inl e)
         | Inr info0 \<Rightarrow>
             let info1 = info0\<lparr>in_Files := sort_key File_String (in_Files info0)\<rparr>
             in do {
               r \<leftarrow> GeneratePiecesFromFiles (AllFiles info1) pieceLength (open_below F root);
               Some (case r of
                       Inl _ \<Rightarrow> Inl (ascii ''error generating pieces'')
                     | Inr hs \<Rightarrow> Inr (info1\<lparr>in_Pieces := hs, in_Name := Base root, in_PieceLength := pieceLength\<rparr>))
             })"

section \<open>Offsets\<close>

lemma i64_small: "- (2 ^ 63) \<le> x \<Longrightarrow> x < 2 ^ 63 \<Longrightarrow> i64 x = x"
  by (simp add: wrap_signed_def)

text \<open>The first offset of a file.\<close>

definition starts_at :: "tfile list \<Rightarrow> nat \<Rightarrow> int" where
  "starts_at fs i = sum_list (map fl_Length (take i fs))"

abbreviation size_of :: "tfile list \<Rightarrow> int" where
  "size_of fs \<equiv> sum_list (map fl_Length fs)"

definition wf_files :: "tfile list \<Rightarrow> bool" where
  "wf_files fs \<longleftrightarrow> list_all (\<lambda>f. 0 \<le> fl_Length f) fs \<and> size_of fs < 2 ^ 63"

lemma starts_at_simps [simp]:
  "starts_at fs 0 = 0" "starts_at (f # fs) (Suc i) = fl_Length f + starts_at fs i"
  by (simp_all add: starts_at_def)

lemma starts_at_Suc: "i < length fs \<Longrightarrow> starts_at fs (Suc i) = starts_at fs i + fl_Length (fs ! i)"
  by (simp add: starts_at_def take_Suc_conv_app_nth)

lemma wf_files_Cons: "wf_files (f # fs) \<Longrightarrow> 0 \<le> fl_Length f \<and> wf_files fs \<and> fl_Length f + size_of fs < 2 ^ 63"
  by (auto simp: wf_files_def)

lemma size_nonneg: "list_all (\<lambda>f. 0 \<le> fl_Length f) fs \<Longrightarrow> 0 \<le> size_of fs"
  by (induction fs) auto

lemma starts_at_nonneg: "list_all (\<lambda>f. 0 \<le> fl_Length f) fs \<Longrightarrow> 0 \<le> starts_at fs i"
  unfolding starts_at_def by (rule size_nonneg) (auto simp: list_all_iff dest: in_set_takeD)

lemma starts_at_le: "list_all (\<lambda>f. 0 \<le> fl_Length f) fs \<Longrightarrow> starts_at fs i \<le> size_of fs"
proof -
  assume a: "list_all (\<lambda>f. 0 \<le> fl_Length f) fs"
  have "size_of fs = starts_at fs i + size_of (drop i fs)"
    unfolding starts_at_def by (metis append_take_drop_id map_append sum_list_append)
  moreover have "0 \<le> size_of (drop i fs)" using a by (intro size_nonneg) (auto simp: list_all_iff dest: in_set_dropD)
  ultimately show ?thesis by simp
qed

lemma TotalLength_eq: "wf_files (AllFiles info) \<Longrightarrow> TotalLength info = size_of (AllFiles info)"
proof -
  have "foldl (\<lambda>ret fi. i64 (ret + fl_Length fi)) n fs = n + size_of fs"
    if "wf_files fs" "0 \<le> n" "n + size_of fs < 2 ^ 63" for n fs
    using that
  proof (induction fs arbitrary: n)
    case (Cons f fs)
    have f: "0 \<le> fl_Length f" "wf_files fs" using wf_files_Cons [OF Cons.prems(1)] by auto
    have n: "0 \<le> size_of fs" using f(2) size_nonneg by (auto simp: wf_files_def)
    have "i64 (n + fl_Length f) = n + fl_Length f" using f(1) n Cons.prems(2,3) by (intro i64_small) auto
    then show ?case using Cons.prems(2,3) Cons.IH [OF f(2), of "n + fl_Length f"] f(1) by (simp add: add.assoc)
  qed simp
  from this [of "AllFiles info" 0] show "wf_files (AllFiles info) \<Longrightarrow> TotalLength info = size_of (AllFiles info)"
    by (auto simp: TotalLength_def AllFiles_def wf_files_def)
qed

lemma find_file_inside:
  assumes "wf_files fs" "0 \<le> off" "off < size_of fs"
  shows "\<exists>i < length fs. find_file fs g off = Inl (fs ! i, off - starts_at fs i) \<and>
    starts_at fs i \<le> off \<and> off < starts_at fs i + fl_Length (fs ! i)"
  using assms
proof (induction fs arbitrary: g off)
  case (Cons f fs)
  show ?case
  proof (cases "off < fl_Length f")
    case True
    then show ?thesis using Cons.prems by (intro exI [of _ 0]) auto
  next
    case False
    have f: "0 \<le> fl_Length f" "wf_files fs" "fl_Length f + size_of fs < 2 ^ 63" using wf_files_Cons [OF Cons.prems(1)] by auto
    have w: "i64 (off - fl_Length f) = off - fl_Length f" using False f Cons.prems by (intro i64_small) auto
    have "fs \<noteq> []" using False Cons.prems(3) by auto
    moreover from Cons.IH [OF f(2), of "off - fl_Length f" f] obtain i where
      "i < length fs" "find_file fs f (off - fl_Length f) = Inl (fs ! i, off - fl_Length f - starts_at fs i)"
      "starts_at fs i \<le> off - fl_Length f" "off - fl_Length f < starts_at fs i + fl_Length (fs ! i)"
      using False Cons.prems(3) by auto
    ultimately show ?thesis using False by (intro exI [of _ "Suc i"]) (auto simp: w algebra_simps)
  qed
qed simp

lemma find_file_end:
  assumes "wf_files fs" "fs \<noteq> []"
  shows "find_file fs g (size_of fs) = Inl (last fs, fl_Length (last fs))"
  using assms
proof (induction fs arbitrary: g)
  case (Cons f fs)
  have f: "0 \<le> fl_Length f" "wf_files fs" "fl_Length f + size_of fs < 2 ^ 63" using wf_files_Cons [OF Cons.prems(1)] by auto
  have n: "0 \<le> size_of fs" using f(2) size_nonneg by (auto simp: wf_files_def)
  show ?case
  proof (cases "fs = []")
    case False
    then show ?thesis using Cons.IH [OF f(2) False, of f] n f i64_small [of "size_of fs"] by simp
  qed simp
qed simp

lemma find_file_past:
  assumes "wf_files fs" "size_of fs < off" "off < 2 ^ 63"
  shows "find_file fs g off = Inr (if fs = [] then g else last fs, off - size_of fs)"
  using assms
proof (induction fs arbitrary: g off)
  case (Cons f fs)
  have f: "0 \<le> fl_Length f" "wf_files fs" using wf_files_Cons [OF Cons.prems(1)] by auto
  have n: "0 \<le> size_of fs" using f(2) size_nonneg by (auto simp: wf_files_def)
  have w: "i64 (off - fl_Length f) = off - fl_Length f" using f n Cons.prems by (intro i64_small) auto
  show ?case using Cons.IH [OF f(2), of "off - fl_Length f" f] Cons.prems f n by (auto simp: w algebra_simps)
qed simp

lemma GetFile_inside:
  assumes "wf_files (AllFiles info)" "0 \<le> off" "off < size_of (AllFiles info)"
  obtains i f where "i < length (AllFiles info)" "GetFileByOffset info off = Some (f, off - starts_at (AllFiles info) i)"
    "fl_Length f = fl_Length (AllFiles info ! i)" "\<And>root. PathWithPrefix f root info = PathWithPrefix (AllFiles info ! i) root info"
    "starts_at (AllFiles info) i \<le> off" "off < starts_at (AllFiles info) i + fl_Length f"
proof (cases "IsDir info")
  case True
  then have a: "AllFiles info = in_Files info" by (simp add: AllFiles_def)
  then show ?thesis
    using find_file_inside [OF assms(1)[unfolded a] assms(2) assms(3)[unfolded a], of noFile] that True
    by (auto simp: GetFileByOffset_def)
next
  case False
  then have a: "AllFiles info = [\<lparr>fl_Length = in_Length info, fl_Paths = []\<rparr>]" by (simp add: AllFiles_def)
  have "GetFileByOffset info off = Some (\<lparr>fl_Length = in_Length info, fl_Paths = [in_Name info]\<rparr>, off)"
    using False assms(3) by (simp add: GetFileByOffset_def a)
  then show ?thesis using False assms(2,3) by (intro that [of 0 "\<lparr>fl_Length = in_Length info, fl_Paths = [in_Name info]\<rparr>"]) (simp_all add: a PathWithPrefix_def)
qed

lemma GetFile_end:
  assumes "wf_files (AllFiles info)"
  shows "\<exists>f. GetFileByOffset info (size_of (AllFiles info)) = Some (f, fl_Length f)"
proof (cases "IsDir info")
  case True
  then show ?thesis using assms find_file_end [of "in_Files info" noFile] by (auto simp: GetFileByOffset_def AllFiles_def IsDir_def)
qed (auto simp: GetFileByOffset_def AllFiles_def)

section \<open>The parts of a file\<close>

lemma u32_small: "0 \<le> x \<Longrightarrow> x < 2 ^ 32 \<Longrightarrow> uint (of_int x :: u32) = x"
  by (simp add: unsigned_of_int take_bit_int_eq_self)

lemma sdiv_nonneg: "0 \<le> (a :: int) \<Longrightarrow> 0 < b \<Longrightarrow> a sdiv b = a div b" "0 \<le> a \<Longrightarrow> 0 < b \<Longrightarrow> a smod b = a mod b"
  by (cases "a = 0"; simp add: signed_divide_int_def signed_modulo_int_def sgn_if minus_div_mult_eq_mod)+

lemma offset_from_nth:
  assumes "wf_files fs" "distinct (map (\<lambda>f. File_Path f info) fs)" "i < length fs" "0 \<le> n" "n + size_of fs < 2 ^ 63"
  shows "offset_from (File_Path (fs ! i) info) info n fs = Some (n + starts_at fs i)"
  using assms
proof (induction fs arbitrary: i n)
  case (Cons f fs)
  have f: "0 \<le> fl_Length f" "wf_files fs" using wf_files_Cons [OF Cons.prems(1)] by auto
  have s: "0 \<le> size_of fs" using f(2) size_nonneg by (auto simp: wf_files_def)
  have w: "i64 (n + fl_Length f) = n + fl_Length f" using f(1) s Cons.prems(4,5) by (intro i64_small) auto
  show ?case
  proof (cases i)
    case (Suc j)
    then have j: "fs ! j \<in> set fs" using Cons.prems(3) by simp
    have "File_Path f info \<notin> (\<lambda>f. File_Path f info) ` set fs" using Cons.prems(2) by simp
    then have "File_Path (fs ! j) info \<noteq> File_Path f info" using j by (metis imageI)
    then show ?thesis using Suc Cons.prems Cons.IH [OF f(2), of j "n + fl_Length f"] f(1) w by (simp add: add.assoc)
  qed simp
qed simp

text \<open>The bytes of the torrent that a part stands for.\<close>

definition cover :: "int \<Rightarrow> file_piece \<Rightarrow> int list" where
  "cover pieceLength fp = [TotalOffset fp pieceLength .. TotalOffset fp pieceLength + uint (fp_Length fp) - 1]"

lemma cover_part:
  assumes "0 \<le> i" "i < 2 ^ 32" "0 \<le> k" "k < 2 ^ 32" "0 \<le> l" "l < 2 ^ 32" "0 < pl" "i * pl + k < 2 ^ 63"
  shows "cover pl \<lparr>fp_Index = of_int i, fp_Offset = of_int k, fp_Length = of_int l\<rparr> = [i * pl + k .. i * pl + k + l - 1]"
proof -
  have n: "0 \<le> i * pl" using assms by simp
  have "i64 (i * pl) = i * pl" "i64 (i * pl + k) = i * pl + k" by (rule i64_small; use n assms(3,8) in linarith)+
  then show ?thesis using assms by (simp add: cover_def TotalOffset_def u32_small)
qed

lemma upto_whole:
  assumes "0 < (pl :: int)" "a \<le> b"
  shows "concat (map (\<lambda>i. [i * pl .. i * pl + pl - 1]) [a .. b - 1]) = [a * pl .. b * pl - 1]"
  using assms(2)
proof (induction b rule: int_ge_induct)
  case (step b)
  have "[a .. b] = [a .. b - 1] @ [b]" using step.hyps by (simp add: upto_rec2)
  moreover have "[a * pl .. (b + 1) * pl - 1] = [a * pl .. b * pl - 1] @ [b * pl .. b * pl + pl - 1]"
    using step.hyps assms(1) upto_split1 [of "a * pl" "b * pl" "b * pl + pl - 1"] by (simp add: algebra_simps mult_left_mono)
  ultimately show ?case using step.IH by simp
qed simp

text \<open>The parts of the bytes from \<open>s\<close> up to \<open>e\<close>.\<close>

definition parts_between :: "int \<Rightarrow> int \<Rightarrow> int \<Rightarrow> file_piece list" where
  "parts_between pl s e =
     (if s div pl = e div pl
     then [\<lparr>fp_Index = of_int (s div pl), fp_Offset = of_int (s mod pl), fp_Length = of_int (e mod pl - s mod pl)\<rparr>]
     else \<lparr>fp_Index = of_int (s div pl), fp_Offset = of_int (s mod pl), fp_Length = of_int (pl - s mod pl)\<rparr> #
       map (\<lambda>i. \<lparr>fp_Index = of_int i, fp_Offset = 0, fp_Length = of_int pl\<rparr>) [s div pl + 1 .. e div pl - 1] @
       [\<lparr>fp_Index = of_int (e div pl), fp_Offset = 0, fp_Length = of_int (e mod pl)\<rparr>])"

lemma FilePieces_nth:
  fixes info i
  defines "fs \<equiv> AllFiles info" and "pl \<equiv> in_PieceLength info"
  defines "s \<equiv> starts_at fs i"
  defines "e \<equiv> s + fl_Length (fs ! i)"
  assumes "wf_files fs" "distinct (map (\<lambda>f. File_Path f info) fs)" "i < length fs" "1 \<le> fl_Length (fs ! i)" "0 < pl"
    "size_of fs < pl * 2 ^ 32"
  shows "0 \<le> s \<and> s < e \<and> e < 2 ^ 63 \<and> e div pl < 2 ^ 32 \<and> FilePieces (fs ! i) info = Some (parts_between pl s e)"
proof -
  have fs: "list_all (\<lambda>f. 0 \<le> fl_Length f) fs" "size_of fs < 2 ^ 63" using assms(5) by (auto simp: wf_files_def)
  have s: "0 \<le> s" using starts_at_nonneg [OF fs(1)] by (simp add: s_def)
  have e: "s < e" "e \<le> size_of fs"
    using assms(7,8) starts_at_Suc [of i fs] starts_at_le [OF fs(1), of "Suc i"] by (auto simp: e_def s_def)
  have o: "File_Offset (fs ! i) info = Some s"
    using offset_from_nth [OF assms(5-7), of 0] fs(2) by (simp add: File_Offset_def fs_def s_def)
  have b: "0 \<le> s div pl" "s div pl \<le> e div pl" "e div pl \<le> e" "0 \<le> s mod pl" "s mod pl < pl" "0 \<le> e mod pl" "e mod pl < pl"
    using s e assms(9) zdiv_mono2 [of e 1 pl] by (simp_all add: zdiv_mono1 pos_imp_zdiv_nonneg_iff)
  have p: "i64 (pl - s mod pl) = pl - s mod pl" if "s div pl \<noteq> e div pl"
  proof -
    have "pl \<le> e" using that s e assms(9) by (metis b(2) div_pos_pos_trivial not_le order.strict_trans)
    then show ?thesis using b e fs(2) by (intro i64_small) linarith+
  qed
  have m: "i64 (e mod pl - s mod pl) = e mod pl - s mod pl"
  proof -
    have "s mod pl \<le> s" "e mod pl \<le> e" using s e assms(9) by (simp_all add: zmod_le_nonneg_dividend)
    then show ?thesis using b s e fs(2) by (intro i64_small) linarith+
  qed
  have w: "i64 e = e" "i64 (s div pl) = s div pl" "i64 (e div pl) = e div pl" "i64 (e div pl - s div pl) = e div pl - s div pl"
    using s e b fs(2) by (intro i64_small; linarith)+
  have "pl * (e div pl) < pl * 2 ^ 32" using e(2) assms(10) b(6) mult_div_mod_eq [of pl e] by linarith
  then have d: "e div pl < 2 ^ 32" using assms(9) by (simp only: mult_less_cancel_left_pos)
  then have c: "\<not> i64 (e div pl - s div pl + 1) < 0"
    using b i64_small [of "e div pl - s div pl + 1"] by simp
  have "FilePieces (fs ! i) info = Some (parts_between pl s e)"
    using assms(8,9) s e unfolding FilePieces_def o
    by (simp add: Let_def e_def [symmetric] pl_def [symmetric] sdiv_nonneg w m p c parts_between_def)
  then show ?thesis using s e d fs(2) by simp
qed

lemma spans_join: "a \<le> b \<Longrightarrow> b \<le> c \<Longrightarrow> c \<le> e \<Longrightarrow> [a .. e - 1] = [a .. b - 1] @ [b .. c - 1] @ [c .. e - (1 :: int)]"
  by (cases "c = e"; cases "b = e") (auto simp: upto_split1 [of b c "e - 1"] upto_split1 [of a b "e - 1"])

definition parts_ok :: "int \<Rightarrow> int \<Rightarrow> int \<Rightarrow> bool" where
  "parts_ok pl s e \<longleftrightarrow> concat (map (cover pl) (parts_between pl s e)) = [s .. e - 1] \<and>
     list_all (\<lambda>fp. uint (fp_Offset fp) + uint (fp_Length fp) \<le> pl) (parts_between pl s e) \<and>
     (fp_Length (last (parts_between pl s e)) = 0 \<longleftrightarrow> pl dvd e)"

lemma part_alone:
  assumes "0 \<le> s" "s < e" "e < 2 ^ 63" "e div pl < 2 ^ 32" "0 < pl" "pl < 2 ^ 32" "s div pl = e div pl"
  shows "parts_ok pl s e"
proof -
  let ?l = "e mod pl - s mod pl"
  have b: "0 \<le> s div pl" "0 \<le> s mod pl" "s mod pl < pl" "e mod pl < pl" using assms by (simp_all add: pos_imp_zdiv_nonneg_iff)
  have m: "e div pl * pl + s mod pl = s" "e div pl * pl + e mod pl = e"
    using div_mult_mod_eq [of s pl] div_mult_mod_eq [of e pl] unfolding assms(7) by simp_all
  then have l: "0 < ?l" using assms(2) by linarith
  have u: "uint (of_int ?l :: u32) = ?l" "uint (of_int (s mod pl) :: u32) = s mod pl" by (rule u32_small; use assms b l in linarith)+
  have "cover pl \<lparr>fp_Index = of_int (e div pl), fp_Offset = of_int (s mod pl), fp_Length = of_int ?l\<rparr> =
      [e div pl * pl + s mod pl .. e div pl * pl + s mod pl + ?l - 1]"
    by (rule cover_part) (use assms b l m in linarith)+
  moreover have "e div pl * pl + s mod pl + ?l - 1 = e - 1" using m(2) by linarith
  ultimately have c: "cover pl \<lparr>fp_Index = of_int (e div pl), fp_Offset = of_int (s mod pl), fp_Length = of_int ?l\<rparr> = [s .. e - 1]"
    using m(1) by metis
  have n: "(of_int ?l :: u32) \<noteq> 0" using u(1) l by (metis less_irrefl unsigned_0)
  have "\<not> pl dvd e" using l b(2) by (simp add: dvd_eq_mod_eq_0)
  then show ?thesis using c n u b(4) by (simp add: parts_ok_def parts_between_def assms(7) del: of_int_diff)
qed

lemma parts_many:
  assumes "0 \<le> s" "s < e" "e < 2 ^ 63" "e div pl < 2 ^ 32" "0 < pl" "pl < 2 ^ 32" "s div pl \<noteq> e div pl"
  shows "parts_ok pl s e"
proof -
  have b: "0 \<le> s div pl" "s div pl \<le> e div pl" "0 \<le> s mod pl" "s mod pl < pl" "0 \<le> e mod pl" "e mod pl < pl"
    using assms by (simp_all add: zdiv_mono1 pos_imp_zdiv_nonneg_iff)
  have m: "s div pl * pl + s mod pl = s" "e div pl * pl + e mod pl = e" by simp_all
  have lt: "s div pl + 1 \<le> e div pl" using assms(7) b by linarith
  have le: "i * pl < 2 ^ 63" if "i \<le> e div pl" for i using mult_right_mono [OF that, of pl] assms m(2) b(5) by linarith
  have "cover pl \<lparr>fp_Index = of_int (s div pl), fp_Offset = of_int (s mod pl), fp_Length = of_int (pl - s mod pl)\<rparr> =
      [s div pl * pl + s mod pl .. s div pl * pl + s mod pl + (pl - s mod pl) - 1]"
    by (rule cover_part) (use b assms m in linarith)+
  moreover have "s div pl * pl + s mod pl + (pl - s mod pl) = (s div pl + 1) * pl" by (simp add: algebra_simps)
  ultimately have c1: "cover pl \<lparr>fp_Index = of_int (s div pl), fp_Offset = of_int (s mod pl), fp_Length = of_int (pl - s mod pl)\<rparr> =
      [s .. (s div pl + 1) * pl - 1]" using m(1) by metis
  have "map (\<lambda>i. cover pl \<lparr>fp_Index = of_int i, fp_Offset = 0, fp_Length = of_int pl\<rparr>) [s div pl + 1 .. e div pl - 1] =
      map (\<lambda>i. [i * pl .. i * pl + pl - 1]) [s div pl + 1 .. e div pl - 1]"
    using cover_part [of _ 0 pl pl] le b assms by (intro map_cong refl) simp
  then have c2: "concat (map (\<lambda>i. cover pl \<lparr>fp_Index = of_int i, fp_Offset = 0, fp_Length = of_int pl\<rparr>) [s div pl + 1 .. e div pl - 1]) =
      [(s div pl + 1) * pl .. e div pl * pl - 1]"
    unfolding upto_whole [OF assms(5) lt, symmetric] by (rule arg_cong)
  have c3: "cover pl \<lparr>fp_Index = of_int (e div pl), fp_Offset = 0, fp_Length = of_int (e mod pl)\<rparr> = [e div pl * pl .. e - 1]"
    using cover_part [of "e div pl" 0 "e mod pl" pl] le [of "e div pl"] b assms m(2) order.strict_trans [OF b(6) assms(6)] by simp
  have "s \<le> (s div pl + 1) * pl" using m(1) b(4) unfolding distrib_right by linarith
  moreover have "(s div pl + 1) * pl \<le> e div pl * pl" using lt assms(5) by (intro mult_right_mono) simp_all
  ultimately have "[s .. e - 1] = [s .. (s div pl + 1) * pl - 1] @ [(s div pl + 1) * pl .. e div pl * pl - 1] @ [e div pl * pl .. e - 1]"
    using spans_join [of s "(s div pl + 1) * pl" "e div pl * pl" e] m(2) b(5) by linarith
  moreover have u: "uint (of_int pl :: u32) = pl" "uint (of_int (s mod pl) :: u32) = s mod pl" "uint (of_int (e mod pl) :: u32) = e mod pl"
    "uint (of_int (pl - s mod pl) :: u32) = pl - s mod pl"
    by (rule u32_small; use b assms in linarith)+
  moreover have "of_int (e mod pl) = (0 :: u32) \<longleftrightarrow> pl dvd e" using u(3) by (metis dvd_eq_mod_eq_0 of_int_0 unsigned_0)
  ultimately show ?thesis
    using assms(7) b lt c1 c2 c3 by (simp add: parts_ok_def parts_between_def list_all_iff comp_def del: of_int_diff)
qed

text \<open>C19: \<^verbatim>\<open>FilePieces\<close> cuts a file into parts that follow one another without gap or overlap: together they cover
  exactly the bytes of the file in the torrent, and no part goes over the end of its piece. When the end
  of the file is the end of a piece, the last part is empty, and only then.\<close>

theorem file_pieces_cover:
  assumes "wf_files (AllFiles info)" "distinct (map (\<lambda>f. File_Path f info) (AllFiles info))" "i < length (AllFiles info)"
    "1 \<le> fl_Length (AllFiles info ! i)" "0 < in_PieceLength info" "in_PieceLength info < 2 ^ 32"
    "TotalLength info < in_PieceLength info * 2 ^ 32"
  shows "\<exists>fps. FilePieces (AllFiles info ! i) info = Some fps \<and>
    concat (map (cover (in_PieceLength info)) fps) =
      [starts_at (AllFiles info) i .. starts_at (AllFiles info) i + fl_Length (AllFiles info ! i) - 1] \<and>
    list_all (\<lambda>fp. uint (fp_Offset fp) + uint (fp_Length fp) \<le> in_PieceLength info) fps \<and>
    (fp_Length (last fps) = 0 \<longleftrightarrow> in_PieceLength info dvd starts_at (AllFiles info) i + fl_Length (AllFiles info ! i))"
proof -
  let ?fs = "AllFiles info" and ?pl = "in_PieceLength info"
  let ?s = "starts_at ?fs i" and ?e = "starts_at ?fs i + fl_Length (?fs ! i)"
  have "size_of ?fs < ?pl * 2 ^ 32" using assms(7) TotalLength_eq [OF assms(1)] by simp
  note F = FilePieces_nth [OF assms(1-5) this]
  then have "parts_ok ?pl ?s ?e"
    using part_alone [of ?s ?e ?pl] parts_many [of ?s ?e ?pl] assms(5,6) by blast
  then show ?thesis using F by (auto simp: parts_ok_def)
qed

definition example_info :: info where
  "example_info = \<lparr>in_Name = ascii ''t'', in_PieceLength = 4, in_Pieces = [], in_Length = 0,
     in_Files = [\<lparr>fl_Length = 5, fl_Paths = [ascii ''a'']\<rparr>, \<lparr>fl_Length = 3, fl_Paths = [ascii ''d'', ascii ''b'']\<rparr>]\<rparr>"

lemma example_info_files: "AllFiles example_info = in_Files example_info" "wf_files (in_Files example_info)"
  "distinct (map (\<lambda>f. File_Path f example_info) (in_Files example_info))" "TotalLength example_info = 8" "in_PieceLength example_info = 4"
  by (simp add: AllFiles_def IsDir_def example_info_def, simp add: wf_files_def example_info_def) code_simp+

theorem file_pieces_cover_witness:
  "\<exists>fps. FilePieces (in_Files example_info ! 1) example_info = Some fps \<and> concat (map (cover 4) fps) = [5 .. 7] \<and>
    fp_Length (last fps) = 0"
  using file_pieces_cover [of example_info 1] unfolding example_info_files(1,4,5)
  by (simp add: example_info_files(2,3)) (simp add: example_info_def, blast)

lemma blocks_from_cover:
  assumes "uint offset + uint rest \<le> 2 ^ 32"
  shows "concat (map (\<lambda>b. [uint (pb_Offset b) .. uint (pb_Offset b) + uint (pb_Length b) - 1]) (blocks_from index offset rest)) =
      [uint offset .. uint offset + uint rest - 1] \<and>
    list_all (\<lambda>b. pb_Index b = index \<and> 0 < pb_Length b \<and> pb_Length b \<le> 16384) (blocks_from index offset rest) \<and>
    list_all (\<lambda>b. pb_Length b = 16384) (butlast (blocks_from index offset rest))"
  using assms
proof (induction index offset rest rule: blocks_from.induct)
  case (1 index offset rest)
  define len where "len = (if rest < 16384 then rest else 16384)"
  show ?case
  proof (cases "rest > 0")
    case True
    have l: "0 < len" "len \<le> rest" "len \<le> 16384" using True by (auto simp: len_def not_less)
    have r: "uint (rest - len) = uint rest - uint len" using l(2) by (simp add: uint_minus_simple_alt)
    have e: "blocks_from index offset rest = \<lparr>pb_Index = index, pb_Offset = offset, pb_Length = len\<rparr> # blocks_from index (offset + len) (rest - len)"
      using True by (subst blocks_from.simps) (simp add: len_def)
    show ?thesis
    proof (cases "rest = len")
      case True
      then have n: "blocks_from index (offset + len) (rest - len) = []" by (subst blocks_from.simps) simp
      show ?thesis unfolding e n using True l by simp
    next
      case False
      then have "len < rest" using l(2) by simp
      then have n: "uint len < uint rest" "len = 16384" by (simp add: word_less_def) (use \<open>len < rest\<close> in \<open>simp add: len_def split: if_splits\<close>)
      have o: "uint (offset + len) = uint offset + uint len" using 1(2) n(1) uint_add_lem [of offset len] by simp
      have "[uint offset .. uint offset + uint rest - 1] = [uint offset .. uint offset + uint len - 1] @ [uint offset + uint len .. uint offset + uint rest - 1]"
        using upto_split1 [of "uint offset" "uint offset + uint len" "uint offset + uint rest - 1"] n(1) by simp
      then show ?thesis unfolding e using 1(1) [OF True len_def] 1(2) l o r n(2) by (auto simp: list_all_iff)
    qed
  next
    case False
    then have "rest = 0" by (simp add: word_neq_0_conv [symmetric])
    then show ?thesis by (simp add: blocks_from.simps)
  qed
qed

text \<open>C30: \<^verbatim>\<open>Blocks\<close> cuts a part of a piece into blocks that follow one another and cover exactly that part; every
  block has at most 16 KiB and at least one byte, and every one but the last has 16 KiB.\<close>

theorem blocks_partition:
  assumes "uint (fp_Offset fp) + uint (fp_Length fp) \<le> 2 ^ 32"
  shows "concat (map (\<lambda>b. [uint (pb_Offset b) .. uint (pb_Offset b) + uint (pb_Length b) - 1]) (FilePiece_Blocks fp)) =
      [uint (fp_Offset fp) .. uint (fp_Offset fp) + uint (fp_Length fp) - 1] \<and>
    list_all (\<lambda>b. pb_Index b = fp_Index fp \<and> 0 < pb_Length b \<and> pb_Length b \<le> 16384) (FilePiece_Blocks fp) \<and>
    list_all (\<lambda>b. pb_Length b = 16384) (butlast (FilePiece_Blocks fp))"
  unfolding FilePiece_Blocks_def by (rule blocks_from_cover [OF assms])

theorem blocks_partition_witness:
  "list_all (\<lambda>b. pb_Length b = 16384) (butlast (FilePiece_Blocks \<lparr>fp_Index = 1, fp_Offset = 5, fp_Length = 40000\<rparr>))"
  by (rule blocks_partition [THEN conjunct2, THEN conjunct2]) simp

section \<open>Merging parts\<close>

text \<open>The positions of a part, as pairs of the index of the piece and the place in it.\<close>

definition span :: "file_piece \<Rightarrow> (u32 \<times> int) list" where
  "span fp = map (Pair (fp_Index fp)) [uint (fp_Offset fp) .. uint (fp_Offset fp) + uint (fp_Length fp) - 1]"

definition ends_inside :: "file_piece \<Rightarrow> bool" where
  "ends_inside fp \<longleftrightarrow> uint (fp_Offset fp) + uint (fp_Length fp) < 2 ^ 32"

abbreviation spans :: "file_piece list \<Rightarrow> (u32 \<times> int) list" where
  "spans fps \<equiv> concat (map span fps)"

lemma span_joined:
  assumes "uint o' + uint l < 2 ^ 32" "o' + l = fp_Offset fp" "ends_inside fp" "fp_Index fp = i"
  shows "span \<lparr>fp_Index = i, fp_Offset = o', fp_Length = l + fp_Length fp\<rparr> = span \<lparr>fp_Index = i, fp_Offset = o', fp_Length = l\<rparr> @ span fp \<and>
    uint o' + uint (l + fp_Length fp) < 2 ^ 32"
proof -
  have o: "uint (fp_Offset fp) = uint o' + uint l" using assms(1,2) uint_add_lem [of o' l] by auto
  then have s: "uint o' + uint l + uint (fp_Length fp) < 2 ^ 32" using assms(3) by (simp add: ends_inside_def)
  then have l: "uint (l + fp_Length fp) = uint l + uint (fp_Length fp)"
    using uint_add_lem [of l "fp_Length fp"] order.strict_trans1 [OF _ s, of "uint l + uint (fp_Length fp)"] by simp
  have "[uint o' .. uint o' + uint l + uint (fp_Length fp) - 1] = [uint o' .. uint o' + uint l - 1] @ [uint o' + uint l .. uint o' + uint l + uint (fp_Length fp) - 1]"
    using spans_join [of "uint o'" "uint o' + uint l" "uint o' + uint l + uint (fp_Length fp)" "uint o' + uint l + uint (fp_Length fp)"] by simp
  then show ?thesis using o s l assms(4) by (simp add: span_def add.assoc)
qed

lemma merge_run_spans:
  assumes "list_all (\<lambda>fp. fp_Index fp = i \<and> ends_inside fp) fps" "uint o' + uint l < 2 ^ 32"
  shows "spans (merge_run i o' l fps) = span \<lparr>fp_Index = i, fp_Offset = o', fp_Length = l\<rparr> @ spans fps"
  using assms
proof (induction i o' l fps rule: merge_run.induct)
  case (2 i o' l fp fps)
  have fp: "fp_Index fp = i" "ends_inside fp" using 2(3) by simp_all
  show ?case
  proof (cases "o' + l = fp_Offset fp")
    case True
    then show ?thesis using span_joined [OF 2(4) True fp(2,1)] 2(1) [OF True] 2(3) by simp
  next
    case False
    then show ?thesis using 2(2) [OF False] 2(3) fp by (simp add: ends_inside_def) (cases fp; simp)
  qed
qed simp

lemma merge_parts_spans:
  "list_all (\<lambda>fp. fp_Index fp = i \<and> ends_inside fp) cur \<Longrightarrow> spans (merge_parts cur results) = spans results @ spans cur"
proof (cases cur)
  case (Cons fp fps)
  assume "list_all (\<lambda>fp. fp_Index fp = i \<and> ends_inside fp) cur"
  then show ?thesis using Cons merge_run_spans [of i fps "fp_Offset fp" "fp_Length fp"]
    by (cases fps; cases fp) (auto simp: merge_parts_def ends_inside_def)
qed (simp add: merge_parts_def)

lemma merge_loop_spans:
  assumes "list_all (\<lambda>fp. fp_Index fp = i \<and> ends_inside fp) cur" "list_all ends_inside fps"
  shows "spans (merge_loop i cur results fps) = spans results @ spans cur @ spans fps"
  using assms
proof (induction i cur results fps rule: merge_loop.induct)
  case (1 i cur results)
  then show ?case by (simp add: merge_parts_spans)
next
  case (2 i cur results fp fps)
  then show ?case by (cases "fp_Index fp = i") (simp_all add: merge_parts_spans)
qed

text \<open>No part ends where the next one of the same piece begins.\<close>

definition separate :: "file_piece list \<Rightarrow> bool" where
  "separate = successively (\<lambda>p q. fp_Index p = fp_Index q \<longrightarrow> fp_Offset p + fp_Length p \<noteq> fp_Offset q)"

lemma merge_run_separate:
  "merge_run i o' l fps \<noteq> [] \<and> fp_Offset (hd (merge_run i o' l fps)) = o' \<and> list_all (\<lambda>fp. fp_Index fp = i) (merge_run i o' l fps) \<and>
    separate (merge_run i o' l fps)"
proof (induction i o' l fps rule: merge_run.induct)
  case (2 i o' l fp fps)
  then show ?case by (cases "merge_run i (fp_Offset fp) (fp_Length fp) fps") (auto simp: separate_def)
qed (simp add: separate_def)

lemma merge_parts_separate:
  assumes "list_all (\<lambda>fp. fp_Index fp = i) cur" "separate results" "results \<noteq> [] \<longrightarrow> fp_Index (last results) \<noteq> i"
  shows "separate (merge_parts cur results) \<and> (cur \<noteq> [] \<longrightarrow> merge_parts cur results \<noteq> [] \<and> fp_Index (last (merge_parts cur results)) = i)"
proof (cases cur rule: remdups_adj.cases)
  case (3 fp g fps)
  let ?m = "merge_run i (fp_Offset fp) (fp_Length fp) (g # fps)"
  have m: "?m \<noteq> []" "list_all (\<lambda>fp. fp_Index fp = i) ?m" "separate ?m" using merge_run_separate by blast+
  then have "fp_Index (hd ?m) = i" "fp_Index (last ?m) = i" by (simp_all add: list_all_iff)
  moreover have "merge_parts cur results = results @ ?m" using assms(1) 3 by (simp add: merge_parts_def)
  ultimately show ?thesis using m(1,3) assms(2,3) by (auto simp: separate_def successively_append_iff)
qed (use assms in \<open>auto simp: merge_parts_def separate_def successively_append_iff\<close>)

lemma merge_loop_separate:
  assumes "list_all (\<lambda>fp. fp_Index fp = i) cur" "separate results" "results \<noteq> [] \<longrightarrow> fp_Index (last results) \<noteq> i"
    "cur = [] \<longrightarrow> results = []"
  shows "separate (merge_loop i cur results fps)"
  using assms
proof (induction i cur results fps rule: merge_loop.induct)
  case (1 i cur results)
  then show ?case using merge_parts_separate [OF 1(1-3)] by simp
next
  case (2 i cur results fp fps)
  show ?case
  proof (cases "fp_Index fp = i")
    case False
    then show ?thesis using 2(1,6) merge_parts_separate [OF 2(3-5)] by (auto simp: merge_parts_def)
  qed (use 2 in simp)
qed

text \<open>C29: \<^verbatim>\<open>Merge\<close> loses nothing and adds nothing: the positions that the merged parts stand for are those of the
  given parts in the order of pieces and offsets, each as often as it was given; and in the result no
  part ends where the next one begins, so that there is nothing left to merge.\<close>

theorem merge_keeps_positions:
  assumes "list_all ends_inside fps"
  shows "spans (FilePieces_Merge fps) = spans (sort_key (\<lambda>fp. (fp_Index fp, fp_Offset fp)) fps) \<and> separate (FilePieces_Merge fps)"
proof (cases "length fps < 2")
  case True
  then show ?thesis by (cases fps) (auto simp: FilePieces_Merge_def separate_def)
next
  case False
  let ?s = "sort_key (\<lambda>fp. (fp_Index fp, fp_Offset fp)) fps"
  have "list_all ends_inside ?s" using assms by (simp add: list_all_iff)
  then show ?thesis
    using False merge_loop_spans [of "fp_Index (hd ?s)" "[]" ?s "[]"] merge_loop_separate [of "fp_Index (hd ?s)" "[]" "[]" ?s]
    by (simp add: FilePieces_Merge_def Let_def separate_def)
qed

theorem merge_keeps_positions_witness:
  "separate (FilePieces_Merge [\<lparr>fp_Index = 1, fp_Offset = 4, fp_Length = 2\<rparr>, \<lparr>fp_Index = 1, fp_Offset = 0, fp_Length = 4\<rparr>])"
  by (rule merge_keeps_positions [THEN conjunct2]) (simp add: ends_inside_def)

section \<open>The hashes of the pieces\<close>

function cut_up :: "nat \<Rightarrow> bytes \<Rightarrow> bytes list" where
  "cut_up n d = (if n = 0 \<or> d = [] then [] else take n d # cut_up n (drop n d))"
  by pat_completeness auto
termination
  by (relation "measure (\<lambda>(n, d). length d)") auto

declare cut_up.simps [simp del]

lemma cut_up_Nil [simp]: "cut_up n [] = []"
  by (simp add: cut_up.simps)

lemma cut_up_nth: "0 < n \<Longrightarrow> length (cut_up n d) = (length d + n - 1) div n \<and> (\<forall>i < length (cut_up n d). cut_up n d ! i = take n (drop (i * n) d))"
proof (induction n d rule: cut_up.induct)
  case (1 n d)
  show ?case
  proof (cases "d = []")
    case False
    then have e: "cut_up n d = take n d # cut_up n (drop n d)" using 1(2) by (simp add: cut_up.simps)
    have IH: "length (cut_up n (drop n d)) = (length d - n + n - 1) div n"
      "\<forall>i < length (cut_up n (drop n d)). cut_up n (drop n d) ! i = take n (drop (i * n) (drop n d))"
      using 1(1) [OF _ 1(2)] 1(2) False by auto
    have l: "(length d + n - 1) div n = Suc ((length d - n + n - 1) div n)"
    proof (cases "n \<le> length d")
      case True
      then show ?thesis using 1(2) div_add_self2 [of n "length d - 1"] by (simp add: add.commute)
    next
      case False
      then show ?thesis using 1(2) \<open>d \<noteq> []\<close> by (cases d) (auto simp: div_nat_eqI)
    qed
    show ?thesis
    proof (intro conjI allI impI)
      fix i assume "i < length (cut_up n d)"
      then show "cut_up n d ! i = take n (drop (i * n) d)" using IH(2) by (cases i) (auto simp: e add.commute)
    qed (use e l IH(1) in simp)
  qed (use 1(2) in simp)
qed

lemma sha1_hash [simp]: "NewHash (sha1 b) = Inr (sha1 b)"
  by (simp add: NewHash_def HashSize_def length_sha1)

lemma generated:
  assumes "0 < pl"
  shows "generate_loop pl (d, e) hs =
    Some (case e of None \<Rightarrow> Inr (hs @ map sha1 (cut_up (nat pl) d)) | Some m \<Rightarrow> Inl (CopyFailed m))"
proof (induction "length d" arbitrary: d hs rule: less_induct)
  case less
  show ?case
  proof (cases "nat pl \<le> length d")
    case True
    then have "d \<noteq> []" using assms by auto
    have c: "CopyNBuffer (d, e) pl = (take (nat pl) d, None, (drop (nat pl) d, e))"
      using True assms by (simp add: CopyNBuffer_def Let_def min_absorb2)
    have "cut_up (nat pl) d = take (nat pl) d # cut_up (nat pl) (drop (nat pl) d)" using \<open>d \<noteq> []\<close> assms by (subst cut_up.simps) simp
    then show ?thesis using less [of "drop (nat pl) d" "hs @ [sha1 (take (nat pl) d)]"] c True assms \<open>d \<noteq> []\<close>
      by (subst generate_loop.simps) (auto split: option.splits)
  next
    case False
    have "cut_up (nat pl) d = (if d = [] then [] else [d])" using False assms by (subst cut_up.simps) (auto simp: cut_up.simps)
    moreover have "CopyNBuffer (d, e) pl = (d, Some (case e of None \<Rightarrow> CopyEOF | Some m \<Rightarrow> CopyFailed m), ([], e))"
      using False assms by (auto simp: CopyNBuffer_def Let_def)
    ultimately show ?thesis by (subst generate_loop.simps) (auto split: option.splits)
  qed
qed

text \<open>The bytes of the files, one after the other.\<close>

definition files_data :: "(tfile \<Rightarrow> bytes + data_reader) \<Rightarrow> tfile list \<Rightarrow> bytes" where
  "files_data open' fs = concat (map (\<lambda>f. case open' f of Inl _ \<Rightarrow> [] | Inr (d, _) \<Rightarrow> take (nat (fl_Length f)) d) fs)"

lemma files_data_simps:
  "files_data open' [] = []"
  "files_data open' (f # fs) = (case open' f of Inl _ \<Rightarrow> [] | Inr (d, _) \<Rightarrow> take (nat (fl_Length f)) d) @ files_data open' fs"
  by (simp_all add: files_data_def)

lemma writeFiles_whole:
  assumes "writeFiles fs open' = (d, None)"
  shows "d = files_data open' fs \<and> int (length d) = size_of fs \<and> list_all (\<lambda>f. 0 \<le> fl_Length f) fs"
  using assms
proof (induction fs arbitrary: d)
  case (Cons f fs)
  obtain c e where o: "open' f = Inr (c, e)" using Cons.prems by (auto split: sum.splits)
  obtain out err r where b: "CopyNBuffer (c, e) (fl_Length f) = (out, err, r)" by (cases "CopyNBuffer (c, e) (fl_Length f)")
  have out: "out = take (nat (fl_Length f)) c" using b by (auto simp: CopyNBuffer_def Let_def split: if_splits)
  obtain d' where w: "writeFiles fs open' = (d', None)" "d = out @ d'" "int (length out) = fl_Length f"
    using Cons.prems by (auto simp: o b split: if_splits prod.splits)
  then have "0 \<le> fl_Length f" by (metis of_nat_0_le_iff)
  then show ?case using Cons.IH [OF w(1)] w(2,3) out by (auto simp: files_data_simps o)
qed (simp add: files_data_simps)

lemma AllFiles_cong: "in_Files a = in_Files b \<Longrightarrow> in_Length a = in_Length b \<Longrightarrow> AllFiles a = AllFiles b"
  by (simp add: AllFiles_def IsDir_def)

lemma new_info_data:
  assumes "NewInfoFromFilePath F root pl = Some (Inr info)"
  shows "0 < pl \<and> in_PieceLength info = pl \<and> list_all (\<lambda>f. 0 \<le> fl_Length f) (AllFiles info) \<and>
    int (length (files_data (open_below F (Clean root)) (AllFiles info))) = size_of (AllFiles info) \<and>
    in_Pieces info = map sha1 (cut_up (nat pl) (files_data (open_below F (Clean root)) (AllFiles info)))"
proof -
  let ?open = "open_below F (Clean root)"
  obtain info1 hs where i: "GeneratePiecesFromFiles (AllFiles info1) pl ?open = Some (Inr hs)"
    "info = info1\<lparr>in_Pieces := hs, in_Name := Base (Clean root), in_PieceLength := pl\<rparr>"
    using assms by (auto simp: NewInfoFromFilePath_def Let_def bind_eq_Some_conv split: sum.splits stat.splits)
  have pl: "0 < pl" using i(1) by (auto simp: GeneratePiecesFromFiles_def split: if_splits)
  obtain d e where w: "writeFiles (AllFiles info1) ?open = (d, e)" by (cases "writeFiles (AllFiles info1) ?open")
  have "e = None" "hs = map sha1 (cut_up (nat pl) d)"
    using i(1) pl generated [OF pl, of d e "[]"] w
    by (auto simp: GeneratePiecesFromFiles_def GeneratePieces_def split: option.splits)
  moreover have "AllFiles info = AllFiles info1" using i(2) by (intro AllFiles_cong) simp_all
  ultimately show ?thesis using pl i(2) writeFiles_whole [of "AllFiles info1" ?open d] w by auto
qed

lemma piece_bounds:
  assumes "0 < n" "i < (l + n - 1) div n"
  shows "i * n < l" "Suc i \<noteq> (l + n - 1) div n \<Longrightarrow> i * n + n \<le> l" "Suc i = (l + n - 1) div n \<Longrightarrow> l \<le> i * n + n"
proof -
  have "Suc i * n \<le> l + n - 1" using assms by (simp add: less_eq_div_iff_mult_less_eq flip: Suc_le_eq)
  then show "i * n < l" using assms(1) by simp
  show "i * n + n \<le> l" if "Suc i \<noteq> (l + n - 1) div n"
  proof -
    have "Suc (Suc i) \<le> (l + n - 1) div n" using that assms(2) by simp
    then have "Suc (Suc i) * n \<le> l + n - 1" using assms(1) by (simp add: less_eq_div_iff_mult_less_eq)
    then show ?thesis by simp
  qed
  show "l \<le> i * n + n" if "Suc i = (l + n - 1) div n"
    using dividend_less_times_div [OF assms(1), of "l + n - 1"] assms(1) that [symmetric] by (simp add: algebra_simps)
qed

lemma take_min_length: "take (min n (length xs - k)) (drop k xs) = take n (drop k xs)"
  by (simp add: min_def)

text \<open>The pieces of a torrent made from the file system are right. The files are concatenated in their order;
  there are as many pieces as it takes to cover them, the offset of a piece and its length, that of the
  last one included, lie inside of this data, and its hash is the SHA-1 of the data there.\<close>

lemma new_info_pieces:
  assumes "NewInfoFromFilePath F root pl = Some (Inr info)" "size_of (AllFiles info) < 2 ^ 63" "i < length (in_Pieces info)"
  shows "\<exists>p d. d = files_data (open_below F (Clean root)) (AllFiles info) \<and> Info_Piece info (int i) = Some p \<and>
    int (length d) = TotalLength info \<and> Piece_Offset p = int i * pl \<and> 0 < Piece_Length p \<and> Piece_Length p \<le> pl \<and>
    Piece_Offset p + Piece_Length p = min ((int i + 1) * pl) (TotalLength info) \<and>
    Piece_Hash p = Some (sha1 (take (nat (Piece_Length p)) (drop (nat (Piece_Offset p)) d)))"
proof -
  define d n where d: "d = files_data (open_below F (Clean root)) (AllFiles info)" and n: "n = nat pl"
  note N = new_info_data [OF assms(1), folded d]
  have pl: "0 < n" "pl = int n" using N by (simp_all add: n)
  have t: "TotalLength info = int (length d)" using N assms(2) TotalLength_eq [of info] by (simp add: wf_files_def)
  have c: "length (cut_up n d) = (length d + n - 1) div n" "\<forall>i < length (cut_up n d). cut_up n d ! i = take n (drop (i * n) d)"
    using cut_up_nth [OF pl(1)] by auto
  have P: "in_Pieces info = map sha1 (cut_up n d)" "in_PieceLength info = int n" using N by (simp_all add: n)
  have i: "i < length (cut_up n d)" using P(1) assms(3) by simp
  let ?p = "\<lparr>p_info = info, p_index = int i\<rparr>"
  note b = piece_bounds [OF pl(1) i [unfolded c(1)]]
  have w: "i64 (int (i * n)) = int (i * n)" "i64 (int (length d) - int (i * n)) = int (length d) - int (i * n)"
    by (rule i64_small; use b(1) t assms(2) N in linarith)+
  have o: "Piece_Offset ?p = int (i * n)" using w(1) by (simp add: Piece_Offset_def P(2))
  have l: "Piece_Length ?p = int (min n (length d - i * n))"
  proof (cases "Suc i = length (cut_up n d)")
    case True
    then have "Piece_Length ?p = int (length d) - int (i * n)" using w by (simp add: Piece_Length_def CountPieces_def P t)
    then show ?thesis using b(1) b(3) [OF True [unfolded c(1)]] by simp
  next
    case False
    then have "Piece_Length ?p = int n" by (simp add: Piece_Length_def CountPieces_def P)
    then show ?thesis using b(2) [OF False [unfolded c(1)]] by simp
  qed
  have "Piece_Hash ?p = Some (sha1 (take n (drop (i * n) d)))" using c(2) i by (simp add: Piece_Hash_def CountPieces_def P)
  moreover have "take (nat (Piece_Length ?p)) (drop (nat (Piece_Offset ?p)) d) = take n (drop (i * n) d)"
    unfolding o l nat_int by (rule take_min_length)
  moreover have "Piece_Offset ?p + Piece_Length ?p = min ((int i + 1) * pl) (TotalLength info)"
  proof -
    have "i * n + min n (length d - i * n) = min ((i + 1) * n) (length d)" using b(1) by (simp add: min_def algebra_simps) linarith
    then have "int (i * n) + int (min n (length d - i * n)) = int (min ((i + 1) * n) (length d))" by linarith
    then show ?thesis unfolding o l t pl(2) by (simp add: of_nat_min algebra_simps)
  qed
  ultimately show ?thesis
    using o l b(1) pl t assms(3) by (intro exI [of _ ?p] exI [of _ d]) (simp add: d Info_Piece_def min_def)
qed

end
