(* ===== verification/TorrentIO.thy ===== *)
theory TorrentIO
  imports Torrent
begin

text \<open>
  Reading and writing the data of a torrent (\<^verbatim>\<open>metainfo/reader.go\<close>, \<^verbatim>\<open>metainfo/writer.go\<close>). The disk is a map
  from names to contents; which names cannot be opened for writing is a parameter. The names of the open
  files are kept as in the code; modes and \<^verbatim>\<open>Sync\<close> are left out. \<open>None\<close> stands for a panic or a loop
  without an end.
\<close>

section \<open>Files of the operating system\<close>

type_synonym disk = "bytes \<Rightarrow> bytes option"

datatype file_error = FileEOF | FileShortWrite | FileNotExist | FileDenied | FileNegativeOffset

definition content :: "disk \<Rightarrow> bytes \<Rightarrow> bytes" where
  "content d name = (case d name of None \<Rightarrow> [] | Some c \<Rightarrow> c)"

definition os_ReadAt :: "disk \<Rightarrow> bytes \<Rightarrow> nat \<Rightarrow> int \<Rightarrow> bytes \<times> file_error option" where
  "os_ReadAt d name n off =
     (if off < 0 then ([], Some FileNegativeOffset)
      else let b = take n (drop (nat off) (content d name)) in (b, if length b < n then Some FileEOF else None))"

text \<open>What lies between the end of the file and the offset is filled with zeros.\<close>

definition put_at :: "nat \<Rightarrow> bytes \<Rightarrow> bytes \<Rightarrow> bytes" where
  "put_at off b c = take off (c @ replicate (off - length c) 0) @ b @ drop (off + length b) c"

definition os_WriteAt :: "disk \<Rightarrow> bytes \<Rightarrow> bytes \<Rightarrow> int \<Rightarrow> nat \<times> file_error option \<times> disk" where
  "os_WriteAt d name b off =
     (if off < 0 then (0, Some FileNegativeOffset, d)
      else (length b, None, d(name \<mapsto> put_at (nat off) b (content d name))))"

section \<open>The reader\<close>

record treader =
  rd_info :: info
  rd_root :: bytes
  rd_files :: "bytes list"

definition NewReader :: "bytes \<Rightarrow> info \<Rightarrow> treader" where
  "NewReader rootDir info = \<lparr>rd_info = info, rd_root = rootDir, rd_files = []\<rparr>"

definition reader_Close :: "treader \<Rightarrow> treader" where
  "reader_Close r = r\<lparr>rd_files := []\<rparr>"

definition reader_open :: "disk \<Rightarrow> treader \<Rightarrow> bytes \<Rightarrow> file_error option \<times> treader" where
  "reader_open d r filename =
     (if filename \<in> set (rd_files r) then (None, r)
      else case d filename of
             None \<Rightarrow> (Some FileNotExist, r)
           | Some _ \<Rightarrow> (None, r\<lparr>rd_files := filename # rd_files r\<rparr>))"

text \<open>The bytes that were read, of a buffer with \<open>len\<close> of them, and the error.\<close>

partial_function (option) read_loop ::
    "disk \<Rightarrow> treader \<Rightarrow> bytes \<Rightarrow> nat \<Rightarrow> int \<Rightarrow> (bytes \<times> file_error option \<times> treader) option" where
  [code]: "read_loop d r p len offset =
     (if length p < len
      then case GetFileByOffset (rd_info r) offset of
             None \<Rightarrow> None
           | Some (file, fileOffset) \<Rightarrow>
               if fl_Length file = 0 \<or> fl_Length file = fileOffset then Some (p, Some FileEOF, r)
               else let n = int (length p);
                        pend0 = i64 (n + i64 (fl_Length file - fileOffset));
                        pend = (if pend0 > int len then int len else pend0);
                        filename = PathWithPrefix file (rd_root r) (rd_info r)
                    in case reader_open d r filename of
                         (Some e, r1) \<Rightarrow> Some (p, Some e, r1)
                       | (None, r1) \<Rightarrow>
                           if pend < n then None
                           else case os_ReadAt d filename (nat (pend - n)) fileOffset of
                                  (b, Some e) \<Rightarrow> Some (p @ b, Some e, r1)
                                | (b, None) \<Rightarrow> read_loop d r1 (p @ b) len (i64 (offset + int (length b)))
      else Some (p, None, r))"

definition reader_ReadAt :: "disk \<Rightarrow> treader \<Rightarrow> nat \<Rightarrow> int \<Rightarrow> (bytes \<times> file_error option \<times> treader) option" where
  "reader_ReadAt d r len offset = read_loop d r [] len offset"

definition ReadBlock :: "disk \<Rightarrow> treader \<Rightarrow> u32 \<Rightarrow> u32 \<Rightarrow> nat \<Rightarrow> (bytes \<times> file_error option \<times> treader) option" where
  "ReadBlock d r pieceIndex pieceOffset len = reader_ReadAt d r len (PieceOffset (rd_info r) pieceIndex pieceOffset)"

section \<open>The writer\<close>

record twriter =
  wr_info :: info
  wr_root :: bytes
  wr_files :: "bytes list"

definition NewWriter :: "bytes \<Rightarrow> info \<Rightarrow> twriter" where
  "NewWriter rootDir info = \<lparr>wr_info = info, wr_root = rootDir, wr_files = []\<rparr>"

definition writer_Close :: "twriter \<Rightarrow> twriter" where
  "writer_Close w = w\<lparr>wr_files := []\<rparr>"

definition writer_open :: "(bytes \<Rightarrow> bool) \<Rightarrow> disk \<Rightarrow> twriter \<Rightarrow> bytes \<Rightarrow> file_error option \<times> disk \<times> twriter" where
  "writer_open denied d w filename =
     (if filename \<in> set (wr_files w) then (None, d, w)
      else if denied filename then (Some FileDenied, d, w)
      else (None, d(filename \<mapsto> content d filename), w\<lparr>wr_files := filename # wr_files w\<rparr>))"

partial_function (option) write_loop ::
    "(bytes \<Rightarrow> bool) \<Rightarrow> disk \<Rightarrow> twriter \<Rightarrow> bytes \<Rightarrow> nat \<Rightarrow> int \<Rightarrow> (nat \<times> file_error option \<times> disk \<times> twriter) option" where
  [code]: "write_loop denied d w p n offset =
     (if n < length p
      then case GetFileByOffset (wr_info w) offset of
             None \<Rightarrow> None
           | Some (file, fileOffset) \<Rightarrow>
               if fl_Length file = 0 \<or> fl_Length file = fileOffset then Some (n, Some FileShortWrite, d, w)
               else let length0 = i64 (i64 (fl_Length file - fileOffset) + int n)
                    in if \<not> int (length p) < length0 \<and> length0 \<le> int n then Some (n, None, d, w)
                       else let len = (if int (length p) < length0 then int (length p) else length0);
                                filename = PathWithPrefix file (wr_root w) (wr_info w)
                            in case writer_open denied d w filename of
                                 (Some e, d1, w1) \<Rightarrow> Some (n, Some e, d1, w1)
                               | (None, d1, w1) \<Rightarrow>
                                   (case os_WriteAt d1 filename (take (nat len - n) (drop n p)) fileOffset of
                                      (m, Some e, d2) \<Rightarrow> Some (n + m, Some e, d2, w1)
                                    | (m, None, d2) \<Rightarrow> write_loop denied d2 w1 p (n + m) (i64 (offset + int m)))
      else Some (n, None, d, w))"

definition writer_WriteAt ::
    "(bytes \<Rightarrow> bool) \<Rightarrow> disk \<Rightarrow> twriter \<Rightarrow> bytes \<Rightarrow> int \<Rightarrow> (nat \<times> file_error option \<times> disk \<times> twriter) option" where
  "writer_WriteAt denied d w p offset = write_loop denied d w p 0 offset"

definition WriteBlock ::
    "(bytes \<Rightarrow> bool) \<Rightarrow> disk \<Rightarrow> twriter \<Rightarrow> u32 \<Rightarrow> u32 \<Rightarrow> bytes \<Rightarrow> (nat \<times> file_error option \<times> disk \<times> twriter) option" where
  "WriteBlock denied d w pieceIndex pieceOffset p = writer_WriteAt denied d w p (PieceOffset (wr_info w) pieceIndex pieceOffset)"

section \<open>The data of a torrent on the disk\<close>

text \<open>
  The abstract state: one string of bytes, the files one after the other, with zeros for what is not
  there. A write is a splice of it and a read a part of it.
\<close>

definition padded :: "nat \<Rightarrow> bytes \<Rightarrow> bytes" where
  "padded n c = take n (c @ replicate (n - length c) 0)"

abbreviation flen :: "tfile \<Rightarrow> nat" where
  "flen f \<equiv> nat (fl_Length f)"

definition stored :: "bytes \<Rightarrow> info \<Rightarrow> disk \<Rightarrow> bytes" where
  "stored root info d = concat (map (\<lambda>f. padded (flen f) (content d (PathWithPrefix f root info))) (AllFiles info))"

definition splice :: "nat \<Rightarrow> bytes \<Rightarrow> bytes \<Rightarrow> bytes" where
  "splice k b s = take k s @ b @ drop (k + length b) s"

definition nstart :: "info \<Rightarrow> nat \<Rightarrow> nat" where
  "nstart info i = sum_list (map flen (take i (AllFiles info)))"

lemma length_padded [simp]: "length (padded n c) = n"
  by (simp add: padded_def)

lemma nth_padded: "j < n \<Longrightarrow> padded n c ! j = (if j < length c then c ! j else 0)"
  by (simp add: padded_def nth_append)

lemma length_put_at: "length (put_at k b c) = max (length c) (k + length b)"
  by (auto simp: put_at_def)

lemma nth_put_at:
  assumes "j < max (length c) (k + length b)"
  shows "put_at k b c ! j = (if j < k then if j < length c then c ! j else 0 else if j < k + length b then b ! (j - k) else c ! j)"
proof -
  define h where "h = take k (c @ replicate (k - length c) 0)"
  have h: "length h = k" "j < k \<Longrightarrow> h ! j = (if j < length c then c ! j else 0)" by (auto simp: h_def nth_append min_def)
  have "put_at k b c = h @ b @ drop (k + length b) c" by (simp add: put_at_def h_def)
  then show ?thesis using h assms by (auto simp: nth_append not_less)
qed

lemma length_splice: "k + length b \<le> length s \<Longrightarrow> length (splice k b s) = length s"
  by (simp add: splice_def)

lemma nth_splice:
  "k + length b \<le> length s \<Longrightarrow> j < length s \<Longrightarrow>
   splice k b s ! j = (if j < k then s ! j else if j < k + length b then b ! (j - k) else s ! j)"
  by (auto simp: splice_def nth_append not_less)

lemma padded_put_at: "k + length b \<le> n \<Longrightarrow> padded n (put_at k b c) = splice k b (padded n c)"
  by (rule nth_equalityI) (auto simp: length_splice nth_padded nth_splice nth_put_at length_put_at)

lemma splice_splice:
  "k + length b + length b' \<le> length s \<Longrightarrow> splice (k + length b) b' (splice k b s) = splice k (b @ b') s"
  by (rule nth_equalityI) (auto simp: length_splice nth_splice nth_append)

lemma splice_nothing [simp]: "splice k [] s = s"
  by (simp add: splice_def)

lemma splice_inside: "k + length b \<le> length y \<Longrightarrow> splice (length x + k) b (x @ y @ z) = x @ splice k b y @ z"
  by (simp add: splice_def)

lemma starts_at_nat: "list_all (\<lambda>f. 0 \<le> fl_Length f) (AllFiles info) \<Longrightarrow> starts_at (AllFiles info) i = int (nstart info i)"
proof -
  assume a: "list_all (\<lambda>f. 0 \<le> fl_Length f) (AllFiles info)"
  have "size_of fs = int (sum_list (map flen fs))" if "list_all (\<lambda>f. 0 \<le> fl_Length f) fs" for fs
    using that by (induction fs) auto
  from this [of "take i (AllFiles info)"] a show ?thesis
    by (auto simp: starts_at_def nstart_def list_all_iff dest: in_set_takeD)
qed

lemma nstart_Suc: "i < length (AllFiles info) \<Longrightarrow> nstart info (Suc i) = nstart info i + flen (AllFiles info ! i)"
  by (simp add: nstart_def take_Suc_conv_app_nth)

lemma nstart_mono: "i \<le> j \<Longrightarrow> nstart info i \<le> nstart info j"
proof -
  assume "i \<le> j"
  then have "take j (AllFiles info) = take i (AllFiles info) @ take (j - i) (drop i (AllFiles info))" by (metis le_add_diff_inverse take_add)
  then show ?thesis by (simp add: nstart_def)
qed

lemma length_parts: "length (concat (map (\<lambda>f. padded (flen f) (c f)) fs)) = sum_list (map flen fs)"
  by (induction fs) auto

lemma length_stored: "length (stored root info d) = nstart info (length (AllFiles info))"
  by (simp add: stored_def nstart_def length_parts)

lemma stored_split:
  assumes "i < length (AllFiles info)"
  obtains x y where "stored root info d = x @ padded (flen (AllFiles info ! i)) (content d (PathWithPrefix (AllFiles info ! i) root info)) @ y"
    "length x = nstart info i"
    "x = concat (map (\<lambda>f. padded (flen f) (content d (PathWithPrefix f root info))) (take i (AllFiles info)))"
    "y = concat (map (\<lambda>f. padded (flen f) (content d (PathWithPrefix f root info))) (drop (Suc i) (AllFiles info)))"
proof (rule that)
  show "stored root info d = concat (map (\<lambda>f. padded (flen f) (content d (PathWithPrefix f root info))) (take i (AllFiles info))) @
      padded (flen (AllFiles info ! i)) (content d (PathWithPrefix (AllFiles info ! i) root info)) @
      concat (map (\<lambda>f. padded (flen f) (content d (PathWithPrefix f root info))) (drop (Suc i) (AllFiles info)))"
    unfolding stored_def by (subst id_take_nth_drop [OF assms]) (simp only: map_append concat_append list.map concat.simps append_assoc)
qed (simp_all add: length_parts nstart_def)

text \<open>Files that hold data have names of their own.\<close>

definition own_names :: "bytes \<Rightarrow> info \<Rightarrow> bool" where
  "own_names root info \<longleftrightarrow> (\<forall>i j. i < j \<longrightarrow> j < length (AllFiles info) \<longrightarrow> 0 < fl_Length (AllFiles info ! i) \<longrightarrow> 0 < fl_Length (AllFiles info ! j) \<longrightarrow>
     PathWithPrefix (AllFiles info ! i) root info \<noteq> PathWithPrefix (AllFiles info ! j) root info)"

lemma stored_write:
  assumes "own_names root info" "i < length (AllFiles info)" "k + length b \<le> flen (AllFiles info ! i)" "0 < fl_Length (AllFiles info ! i)"
    "name = PathWithPrefix (AllFiles info ! i) root info"
  shows "stored root info (d(name \<mapsto> put_at k b (content d name))) = splice (nstart info i + k) b (stored root info d)"
proof -
  let ?fs = "AllFiles info" and ?d = "d(name \<mapsto> put_at k b (content d name))"
  have o: "padded (flen (?fs ! j)) (content ?d (PathWithPrefix (?fs ! j) root info)) =
      padded (flen (?fs ! j)) (content d (PathWithPrefix (?fs ! j) root info))" if "j < length ?fs" "j \<noteq> i" for j
  proof (cases "0 < fl_Length (?fs ! j)")
    case True
    then have "PathWithPrefix (?fs ! j) root info \<noteq> name"
      using assms(1,2,4,5) that unfolding own_names_def by (metis linorder_neqE_nat)
    then show ?thesis by (simp add: content_def)
  qed (simp add: padded_def)
  obtain x y where s: "stored root info d = x @ padded (flen (?fs ! i)) (content d name) @ y" "length x = nstart info i"
    "x = concat (map (\<lambda>f. padded (flen f) (content d (PathWithPrefix f root info))) (take i ?fs))"
    "y = concat (map (\<lambda>f. padded (flen f) (content d (PathWithPrefix f root info))) (drop (Suc i) ?fs))"
    by (rule stored_split [OF assms(2), of root d, folded assms(5)])
  obtain x' y' where s': "stored root info ?d = x' @ padded (flen (?fs ! i)) (content ?d name) @ y'"
    "x' = concat (map (\<lambda>f. padded (flen f) (content ?d (PathWithPrefix f root info))) (take i ?fs))"
    "y' = concat (map (\<lambda>f. padded (flen f) (content ?d (PathWithPrefix f root info))) (drop (Suc i) ?fs))"
    by (rule stored_split [OF assms(2), of root ?d, folded assms(5)])
  have "x' = x" unfolding s(3) s'(2)
    by (intro arg_cong [of _ _ concat] map_cong refl) (use assms(2) o in \<open>force simp: in_set_conv_nth\<close>)
  moreover have "y' = y" unfolding s(4) s'(3)
    by (intro arg_cong [of _ _ concat] map_cong refl) (use o in \<open>force simp: in_set_conv_nth\<close>)
  moreover have "content ?d name = put_at k b (content d name)" by (simp add: content_def)
  ultimately show ?thesis
    using s(1,2) s'(1) padded_put_at [OF assms(3)] splice_inside [of k b "padded (flen (?fs ! i)) (content d name)" x y] assms(3) by simp
qed

section \<open>Reads and writes\<close>

lemma located:
  assumes "wf_files (AllFiles info)" "k < nstart info (length (AllFiles info))"
  obtains i f where "i < length (AllFiles info)" "GetFileByOffset info (int k) = Some (f, int (k - nstart info i))"
    "fl_Length f = fl_Length (AllFiles info ! i)" "\<forall>root. PathWithPrefix f root info = PathWithPrefix (AllFiles info ! i) root info"
    "nstart info i \<le> k" "k < nstart info (Suc i)" "nstart info (Suc i) = nstart info i + flen f" "fl_Length f = int (flen f)"
    "int (nstart info (Suc i)) < 2 ^ 63"
proof -
  let ?fs = "AllFiles info"
  have l: "list_all (\<lambda>f. 0 \<le> fl_Length f) ?fs" "size_of ?fs < 2 ^ 63" using assms(1) by (auto simp: wf_files_def)
  have s: "size_of ?fs = int (nstart info (length ?fs))" using starts_at_nat [OF l(1), of "length ?fs"] by (simp add: starts_at_def)
  obtain i f where i: "i < length ?fs" "GetFileByOffset info (int k) = Some (f, int k - starts_at ?fs i)"
    "fl_Length f = fl_Length (?fs ! i)" "\<And>root. PathWithPrefix f root info = PathWithPrefix (?fs ! i) root info"
    "starts_at ?fs i \<le> int k" "int k < starts_at ?fs i + fl_Length f"
    using GetFile_inside [OF assms(1), of "int k"] assms(2) s by auto
  have n: "starts_at ?fs i = int (nstart info i)" by (rule starts_at_nat [OF l(1)])
  have f: "0 \<le> fl_Length f" using l(1) i(1,3) by (simp add: list_all_length)
  have S: "nstart info (Suc i) = nstart info i + flen f" using nstart_Suc [OF i(1)] i(3) by simp
  moreover have "nstart info (Suc i) \<le> nstart info (length ?fs)" using i(1) by (intro nstart_mono) simp
  ultimately show ?thesis using i n f s l(2) by (intro that [of i f]) auto
qed

definition covered :: "bytes \<Rightarrow> info \<Rightarrow> disk \<Rightarrow> nat \<Rightarrow> nat \<Rightarrow> bool" where
  "covered root info d k m \<longleftrightarrow> (\<forall>i < length (AllFiles info).
     0 < m \<and> nstart info i < nstart info (Suc i) \<and> k < nstart info (Suc i) \<and> nstart info i < k + m \<longrightarrow>
     (\<exists>c. d (PathWithPrefix (AllFiles info ! i) root info) = Some c \<and> min (nstart info (Suc i)) (k + m) \<le> nstart info i + length c))"

lemma covered_later: "covered root info d k m \<Longrightarrow> q \<le> m \<Longrightarrow> covered root info d (k + q) (m - q)"
  by (auto simp: covered_def)

lemma take_padded: "fo + q \<le> length c \<Longrightarrow> fo + q \<le> n \<Longrightarrow> take q (drop fo (padded n c @ y)) = take q (drop fo c)"
  by (rule nth_equalityI) (auto simp: nth_append nth_padded)

lemma stored_part:
  assumes "i < length (AllFiles info)" "d (PathWithPrefix (AllFiles info ! i) root info) = Some c"
    "nstart info i \<le> k" "k + q \<le> nstart info (Suc i)" "k + q \<le> nstart info i + length c"
  shows "take q (drop (k - nstart info i) c) = take q (drop k (stored root info d))"
proof -
  obtain x y where s: "stored root info d = x @ padded (flen (AllFiles info ! i)) (content d (PathWithPrefix (AllFiles info ! i) root info)) @ y"
    "length x = nstart info i" by (rule stored_split [OF assms(1)])
  then show ?thesis
    using assms take_padded [of "k - nstart info i" q c "flen (AllFiles info ! i)" y] nstart_Suc [OF assms(1)] by (simp add: content_def)
qed

lemma opened:
  assumes "d name = Some c"
  obtains r1 where "reader_open d r name = (None, r1)" "rd_info r1 = rd_info r" "rd_root r1 = rd_root r"
  using assms by (cases "name \<in> set (rd_files r)") (auto simp: reader_open_def)

text \<open>One round of the loop.\<close>

lemma read_round:
  assumes "wf_files (AllFiles info)" "rd_info r = info" "rd_root r = root" "covered root info d k m" "0 < m"
    "k + m \<le> nstart info (length (AllFiles info))" "length p \<le> k"
  obtains q r1 where "0 < q" "q \<le> m" "rd_info r1 = info" "rd_root r1 = root"
    "read_loop d r p (length p + m) (int k) = read_loop d r1 (p @ take q (drop k (stored root info d))) (length p + m) (int (k + q))"
    "length (take q (drop k (stored root info d))) = q"
proof -
  have "k < nstart info (length (AllFiles info))" using assms(5,6) by simp
  then obtain i f where L: "i < length (AllFiles info)" "GetFileByOffset info (int k) = Some (f, int (k - nstart info i))"
    "fl_Length f = fl_Length (AllFiles info ! i)" "\<forall>root. PathWithPrefix f root info = PathWithPrefix (AllFiles info ! i) root info"
    "nstart info i \<le> k" "k < nstart info (Suc i)" "nstart info (Suc i) = nstart info i + flen f" "fl_Length f = int (flen f)"
    "int (nstart info (Suc i)) < 2 ^ 63"
    by (rule located [OF assms(1)])
  define q where "q = min m (nstart info (Suc i) - k)"
  let ?name = "PathWithPrefix (AllFiles info ! i) root info"
  have q: "0 < q" "q \<le> m" "k + q \<le> nstart info (Suc i)" using assms(5) L(6) by (auto simp: q_def)
  obtain c where c: "d ?name = Some c" "k + q \<le> nstart info i + length c"
    using assms(4,5) L(1,5,6) by (auto simp: covered_def q_def)
  obtain r1 where r1: "reader_open d r ?name = (None, r1)" "rd_info r1 = info" "rd_root r1 = root"
    by (rule opened [of d ?name c r, OF c(1)]) (use assms(2,3) in auto)
  define b where "b = take q (drop (k - nstart info i) c)"
  have b: "b = take q (drop k (stored root info d))" unfolding b_def using stored_part [of i info d root c k q] L(1,5) c q(3) by blast
  have l: "length b = q" using c(2) L(5) by (simp add: b_def)
  then have o: "os_ReadAt d ?name q (int (k - nstart info i)) = (b, None)" by (simp add: os_ReadAt_def content_def c(1) b_def)
  have w: "i64 (fl_Length f - int (k - nstart info i)) = int (nstart info (Suc i) - k)"
    "i64 (int (length p) + int (nstart info (Suc i) - k)) = int (length p) + int (nstart info (Suc i) - k)"
    "i64 (int k + int q) = int (k + q)"
    using L(5-9) assms(7) q(3) by (auto intro!: trans [OF i64_small])
  have n: "fl_Length f \<noteq> 0" "fl_Length f \<noteq> int (k - nstart info i)" "PathWithPrefix f root info = ?name" using L(4-8) by auto
  have e: "(if int (length p) + int (nstart info (Suc i) - k) > int (length p + m) then int (length p + m)
      else int (length p) + int (nstart info (Suc i) - k)) = int (length p) + int q" by (simp add: q_def)
  have "read_loop d r p (length p + m) (int k) = read_loop d r1 (p @ b) (length p + m) (int (k + q))" using assms(5)
    by (subst read_loop.simps) (simp only: assms(2,3) L(2) n w e r1(1) o l Let_def option.case prod.case, simp add: o l w(3))
  then show ?thesis using q r1(2,3) b l by (intro that) auto
qed

lemma read_loop_covered:
  assumes "wf_files (AllFiles info)" "rd_info r = info" "rd_root r = root" "covered root info d k m"
    "k + m \<le> nstart info (length (AllFiles info))" "length p \<le> k"
  shows "\<exists>r'. read_loop d r p (length p + m) (int k) = Some (p @ take m (drop k (stored root info d)), None, r')"
  using assms(2-6)
proof (induction m arbitrary: r p k rule: less_induct)
  case (less m)
  show ?case
  proof (cases "m = 0")
    case True
    then show ?thesis using less.prems by (subst read_loop.simps) simp
  next
    case False
    then have "0 < m" by simp
    then obtain q r1 where q: "0 < q" "q \<le> m" "rd_info r1 = info" "rd_root r1 = root"
      "read_loop d r p (length p + m) (int k) = read_loop d r1 (p @ take q (drop k (stored root info d))) (length p + m) (int (k + q))"
      "length (take q (drop k (stored root info d))) = q"
      by (rule read_round [OF assms(1) less.prems(1-3) _ less.prems(4,5)])
    let ?b = "take q (drop k (stored root info d))"
    have "\<exists>r'. read_loop d r1 (p @ ?b) (length (p @ ?b) + (m - q)) (int (k + q)) =
        Some ((p @ ?b) @ take (m - q) (drop (k + q) (stored root info d)), None, r')"
      using q less.prems(4,5) covered_later [OF less.prems(3) q(2)] by (intro less.IH) auto
    moreover have "length (p @ ?b) + (m - q) = length p + m" using q(2,6) by simp
    moreover have "take m (drop k (stored root info d)) = ?b @ take (m - q) (drop (k + q) (stored root info d))"
      using take_add [of q "m - q" "drop k (stored root info d)"] q(2) by (simp add: add.commute)
    ultimately show ?thesis unfolding q(5) by (simp only: append_assoc)
  qed
qed

text \<open>Contents only grow, and only files of the torrent change.\<close>

definition grows :: "bytes \<Rightarrow> info \<Rightarrow> disk \<Rightarrow> disk \<Rightarrow> bool" where
  "grows root info d d' \<longleftrightarrow> (\<forall>name c. d name = Some c \<longrightarrow> (\<exists>c'. d' name = Some c' \<and> length c \<le> length c')) \<and>
     (\<forall>name. (\<forall>f \<in> set (AllFiles info). name \<noteq> PathWithPrefix f root info) \<longrightarrow> d' name = d name)"

lemma grows_refl: "grows root info d d"
  by (auto simp: grows_def)

lemma growsD:
  assumes "grows root info d d'" "d name = Some c"
  obtains c' where "d' name = Some c'" "length c \<le> length c'"
  using conjunct1 [OF assms(1) [unfolded grows_def], rule_format, OF assms(2)] by blast

lemma grows_trans:
  assumes "grows root info d d1" "grows root info d1 d2"
  shows "grows root info d d2"
  unfolding grows_def
proof (intro conjI allI impI)
  fix name c assume "d name = Some c"
  then obtain c1 where "d1 name = Some c1" "length c \<le> length c1" by (rule growsD [OF assms(1)])
  moreover from this(1) obtain c2 where "d2 name = Some c2" "length c1 \<le> length c2" by (rule growsD [OF assms(2)])
  ultimately show "\<exists>c'. d2 name = Some c' \<and> length c \<le> length c'" by auto
next
  fix name assume "\<forall>f \<in> set (AllFiles info). name \<noteq> PathWithPrefix f root info"
  then show "d2 name = d name" using assms by (simp add: grows_def)
qed

lemma grows_put:
  "i < length (AllFiles info) \<Longrightarrow> name = PathWithPrefix (AllFiles info ! i) root info \<Longrightarrow>
   grows root info d (d(name \<mapsto> put_at k b (content d name)))"
  by (auto simp: grows_def content_def length_put_at)

lemma covered_grows:
  assumes "covered root info d k m" "grows root info d d'"
  shows "covered root info d' k m"
  unfolding covered_def
proof (intro allI impI)
  fix i assume "i < length (AllFiles info)"
    "0 < m \<and> nstart info i < nstart info (Suc i) \<and> k < nstart info (Suc i) \<and> nstart info i < k + m"
  then obtain c where c: "d (PathWithPrefix (AllFiles info ! i) root info) = Some c" "min (nstart info (Suc i)) (k + m) \<le> nstart info i + length c"
    using assms(1) unfolding covered_def by blast
  obtain c' where "d' (PathWithPrefix (AllFiles info ! i) root info) = Some c'" "length c \<le> length c'" by (rule growsD [OF assms(2) c(1)])
  then show "\<exists>c. d' (PathWithPrefix (AllFiles info ! i) root info) = Some c \<and> min (nstart info (Suc i)) (k + m) \<le> nstart info i + length c"
    using c(2) by auto
qed

lemma covered_first:
  assumes "i < length (AllFiles info)" "nstart info i \<le> k" "q = min m (nstart info (Suc i) - k)"
    "d (PathWithPrefix (AllFiles info ! i) root info) = Some c" "k + q \<le> nstart info i + length c"
    "covered root info d (k + q) (m - q)" "k < nstart info (Suc i)"
  shows "covered root info d k m"
  unfolding covered_def
proof (intro allI impI)
  fix j assume j: "j < length (AllFiles info)"
    "0 < m \<and> nstart info j < nstart info (Suc j) \<and> k < nstart info (Suc j) \<and> nstart info j < k + m"
  show "\<exists>c. d (PathWithPrefix (AllFiles info ! j) root info) = Some c \<and> min (nstart info (Suc j)) (k + m) \<le> nstart info j + length c"
  proof (cases "j = i")
    case True
    then show ?thesis using assms(3-5) by auto
  next
    case False
    have "\<not> j < i" using j(2) assms(2) nstart_mono [of "Suc j" i info] by auto
    then have "nstart info (Suc i) \<le> nstart info j" using False by (intro nstart_mono) simp
    then have "0 < m - q \<and> k + q < nstart info (Suc j) \<and> nstart info j < k + q + (m - q)" using j(2) assms(3) by auto
    then show ?thesis using assms(3,6) j by (auto simp: covered_def)
  qed
qed

lemma write_opened:
  assumes "\<not> denied name"
  obtains d1 w1 where "writer_open denied d w name = (None, d1, w1)" "wr_info w1 = wr_info w" "wr_root w1 = wr_root w"
    "\<And>k b. d1(name \<mapsto> put_at k b (content d1 name)) = d(name \<mapsto> put_at k b (content d name))"
  using assms by (cases "name \<in> set (wr_files w)") (auto simp: writer_open_def content_def)

definition writable :: "(bytes \<Rightarrow> bool) \<Rightarrow> bytes \<Rightarrow> info \<Rightarrow> bool" where
  "writable denied root info \<longleftrightarrow> (\<forall>f \<in> set (AllFiles info). \<not> denied (PathWithPrefix f root info))"

lemma write_round:
  assumes "wf_files (AllFiles info)" "writable denied root info" "wr_info w = info" "wr_root w = root"
    "k < nstart info (length (AllFiles info))" "n \<le> k" "n + m = length p" "0 < m"
  obtains i q d2 w1 where "i < length (AllFiles info)" "nstart info i \<le> k" "k < nstart info (Suc i)" "0 < fl_Length (AllFiles info ! i)"
    "q = min m (nstart info (Suc i) - k)" "wr_info w1 = info" "wr_root w1 = root"
    "d2 = d(PathWithPrefix (AllFiles info ! i) root info \<mapsto>
       put_at (k - nstart info i) (take q (drop n p)) (content d (PathWithPrefix (AllFiles info ! i) root info)))"
    "write_loop denied d w p n (int k) = write_loop denied d2 w1 p (n + q) (int (k + q))"
proof -
  obtain i f where L: "i < length (AllFiles info)" "GetFileByOffset info (int k) = Some (f, int (k - nstart info i))"
    "fl_Length f = fl_Length (AllFiles info ! i)" "\<forall>root. PathWithPrefix f root info = PathWithPrefix (AllFiles info ! i) root info"
    "nstart info i \<le> k" "k < nstart info (Suc i)" "nstart info (Suc i) = nstart info i + flen f" "fl_Length f = int (flen f)"
    "int (nstart info (Suc i)) < 2 ^ 63"
    by (rule located [OF assms(1,5)])
  define q where "q = min m (nstart info (Suc i) - k)"
  define name where "name = PathWithPrefix (AllFiles info ! i) root info"
  define b where "b = take q (drop n p)"
  have q: "q \<le> m" "k + q \<le> nstart info (Suc i)" using L(6) by (auto simp: q_def)
  have l: "length b = q" using q(1) assms(7) by (simp add: b_def)
  have "\<not> denied name" using assms(2) L(1) by (simp add: writable_def name_def)
  then obtain d1 w1 where o: "writer_open denied d w name = (None, d1, w1)" "wr_info w1 = info" "wr_root w1 = root"
    "\<And>k b. d1(name \<mapsto> put_at k b (content d1 name)) = d(name \<mapsto> put_at k b (content d name))"
    by (rule write_opened [of denied name d w]) (use assms(3,4) in auto)
  define d2 where "d2 = d(name \<mapsto> put_at (k - nstart info i) b (content d name))"
  have W: "os_WriteAt d1 name b (int (k - nstart info i)) = (q, None, d2)" by (simp add: os_WriteAt_def o(4) l d2_def)
  have w: "i64 (fl_Length f - int (k - nstart info i)) = int (nstart info (Suc i) - k)"
    "i64 (int (nstart info (Suc i) - k) + int n) = int (nstart info (Suc i) - k) + int n" "i64 (int k + int q) = int (k + q)"
    using L(5-9) assms(6) q(2) by (auto intro!: trans [OF i64_small])
  have n: "fl_Length f \<noteq> 0" "fl_Length f \<noteq> int (k - nstart info i)" "PathWithPrefix f root info = name" "n < length p"
    "\<not> int (nstart info (Suc i) - k) + int n \<le> int n"
    using L(4-8) assms(7,8) by (auto simp: name_def)
  have e: "(if int (length p) < int (nstart info (Suc i) - k) + int n then int (length p)
      else int (nstart info (Suc i) - k) + int n) = int (n + q)" using assms(7) by (auto simp: q_def)
  have B: "take (nat (int (n + q)) - n) (drop n p) = b" unfolding nat_int by (simp add: b_def)
  have "write_loop denied d w p n (int k) = write_loop denied d2 w1 p (n + q) (int (k + q))"
    by (subst write_loop.simps) (simp only: assms(3,4) L(2) n w e B o(1) W Let_def option.case prod.case if_True if_False simp_thms)
  then show ?thesis using L o(2,3) by (intro that [of i q w1 d2]) (auto simp: q_def d2_def b_def name_def)
qed

lemma write_loop_stored:
  assumes "wf_files (AllFiles info)" "own_names root info" "writable denied root info" "wr_info w = info" "wr_root w = root"
    "k + m \<le> nstart info (length (AllFiles info))" "n \<le> k" "n + m = length p"
  shows "\<exists>d' w'. write_loop denied d w p n (int k) = Some (length p, None, d', w') \<and>
    stored root info d' = splice k (drop n p) (stored root info d) \<and> covered root info d' k m \<and> grows root info d d'"
  using assms(4-8)
proof (induction m arbitrary: d w n k rule: less_induct)
  case (less m)
  show ?case
  proof (cases "m = 0")
    case True
    then show ?thesis using less.prems by (subst write_loop.simps) (auto simp: grows_refl covered_def)
  next
    case False
    then have m: "k < nstart info (length (AllFiles info))" "0 < m" using less.prems(3) by simp_all
    obtain i q d2 w1 where L: "i < length (AllFiles info)" "nstart info i \<le> k" "k < nstart info (Suc i)" "0 < fl_Length (AllFiles info ! i)"
      "q = min m (nstart info (Suc i) - k)" "wr_info w1 = info" "wr_root w1 = root"
      "d2 = d(PathWithPrefix (AllFiles info ! i) root info \<mapsto>
         put_at (k - nstart info i) (take q (drop n p)) (content d (PathWithPrefix (AllFiles info ! i) root info)))"
      "write_loop denied d w p n (int k) = write_loop denied d2 w1 p (n + q) (int (k + q))"
      by (rule write_round [OF assms(1,3) less.prems(1,2) m(1) less.prems(4,5) m(2)])
    let ?name = "PathWithPrefix (AllFiles info ! i) root info" and ?b = "take q (drop n p)"
    have q: "0 < q" "q \<le> m" "k + q \<le> nstart info (Suc i)" using m(2) L(3,5) by auto
    have b: "length ?b = q" "drop n p = ?b @ drop (n + q) p"
      using q(2) less.prems(5) append_take_drop_id [of q "drop n p"] by (simp_all add: add.commute)
    have S: "stored root info d2 = splice k ?b (stored root info d)"
      using stored_write [OF assms(2) L(1), of "k - nstart info i" ?b ?name d] L(2,4,8) q b(1) nstart_Suc [OF L(1)] by simp
    obtain d' w' where R: "write_loop denied d2 w1 p (n + q) (int (k + q)) = Some (length p, None, d', w')"
      "stored root info d' = splice (k + q) (drop (n + q) p) (stored root info d2)" "covered root info d' (k + q) (m - q)" "grows root info d2 d'"
      using less.IH [of "m - q" w1 "k + q" "n + q" d2] L(6,7) q less.prems(3-5) by auto
    have "stored root info d' = splice k (drop n p) (stored root info d)"
      using R(2) S splice_splice [of k ?b "drop (n + q) p" "stored root info d"] b less.prems(3,5) length_stored [of root info d] q(2) by simp
    moreover have "grows root info d d'" by (rule grows_trans [OF _ R(4)]) (unfold L(8), rule grows_put [OF L(1) refl])
    moreover have "covered root info d' k m"
    proof -
      have "d2 ?name = Some (put_at (k - nstart info i) ?b (content d ?name))" by (simp add: L(8))
      then obtain c where "d' ?name = Some c" "length (put_at (k - nstart info i) ?b (content d ?name)) \<le> length c"
        by (rule growsD [OF R(4)])
      moreover from this(2) have "k + q \<le> nstart info i + length c" using b(1) L(2) unfolding length_put_at by linarith
      ultimately show ?thesis using covered_first [OF L(1,2,5), of d' root c] R(3) L(3) by simp
    qed
    ultimately show ?thesis using L(9) R(1) by auto
  qed
qed

section \<open>Properties\<close>

lemma total_nat: "wf_files (AllFiles info) \<Longrightarrow> TotalLength info = int (nstart info (length (AllFiles info)))"
  using TotalLength_eq [of info] starts_at_nat [of info "length (AllFiles info)"] by (simp add: wf_files_def starts_at_def)

text \<open>C2: writing refines a splice of one string of bytes. For data inside of the torrent, across as many files as it
  takes, \<^verbatim>\<open>WriteAt\<close> writes all of it: the files, read one after the other, are as before but for these
  bytes, no other file of the disk changes, and \<^verbatim>\<open>ReadAt\<close> gives back exactly what was written, whatever
  was on the disk before.\<close>

theorem write_then_read:
  assumes "wf_files (AllFiles info)" "own_names root info" "writable denied root info" "wr_info w = info" "wr_root w = root"
    "rd_info r = info" "rd_root r = root" "int k + int (length p) \<le> TotalLength info"
  shows "\<exists>d' w' r'. writer_WriteAt denied d w p (int k) = Some (length p, None, d', w') \<and>
    stored root info d' = splice k p (stored root info d) \<and>
    (\<forall>name. (\<forall>f \<in> set (AllFiles info). name \<noteq> PathWithPrefix f root info) \<longrightarrow> d' name = d name) \<and>
    reader_ReadAt d' r (length p) (int k) = Some (p, None, r')"
proof -
  have k: "k + length p \<le> nstart info (length (AllFiles info))" using assms(8) total_nat [OF assms(1)] by simp
  obtain d' w' where w: "write_loop denied d w p 0 (int k) = Some (length p, None, d', w')"
    "stored root info d' = splice k p (stored root info d)" "covered root info d' k (length p)" "grows root info d d'"
    using write_loop_stored [OF assms(1-5) k, of 0 p d] by auto
  obtain r' where "read_loop d' r [] (length p) (int k) = Some (take (length p) (drop k (stored root info d')), None, r')"
    using read_loop_covered [OF assms(1,6,7) w(3) k, of "[]"] by auto
  moreover have "take (length p) (drop k (stored root info d')) = p" using k w(2) length_stored [of root info d] by (simp add: splice_def)
  ultimately show ?thesis using w(1,2) conjunct2 [OF w(4) [unfolded grows_def]] by (simp add: writer_WriteAt_def reader_ReadAt_def)
qed

lemma example_names: "own_names (ascii ''/r'') example_info"
proof -
  have "PathWithPrefix (AllFiles example_info ! 0) (ascii ''/r'') example_info \<noteq> PathWithPrefix (AllFiles example_info ! 1) (ascii ''/r'') example_info"
    by code_simp
  moreover have "length (AllFiles example_info) = 2" by code_simp
  ultimately show ?thesis by (auto simp: own_names_def less_Suc_eq numeral_2_eq_2)
qed

theorem write_then_read_witness:
  "\<exists>d' w' r'. writer_WriteAt (\<lambda>_. False) Map.empty (NewWriter (ascii ''/r'') example_info) [1, 2, 3, 4] (int 3) = Some (length [1, 2, 3, 4 :: byte], None, d', w') \<and>
    stored (ascii ''/r'') example_info d' = splice 3 [1, 2, 3, 4] (stored (ascii ''/r'') example_info Map.empty) \<and>
    reader_ReadAt d' (NewReader (ascii ''/r'') example_info) (length [1, 2, 3, 4 :: byte]) (int 3) = Some ([1, 2, 3, 4], None, r')"
proof -
  have "writable (\<lambda>_. False) (ascii ''/r'') example_info" by (simp add: writable_def)
  moreover have "int 3 + int (length [1, 2, 3, 4 :: byte]) \<le> TotalLength example_info" by (simp add: example_info_files)
  ultimately show ?thesis
    using write_then_read [of example_info "ascii ''/r''" "\<lambda>_. False" "NewWriter (ascii ''/r'') example_info" "NewReader (ascii ''/r'') example_info"
        3 "[1, 2, 3, 4]" Map.empty] example_names
    unfolding example_info_files(1) by (simp add: example_info_files(2) NewWriter_def NewReader_def) blast
qed

text \<open>Every file with data is there in its full length.\<close>

definition complete :: "bytes \<Rightarrow> info \<Rightarrow> disk \<Rightarrow> bool" where
  "complete root info d \<longleftrightarrow> (\<forall>f \<in> set (AllFiles info). \<exists>c. d (PathWithPrefix f root info) = Some c \<and> fl_Length f \<le> int (length c))"

lemma complete_covered: "complete root info d \<Longrightarrow> covered root info d k m"
proof -
  assume a: "complete root info d"
  have "\<exists>c. d (PathWithPrefix (AllFiles info ! i) root info) = Some c \<and> min (nstart info (Suc i)) (k + m) \<le> nstart info i + length c"
    if "i < length (AllFiles info)" for i
    using a that nth_mem [OF that] nstart_Suc [OF that] unfolding complete_def by (metis add_left_mono min.coboundedI1 nat_le_iff)
  then show ?thesis unfolding covered_def by blast
qed

lemma stored_files:
  assumes "\<forall>f \<in> set (AllFiles info). open' f = Inr (content d (PathWithPrefix f root info), None)" "complete root info d"
  shows "stored root info d = files_data open' (AllFiles info)"
  unfolding stored_def files_data_def
proof (intro arg_cong [of _ _ concat] map_cong refl)
  fix f assume f: "f \<in> set (AllFiles info)"
  then obtain c where "d (PathWithPrefix f root info) = Some c" "fl_Length f \<le> int (length c)" using assms(2) by (auto simp: complete_def)
  then show "padded (flen f) (content d (PathWithPrefix f root info)) =
      (case open' f of Inl _ \<Rightarrow> [] | Inr (c, _) \<Rightarrow> take (flen f) c)"
    using f assms(1) by (simp add: padded_def content_def)
qed

text \<open>C10: what is seeded passes the check. Let a torrent be made from the file system and read back from a disk that
  holds the same files. Then \<^verbatim>\<open>ReadBlock\<close> of a whole piece, across all the files that it touches, gives
  data whose SHA-1 is the hash of that piece in the torrent.\<close>

theorem seeded_piece_verifies:
  assumes "NewInfoFromFilePath F root pl = Some (Inr info)" "size_of (AllFiles info) < 2 ^ 63" "i < length (in_Pieces info)" "i < 2 ^ 32"
    "\<forall>f \<in> set (AllFiles info). open_below F (Clean root) f = Inr (content d (PathWithPrefix f dir info), None)" "complete dir info d"
  shows "\<exists>p b r'. Info_Piece info (int i) = Some p \<and>
    ReadBlock d (NewReader dir info) (of_nat i) 0 (nat (Piece_Length p)) = Some (b, None, r') \<and> Piece_Hash p = Some (sha1 b)"
proof -
  obtain p s where p: "s = files_data (open_below F (Clean root)) (AllFiles info)" "Info_Piece info (int i) = Some p"
    "int (length s) = TotalLength info" "Piece_Offset p = int i * pl" "0 < Piece_Length p"
    "Piece_Offset p + Piece_Length p = min ((int i + 1) * pl) (TotalLength info)"
    "Piece_Hash p = Some (sha1 (take (nat (Piece_Length p)) (drop (nat (Piece_Offset p)) s)))"
    using new_info_pieces [OF assms(1-3)] by blast
  have wf: "wf_files (AllFiles info)" using new_info_data [OF assms(1)] assms(2) by (simp add: wf_files_def)
  have pl: "in_PieceLength info = pl" "0 < pl" using new_info_data [OF assms(1)] by simp_all
  define k where "k = i * nat pl"
  have o: "Piece_Offset p = int k" using p(4) pl(2) by (simp add: k_def)
  have le: "k + nat (Piece_Length p) \<le> nstart info (length (AllFiles info))" using p(5,6) o total_nat [OF wf] by simp
  have u: "uint (of_nat i :: u32) = int i" using assms(4) u32_small [of "int i"] by simp
  have "PieceOffset info (of_nat i) 0 = i64 (i64 (int k))" using o p(4) pl(1) u by (simp add: PieceOffset_def)
  moreover have "i64 (int k) = int k"
    by (rule i64_small) (use le total_nat [OF wf] TotalLength_eq [OF wf] assms(2) in linarith)+
  ultimately have P: "PieceOffset info (of_nat i) 0 = int k" by simp
  obtain r' where "read_loop d (NewReader dir info) [] (length ([] :: bytes) + nat (Piece_Length p)) (int k) =
      Some ([] @ take (nat (Piece_Length p)) (drop k (stored dir info d)), None, r')"
    using read_loop_covered [OF wf _ _ complete_covered [OF assms(6)] le, of "NewReader dir info" "[]"] by (auto simp: NewReader_def)
  then have "ReadBlock d (NewReader dir info) (of_nat i) 0 (nat (Piece_Length p)) = Some (take (nat (Piece_Length p)) (drop k s), None, r')"
    using P stored_files [OF assms(5,6)] p(1) by (simp add: ReadBlock_def reader_ReadAt_def NewReader_def)
  then show ?thesis using p(2,7) o by auto
qed

definition example_fs :: file_system where
  "example_fs = \<lparr>fs_Stat = \<lambda>_. RegularFile 5, fs_Walk = \<lambda>_. Inr [], fs_Open = \<lambda>_. Inr ([1, 2, 3, 4, 5], None)\<rparr>"

lemma example_stat: "fs_Stat example_fs p = RegularFile 5"
  by (simp add: example_fs_def)

lemma example_new_info:
  obtains info where "NewInfoFromFilePath example_fs (ascii ''t'') 4 = Some (Inr info)" "AllFiles info = [\<lparr>fl_Length = 5, fl_Paths = []\<rparr>]"
    "length (in_Pieces info) = 2"
proof -
  let ?root = "Clean (ascii ''t'')"
  let ?hs = "map sha1 (cut_up 4 [1, 2, 3, 4, 5])"
  define info where "info = noInfo\<lparr>in_Length := 5, in_Pieces := ?hs, in_Name := Base ?root, in_PieceLength := 4\<rparr>"
  have "writeFiles [\<lparr>fl_Length = 5, fl_Paths = []\<rparr>] (open_below example_fs ?root) = ([1, 2, 3, 4, 5], None)"
    by (simp add: open_below_def example_fs_def CopyNBuffer_def)
  then have "GeneratePiecesFromFiles [\<lparr>fl_Length = 5, fl_Paths = []\<rparr>] 4 (open_below example_fs ?root) = Some (Inr ?hs)"
    using generated [of 4 "[1, 2, 3, 4, 5]" None "[]"] by (simp add: GeneratePiecesFromFiles_def GeneratePieces_def)
  then have i: "NewInfoFromFilePath example_fs (ascii ''t'') 4 = Some (Inr info)"
    using example_stat by (simp add: NewInfoFromFilePath_def Let_def AllFiles_def IsDir_def noInfo_def info_def)
  have "AllFiles info = [\<lparr>fl_Length = 5, fl_Paths = []\<rparr>]" by (simp add: AllFiles_def IsDir_def info_def noInfo_def)
  moreover have "length (in_Pieces info) = 2" using cut_up_nth [of 4 "[1, 2, 3, 4, 5]"] by (simp add: info_def)
  ultimately show ?thesis using i that by blast
qed

theorem seeded_piece_verifies_witness:
  "\<exists>info p b r'. NewInfoFromFilePath example_fs (ascii ''t'') 4 = Some (Inr info) \<and> Info_Piece info (int 1) = Some p \<and>
    ReadBlock (\<lambda>_. Some [1, 2, 3, 4, 5]) (NewReader (ascii ''.'') info) (of_nat 1) 0 (nat (Piece_Length p)) = Some (b, None, r') \<and>
    Piece_Hash p = Some (sha1 b)"
proof -
  obtain info where i: "NewInfoFromFilePath example_fs (ascii ''t'') 4 = Some (Inr info)" "AllFiles info = [\<lparr>fl_Length = 5, fl_Paths = []\<rparr>]"
    "length (in_Pieces info) = 2" by (rule example_new_info)
  have "\<forall>f \<in> set (AllFiles info). open_below example_fs (Clean (ascii ''t'')) f =
      Inr (content (\<lambda>_. Some [1, 2, 3, 4, 5]) (PathWithPrefix f (ascii ''.'') info), None)"
    by (simp add: i(2) open_below_def example_fs_def content_def)
  moreover have "complete (ascii ''.'') info (\<lambda>_. Some [1, 2, 3, 4, 5])" by (simp add: complete_def i(2))
  ultimately show ?thesis using seeded_piece_verifies [OF i(1), of 1] i by simp
qed

section \<open>Outside of the torrent\<close>

text \<open>C35: data beyond the end of a torrent with several files is written into its last file. For an offset behind the
  end by less than the length of the last file, \<^verbatim>\<open>GetFileByOffset\<close> gives this file with the distance to
  the end as the offset in it, and \<^verbatim>\<open>WriteAt\<close> overwrites what is there, without an error.\<close>

theorem write_past_end:
  assumes "IsDir (wr_info w)" "wf_files (AllFiles (wr_info w))" "0 < x" "int x + int (length p) \<le> fl_Length (last (in_Files (wr_info w)))"
    "0 < length p" "TotalLength (wr_info w) + int x < 2 ^ 63" "name = PathWithPrefix (last (in_Files (wr_info w))) (wr_root w) (wr_info w)"
    "\<not> denied name"
  shows "\<exists>w'. writer_WriteAt denied d w p (TotalLength (wr_info w) + int x) =
    Some (length p, None, d(name \<mapsto> put_at x p (content d name)), w')"
proof -
  let ?fs = "in_Files (wr_info w)" and ?off = "TotalLength (wr_info w) + int x"
  have a: "AllFiles (wr_info w) = ?fs" "?fs \<noteq> []" using assms(1) by (simp_all add: AllFiles_def IsDir_def)
  have t: "TotalLength (wr_info w) = size_of ?fs" using TotalLength_eq [OF assms(2)] a(1) by simp
  have "0 \<le> size_of ?fs" using assms(2) size_nonneg unfolding a(1) wf_files_def by blast
  have l: "fl_Length (last ?fs) < 2 ^ 63"
  proof -
    have "fl_Length (last ?fs) = size_of ?fs - starts_at ?fs (length ?fs - 1)"
      using a(2) starts_at_Suc [of "length ?fs - 1" ?fs] by (simp add: starts_at_def last_conv_nth)
    then show ?thesis using starts_at_nonneg [of ?fs "length ?fs - 1"] assms(2) unfolding a(1) wf_files_def by linarith
  qed
  have g: "GetFileByOffset (wr_info w) ?off = Some (last ?fs, int x)"
    using find_file_past [of ?fs ?off noFile] assms a t by (simp add: GetFileByOffset_def)
  obtain d1 w1 where o: "writer_open denied d w name = (None, d1, w1)" "wr_info w1 = wr_info w" "wr_root w1 = wr_root w"
    "\<And>k b. d1(name \<mapsto> put_at k b (content d1 name)) = d(name \<mapsto> put_at k b (content d name))"
    by (rule write_opened [of denied name d w]) (use assms(8) in auto)
  have w: "i64 (fl_Length (last ?fs) - int x) = fl_Length (last ?fs) - int x"
    by (rule i64_small) (use assms(3,4) l in linarith)+
  have n: "fl_Length (last ?fs) \<noteq> 0" "fl_Length (last ?fs) \<noteq> int x" "\<not> fl_Length (last ?fs) \<le> int x"
    using assms(3-5) by linarith+
  have m: "(if int (length p) < fl_Length (last ?fs) - int x then int (length p) else fl_Length (last ?fs) - int x) = int (length p)"
    using assms(4) by simp
  have W: "os_WriteAt d1 name p (int x) = (length p, None, d(name \<mapsto> put_at x p (content d name)))" by (simp add: os_WriteAt_def o(4))
  have e: "write_loop denied d2 w1 p (length p) off2 = Some (length p, None, d2, w1)" for d2 off2 by (subst write_loop.simps) simp
  have "write_loop denied d w p 0 ?off = Some (length p, None, d(name \<mapsto> put_at x p (content d name)), w1)"
    by (subst write_loop.simps) (use assms(5) in \<open>simp add: g n m w assms(7) [symmetric] o(1) W e Let_def\<close>)
  then show ?thesis by (simp add: writer_WriteAt_def)
qed

theorem write_past_end_witness:
  "\<exists>w'. writer_WriteAt (\<lambda>_. False) (\<lambda>_. Some [1, 2, 3, 4, 5]) (NewWriter (ascii ''/r'') example_info) [9] 9 =
    Some (1, None, (\<lambda>_. Some [1, 2, 3, 4, 5])(ascii ''/r/t/d/b'' \<mapsto> [1, 9, 3, 4, 5]), w')"
proof -
  let ?w = "NewWriter (ascii ''/r'') example_info"
  have p: "PathWithPrefix (last (in_Files (wr_info ?w))) (wr_root ?w) (wr_info ?w) = ascii ''/r/t/d/b''" by code_simp
  have "IsDir (wr_info ?w)" "fl_Length (last (in_Files (wr_info ?w))) = 3" "wr_info ?w = example_info"
    by (simp_all add: NewWriter_def example_info_def IsDir_def)
  then show ?thesis
    using write_past_end [of ?w 1 "[9]" "ascii ''/r/t/d/b''" "\<lambda>_. False" "\<lambda>_. Some [1, 2, 3, 4, 5]"] example_info_files p
    by (simp add: put_at_def content_def)
qed

text \<open>A name that stands for itself in a path.\<close>

definition plain_name :: "bytes \<Rightarrow> bool" where
  "plain_name e \<longleftrightarrow> e \<noteq> [] \<and> 47 \<notin> set e \<and> e \<noteq> ascii ''.'' \<and> e \<noteq> ascii ''..''"

definition absolute :: "bytes list \<Rightarrow> bytes" where
  "absolute cs = 47 # join_with [47] cs"

lemma join_with_append: "xs \<noteq> [] \<Longrightarrow> ys \<noteq> [] \<Longrightarrow> join_with c (xs @ ys) = join_with c xs @ c @ join_with c ys"
  by (induction c xs rule: join_with.induct) (auto simp: neq_Nil_conv)

lemma clean_plain: "list_all plain_name es \<Longrightarrow> foldl (clean_step rooted) cs es = cs @ es"
  by (induction es arbitrary: cs) (auto simp: clean_step_def plain_name_def)

lemma clean_up: "list_all plain_name cs \<Longrightarrow> foldl (clean_step True) cs (replicate (length cs) (ascii ''..'')) = []"
proof (induction cs rule: rev_induct)
  case (snoc c cs)
  have "clean_step True (cs @ [c]) (ascii ''..'') = cs" using snoc.prems by (simp add: clean_step_def plain_name_def ascii_def)
  then show ?case using snoc by simp
qed simp

lemma Join_absolute:
  assumes "list_all plain_name cs" "cs \<noteq> []" "list_all (\<lambda>e. 47 \<notin> set e) es" "es \<noteq> []"
  shows "Join (absolute cs # es) = absolute (foldl (clean_step True) cs es)"
proof -
  have j: "join_with [47] (absolute cs # es) = 47 # join_with [47] (cs @ es)"
    using assms(2,4) join_with_append [of "[absolute cs]" es "[47]"] join_with_append [of cs es "[47]"] by (simp add: absolute_def)
  have n: "\<forall>x \<in> set (cs @ es). 47 \<notin> set x" using assms(1,3) by (auto simp: list_all_iff plain_name_def)
  have "split_on 47 (47 # join_with [47] (cs @ es)) = [] # cs @ es"
    using split_on_join [OF n] assms(2) by simp
  moreover have "foldl (clean_step True) [] ([] # cs @ es) = foldl (clean_step True) cs es"
    using clean_plain [OF assms(1), of True "[]"] by (simp add: clean_step_def)
  ultimately have "Clean (47 # join_with [47] (cs @ es)) = absolute (foldl (clean_step True) cs es)"
    by (simp add: Clean_def absolute_def Let_def)
  then show ?thesis using j by (simp add: Join_def absolute_def)
qed

text \<open>C36: the names of a torrent are not confined to the directory of the download. A file with plain names lies below
  the directory, under the name of the torrent; but the names are not checked, and with enough pairs of
  dots in front the path of a file of a torrent is any absolute path.\<close>

theorem path_escapes:
  assumes "IsDir info" "list_all plain_name cs" "cs \<noteq> []" "plain_name (in_Name info)" "list_all plain_name ts"
  shows "PathWithPrefix \<lparr>fl_Length = n, fl_Paths = ts\<rparr> (absolute cs) info = absolute (cs @ in_Name info # ts) \<and>
    PathWithPrefix \<lparr>fl_Length = n, fl_Paths = replicate (Suc (length cs)) (ascii ''..'') @ ts\<rparr> (absolute cs) info = absolute ts"
proof -
  have s: "list_all (\<lambda>e. 47 \<notin> set e) ts" "47 \<notin> set (in_Name info)" "47 \<notin> set (ascii ''..'')"
    using assms(4,5) by (auto simp: plain_name_def list_all_iff ascii_def)
  have "foldl (clean_step True) cs (in_Name info # ts) = cs @ in_Name info # ts"
    using clean_plain [of "in_Name info # ts" True cs] assms(4,5) by simp
  moreover have "foldl (clean_step True) cs (in_Name info # replicate (Suc (length cs)) (ascii ''..'') @ ts) = ts"
    using clean_up [of "cs @ [in_Name info]"] clean_plain [of "[in_Name info]" True cs] clean_plain [OF assms(5), of True "[]"] assms(2,4)
    by simp
  ultimately show ?thesis
    using assms(1) Join_absolute [OF assms(2,3), of "in_Name info # ts"] s
      Join_absolute [OF assms(2,3), of "in_Name info # replicate (Suc (length cs)) (ascii ''..'') @ ts"]
    by (simp add: PathWithPrefix_def list_all_iff ball_Un)
qed

theorem path_escapes_witness:
  "PathWithPrefix \<lparr>fl_Length = 1, fl_Paths = [ascii ''..'', ascii ''..'', ascii ''x'']\<rparr> (ascii ''/r'') example_info = ascii ''/x''"
proof -
  have "IsDir example_info" "plain_name (in_Name example_info)" "list_all plain_name [ascii ''x'']" "list_all plain_name [ascii ''r'']"
    "absolute [ascii ''r''] = ascii ''/r''" "absolute [ascii ''x''] = ascii ''/x''" by code_simp+
  then show ?thesis using path_escapes [of example_info "[ascii ''r'']" "[ascii ''x'']" 1] by simp
qed

end
