(* ===== verification/Spec2Isabelle.thy ===== *)
theory Spec2Isabelle
  imports DhtWire PeerConn TorrentIO
begin

text \<open>
  Verification of the Go BitTorrent library go-i2p-bt. Paths of source files are relative to the root of the
  repository.

  \<^bold>\<open>The program.\<close> The library has three layers that are described here. At the bottom, \<^verbatim>\<open>bencode\<close> writes and reads
  Go values as byte strings, and \<^verbatim>\<open>metainfo\<close> has the 20-byte hashes and the addresses that everything else uses. In
  the middle, \<^verbatim>\<open>krpc\<close> defines the messages of the DHT as structs that \<^verbatim>\<open>bencode\<close> transmits, and \<^verbatim>\<open>dht\<close> is the node of
  the DHT: a server over a packet connection that answers queries, matches responses with its own queries, and
  keeps a routing table, tokens, announced peers, a blacklist and a store of data. Beside it, \<^verbatim>\<open>peerprotocol\<close> is what
  two peers speak over a stream: a handshake, then framed messages that change the state of the connection and call
  handlers. The files of \<^verbatim>\<open>metainfo\<close> about torrents cut files into pieces and blocks, hash them, and read and
  write blocks across file boundaries.

  \<^bold>\<open>Theories and code.\<close>
  \<^item> \<open>Prelude\<close>: bytes, words, big-endian numbers, Go maps as association lists, and the interfaces \<open>codec\<close>,
    \<open>fixed_codec\<close>, \<open>expiring\<close> and \<open>inductive_invariant\<close>, which the components interpret.
  \<^item> \<open>Infohash\<close>: \<^verbatim>\<open>metainfo/infohash.go\<close>. \<open>Sha\<close>: SHA-1 and SHA-256 of the standard library.
  \<^item> \<open>Bencode\<close>: \<^verbatim>\<open>bencode/encode.go\<close>, \<^verbatim>\<open>tag.go\<close>, \<^verbatim>\<open>raw.go\<close>, and \<^verbatim>\<open>decode.go\<close> for \<^verbatim>\<open>interface{}\<close>, scalars and \<^verbatim>\<open>RawMessage\<close>.
    \<open>gval\<close> is a reflected value, \<open>bval\<close> a decoded one. \<open>StructDecode\<close>: the rest of \<^verbatim>\<open>decode.go\<close>, decoding into structs, slices and
    maps; a target is given by its decoder, which stands for what reflection finds.
  \<^item> \<open>Address\<close>, \<open>Resolver\<close>: \<^verbatim>\<open>metainfo/address.go\<close>, \<^verbatim>\<open>utils/addr.go\<close>, and the functions of package \<^verbatim>\<open>net\<close> they call.
  \<^item> \<open>Krpc\<close>, \<open>KrpcDecode\<close>: \<^verbatim>\<open>krpc/message.go\<close> and \<^verbatim>\<open>krpc/node.go\<close>: the structs as records, how they are encoded, and their fields and
    tags as the decoder sees them.
  \<^item> \<open>RoutingTable\<close>: \<^verbatim>\<open>dht/routing_table.go\<close>; \<open>rt_AddNode\<close>, \<open>rt_checkAllBuckets\<close>, \<open>rt_Closest\<close> are the methods of those names.
  \<^item> \<open>DhtManagers\<close>: \<^verbatim>\<open>dht/token_manager.go\<close>, \<^verbatim>\<open>transaction_manager.go\<close>, \<^verbatim>\<open>peer_manager.go\<close>, \<^verbatim>\<open>blacklist.go\<close>.
    \<open>DataStorage\<close>: \<^verbatim>\<open>dht/data_storage.go\<close>.
  \<^item> \<open>DhtServer\<close>: \<^verbatim>\<open>dht/dht_server.go\<close>, one definition for each handler and each operation of the user; the record \<open>server\<close> joins
    the states of the managers and records what was sent and called. \<open>DhtServer_Inv\<close> has the step relation
    \<open>server_step\<close> (every message, periodic task and operation) and its invariant, \<open>DhtServer_Props\<close> the properties
    of the handlers, \<open>DhtWire\<close> the way from the bytes of a packet to the handlers.
  \<^item> \<open>PeerMessage\<close>: \<^verbatim>\<open>peerprotocol/message.go\<close>, \<^verbatim>\<open>protocol.go\<close>. \<open>PeerExtension\<close>: \<^verbatim>\<open>extension.go\<close>. \<open>PeerConn\<close>: \<^verbatim>\<open>handshake.go\<close>,
    \<^verbatim>\<open>peerconn.go\<close>, \<^verbatim>\<open>noop_handler.go\<close> and \<^verbatim>\<open>server.go\<close>.
  \<^item> \<open>Torrent\<close>: \<^verbatim>\<open>metainfo/info.go\<close>, \<^verbatim>\<open>file.go\<close>, \<^verbatim>\<open>piece.go\<close>, \<^verbatim>\<open>utils/io.go\<close>. \<open>TorrentIO\<close>: \<^verbatim>\<open>metainfo/reader.go\<close> and \<^verbatim>\<open>writer.go\<close>.

  \<^bold>\<open>Conventions.\<close> A struct is a record. A Go error is the left side of a sum or an optional error beside the result. A
  panic is \<open>None\<close>, and where the code recovers from it a flag. A method that changes its receiver returns the
  new state. Integers of the code are \<open>int\<close> with \<open>i64\<close> or \<open>wrap_signed\<close> where they can wrap, or words. Names are those of the code, with
  the receiver in front where needed.

  \<^bold>\<open>Parameters.\<close> The I2P address library (\<open>i2p_lib\<close>), the name resolvers, \<^verbatim>\<open>ed25519.Verify\<close> (\<open>verifier\<close>), what a write to a
  connection does, the clock, random values, the file system a torrent is made from, the files that cannot be
  opened, and the handlers and hooks of the user. \<open>writes_all\<close> and \<open>writes_fully\<close> say that a connection takes all it is given;
  \<open>quiet\<close> that a handler leaves the unread input and the limit of a connection alone; \<open>observer\<close> that it
  leaves the connection as it is.

  \<^bold>\<open>What is shown.\<close>
  \<^item> Formats: what is encoded is decoded to the same value and exactly its bytes are taken, for \<^verbatim>\<open>bencode\<close> values and raw
    messages (\<open>Bencode\<close>), KRPC messages (\<open>KrpcDecode\<close>), peer messages (\<open>PeerMessage\<close>) and metadata messages
    (\<open>PeerExtension\<close>). The decoders end on every input, stay within their limits and give well-typed messages.
  \<^item> The DHT: an invariant of the server in all reachable states, which joins those of its tables, its store and its
    blacklist; the closest nodes are those of a sort; the effect of adding a node and of putting an item, in every
    case; the life of tokens and transactions; which queries are answered, and with what; that searches end; that
    what is put can be read; that a ping works from one server to another and back, over packets.
  \<^item> Peers: both sides of a handshake agree; the message loop refines handling the messages one by one, and ends when its
    input does; both sides agree on choking and interest; bit fields and lists of pieces implement sets.
  \<^item> Torrents: parts and blocks cover files and pieces exactly; merging keeps positions; writing is a splice of the
    concatenated files, which reading gives back; pieces made from files verify.
  \<^item> Flaws, as theorems about the code as it is: a stored token that makes a later query panic, the inverted check of
    tokens, a write behind the end of a torrent, paths that leave the directory, a mutable item that is replaced
    without a signature, messages without their index, nodes that are blocked for their first query, and a search
    that stops after one answer.

  \<^bold>\<open>Fuel and loops.\<close> The recursion of the decoder takes fuel, \<open>2 * length bs + 2\<close> for an input \<open>bs\<close>: two levels of recursion for
  a byte, and \<open>decodeInto_fuel\<close> shows that it is never used up. The loops \<open>loopRun\<close>, \<open>generate_loop\<close>, \<open>read_loop\<close> and \<open>write_loop\<close> are partial
  functions, in which not returning is \<open>None\<close>; that they return is part of what is shown: for \<open>loopRun\<close> with quiet
  handlers (\<open>loop_stops\<close>), for \<open>generate_loop\<close> with a positive length (\<open>generated\<close>), and for the others inside of a torrent. All
  other loops are total functions.

  \<^bold>\<open>What the model leaves out.\<close>
  \<^item> Concurrency: an event (a packet, a tick, a call of a user) is handled as a whole, with one reading of the clock;
    sending a query and remembering its transaction are one step. Locks, goroutines and closing have no part.
  \<^item> Time on streams: the input of a peer connection is a finite list of bytes that ends. Deadlines and peers that
    stay silent are left out, as is closing a connection. A handler of the user always returns.
  \<^item> Memory: slices are values, so memory shared by two slices is only described for the entries of a bucket, and
    that \<^verbatim>\<open>Merge\<close> also sorts its argument is not; memory is never exhausted.
  \<^item> The encoder: an interface around a pointer to a pointer to a marshaler, and the order of two fields of one struct
    with the same key. The decoder: a value that is partly filled when an error comes is dropped.
  \<^item> The store: its invariant is about items put without a target, as the server puts them; the cases of \<^verbatim>\<open>Put\<close> are about any.
  \<^item> The periodic check of a table: a panic of one of its pings is not recovered from, so that a step of the server
    does not exist where the code would log the panic.
  \<^item> Disks: no errors but names that are absent or cannot be opened; paths are those of Unix.
  \<^item> Connections: after an extended handshake that cannot be decoded the old one stands, where the code has filled it in
    part and gives up the connection. The only panic of a connection is that of a nil one.
  \<^item> Not modelled, as input and output, user interfaces or thin layers over the above: \<^verbatim>\<open>metainfo/metainfo.go\<close>
    and \<^verbatim>\<open>magnet.go\<close>, \<^verbatim>\<open>peerprotocol/fastset.go\<close> and \<^verbatim>\<open>pex_handler.go\<close>, the packages \<^verbatim>\<open>tracker\<close>, \<^verbatim>\<open>downloader\<close>,
    \<^verbatim>\<open>downloadhandler\<close>, \<^verbatim>\<open>uploader\<close>, \<^verbatim>\<open>uploadhandler\<close>, \<^verbatim>\<open>webseed\<close> and \<^verbatim>\<open>rpc\<close>, the remaining helpers of \<^verbatim>\<open>utils\<close>, and the examples.
\<close>

end
